(* ===== verification/Nonsense_Prelude.thy ===== *)
theory Nonsense_Prelude
  imports Main "HOL-Library.Word" "HOL-Library.Char_ord" "HOL-Library.List_Lexorder"
begin

text \<open>
  Shared vocabulary of the development: the outcome type of code that may throw or abort,
  \<open>std::map\<close> as a key-sorted association list together with the contract its clients rely
  on (locale \<open>std_map\<close>), the \<open>std::string\<close> searches the sources use, and integer formatting
  through \<open>std::ostream\<close> (decimal, and zero-padded hexadecimal).
\<close>

named_theorems map_simps \<open>rewriting of sorted association lists\<close>

section \<open>Outcomes\<close>

text \<open>
  \<open>Throw\<close> carries the exception object, \<open>Abort\<close> is the end of the process: a failed \<open>assert\<close>,
  \<open>std::abort\<close>, or \<open>std::terminate\<close> when an exception leaves a \<open>noexcept\<close> function.
\<close>

datatype exn =
    RuntimeError string
  | TypeError nat string
  | ParseError nat string
  | OutOfRange string

datatype 'a res = Ret 'a | Throw exn | Abort

fun bind_res :: "'a res \<Rightarrow> ('a \<Rightarrow> 'b res) \<Rightarrow> 'b res" where
  "bind_res (Ret x) f = f x"
| "bind_res (Throw e) f = Throw e"
| "bind_res Abort f = Abort"

lemma bind_res_Ret_iff [simp]:
  "bind_res r f = Ret y \<longleftrightarrow> (\<exists>x. r = Ret x \<and> f x = Ret y)"
  by (cases r) auto

section \<open>Ordered maps\<close>

text \<open>What the sources rely on in a \<open>std::map\<close>: lookup after insertion and erasure, and
  iteration in increasing key order.\<close>

locale std_map =
  fixes find :: "'m \<Rightarrow> 'k::linorder \<Rightarrow> 'v option"
    and upd :: "'k \<Rightarrow> 'v \<Rightarrow> 'm \<Rightarrow> 'm"
    and erase :: "'k \<Rightarrow> 'm \<Rightarrow> 'm"
    and keys :: "'m \<Rightarrow> 'k list"
    and invar :: "'m \<Rightarrow> bool"
  assumes find_upd: "find (upd k v m) k' = (if k' = k then Some v else find m k')"
    and find_erase: "invar m \<Longrightarrow> find (erase k m) k' = (if k' = k then None else find m k')"
    and keys_find: "k \<in> set (keys m) \<longleftrightarrow> find m k \<noteq> None"
    and keys_sorted: "invar m \<Longrightarrow> sorted_wrt (<) (keys m)"
    and invar_upd: "invar m \<Longrightarrow> invar (upd k v m)"
    and invar_erase: "invar m \<Longrightarrow> invar (erase k m)"
begin

lemma keys_upd: "set (keys (upd k v m)) = insert k (set (keys m))"
  by (auto simp: keys_find find_upd split: if_splits)

lemma keys_erase: "invar m \<Longrightarrow> set (keys (erase k m)) = set (keys m) - {k}"
  by (auto simp: keys_find find_erase split: if_splits)

lemma distinct_keys: "invar m \<Longrightarrow> distinct (keys m)"
  using keys_sorted strict_sorted_iff by blast

lemma length_keys_card: "invar m \<Longrightarrow> length (keys m) = card (set (keys m))"
  by (simp add: distinct_card distinct_keys)

lemma emplace_then_erase:
  "invar m \<Longrightarrow> find m k = None \<Longrightarrow> find (erase k (upd k v m)) k' = find m k'"
  by (simp add: find_erase invar_upd find_upd)

end

fun map_set :: "'k::linorder \<Rightarrow> 'v \<Rightarrow> ('k \<times> 'v) list \<Rightarrow> ('k \<times> 'v) list" where
  "map_set k v [] = [(k, v)]"
| "map_set k v ((k', v') # m) =
     (if k = k' then (k, v) # m
      else if k < k' then (k, v) # (k', v') # m
      else (k', v') # map_set k v m)"

fun map_erase :: "'k::linorder \<Rightarrow> ('k \<times> 'v) list \<Rightarrow> ('k \<times> 'v) list" where
  "map_erase k [] = []"
| "map_erase k ((k', v') # m) = (if k = k' then m else (k', v') # map_erase k m)"

definition map_wf :: "('k::linorder \<times> 'v) list \<Rightarrow> bool" where
  "map_wf m \<longleftrightarrow> sorted_wrt (<) (map fst m)"

lemma map_wf_Nil [simp]: "map_wf []"
  by (simp add: map_wf_def)

lemma map_wf_Cons:
  "map_wf ((k, v) # m) \<longleftrightarrow> (\<forall>k' \<in> fst ` set m. k < k') \<and> map_wf m"
  by (auto simp: map_wf_def)

lemma map_wf_single [simp]: "map_wf [(k, v)]"
  by (simp add: map_wf_def)

lemma map_of_map_set [simp, map_simps]:
  "map_of (map_set k v m) k' = (if k' = k then Some v else map_of m k')"
  by (induction k v m rule: map_set.induct) auto

lemma fst_map_set: "fst ` set (map_set k v m) = insert k (fst ` set m)"
  by (induction k v m rule: map_set.induct) auto

lemma map_wf_map_set [simp, map_simps]: "map_wf m \<Longrightarrow> map_wf (map_set k v m)"
  by (induction k v m rule: map_set.induct) (auto simp: map_wf_Cons fst_map_set)

lemma fst_map_erase_subset: "fst ` set (map_erase k m) \<subseteq> fst ` set m"
  by (induction k m rule: map_erase.induct) auto

lemma map_wf_map_erase [simp, map_simps]: "map_wf m \<Longrightarrow> map_wf (map_erase k m)"
proof (induction k m rule: map_erase.induct)
  case (2 k k' v' m)
  then show ?case
    using fst_map_erase_subset[of k m] by (fastforce simp: map_wf_Cons)
qed simp

lemma map_of_map_erase [simp, map_simps]:
  "map_wf m \<Longrightarrow> map_of (map_erase k m) k' = (if k' = k then None else map_of m k')"
proof (induction k m rule: map_erase.induct)
  case (2 k k'' v'' m)
  moreover from this have "map_of m k'' = None"
    by (auto simp: map_wf_Cons map_of_eq_None_iff)
  ultimately show ?case
    by (auto simp: map_wf_Cons)
qed simp

lemma map_set_idem [simp, map_simps]: "map_wf m \<Longrightarrow> map_of m k = Some v \<Longrightarrow> map_set k v m = m"
proof (induction k v m rule: map_set.induct)
  case (2 k v k' v' m)
  then show ?case
    by (auto simp: map_wf_Cons split: if_splits dest!: map_of_SomeD)
qed simp

lemma map_set_map_set [simp, map_simps]: "map_set k v (map_set k w m) = map_set k v m"
  by (induction k w m rule: map_set.induct) auto

text \<open>A sorted association list is determined by its lookup function.\<close>

lemma map_wf_ext:
  "map_wf m \<Longrightarrow> map_wf m' \<Longrightarrow> map_of m = map_of m' \<Longrightarrow> m = m'"
proof (induction m arbitrary: m')
  case Nil
  then show ?case
    by (cases m') (auto simp: fun_eq_iff split: if_splits)
next
  case (Cons x m)
  obtain k v where x: "x = (k, v)" by (cases x)
  have dom: "insert k (fst ` set m) = fst ` set m'"
    using Cons.prems(3) by (metis dom_map_of_conv_image_fst fst_conv image_insert list.simps(15) x)
  then obtain k' v' n where m': "m' = (k', v') # n"
    by (cases m') auto
  have "k = k'"
    using dom Cons.prems(1,2) unfolding x m'
    by (auto simp: map_wf_Cons) (metis (no_types, lifting) fst_conv image_iff insert_iff less_asym)
  moreover have "v = v'"
    using Cons.prems(3) \<open>k = k'\<close> by (auto simp: x m' fun_eq_iff dest: spec[of _ k])
  moreover have "map_of m = map_of n"
  proof
    fix j
    have "map_of m k = None" "map_of n k = None"
      using Cons.prems(1,2) \<open>k = k'\<close> by (auto simp: x m' map_wf_Cons map_of_eq_None_iff)
    then show "map_of m j = map_of n j"
      using fun_cong[OF Cons.prems(3), of j] \<open>k = k'\<close> by (cases "j = k") (auto simp: x m')
  qed
  then have "m = n"
    using Cons.IH[of n] Cons.prems(1,2) by (simp add: x m' map_wf_Cons)
  ultimately show ?case by (simp add: x m')
qed

interpretation om: std_map map_of map_set map_erase "map fst" map_wf
proof unfold_locales
  show "k \<in> set (map fst m) \<longleftrightarrow> map_of m k \<noteq> None" for k :: "'a::linorder" and m :: "('a \<times> 'b) list"
    by (simp add: map_of_eq_None_iff)
  show "map_wf m \<Longrightarrow> sorted_wrt (<) (map fst m)" for m :: "('a::linorder \<times> 'b) list"
    by (simp only: map_wf_def)
qed (rule map_of_map_set map_of_map_erase map_wf_map_set map_wf_map_erase; assumption)+

section \<open>Strings\<close>

text \<open>\<open>s.find(c, pos)\<close>, with \<open>None\<close> for \<open>npos\<close>.\<close>

fun find_char :: "char \<Rightarrow> string \<Rightarrow> nat option" where
  "find_char c [] = None"
| "find_char c (x # xs) = (if x = c then Some 0 else map_option Suc (find_char c xs))"

definition find_char_from :: "char \<Rightarrow> string \<Rightarrow> nat \<Rightarrow> nat option" where
  "find_char_from c s pos = map_option (\<lambda>i. pos + i) (find_char c (drop pos s))"

text \<open>\<open>s.rfind(c)\<close>.\<close>

definition rfind_char :: "char \<Rightarrow> string \<Rightarrow> nat option" where
  "rfind_char c s = map_option (\<lambda>i. length s - Suc i) (find_char c (rev s))"

text \<open>\<open>s.substr(pos, n)\<close> for \<open>pos \<le> s.size()\<close>.\<close>

definition substr :: "string \<Rightarrow> nat \<Rightarrow> nat \<Rightarrow> string" where
  "substr s pos n = take n (drop pos s)"

definition starts_with :: "string \<Rightarrow> char \<Rightarrow> bool" where
  "starts_with s c = (case s of [] \<Rightarrow> False | x # _ \<Rightarrow> x = c)"

lemma find_char_None [simp]: "find_char c s = None \<longleftrightarrow> c \<notin> set s"
  by (induction s) auto

lemma find_char_absent [simp]: "c \<notin> set s \<Longrightarrow> find_char c s = None"
  by simp

lemma find_char_Some_less: "find_char c s = Some i \<Longrightarrow> i < length s"
  by (induction s arbitrary: i) (auto split: if_splits)

lemma find_char_Some_nth: "find_char c s = Some i \<Longrightarrow> s ! i = c"
  by (induction s arbitrary: i) (auto split: if_splits)

lemma find_char_append: "c \<notin> set s \<Longrightarrow> find_char c (s @ c # t) = Some (length s)"
  by (induction s) auto

lemma find_char_from_Some:
  "find_char_from c s pos = Some i \<Longrightarrow> pos \<le> i \<and> i < length s"
  using find_char_Some_less[of c "drop pos s"] by (auto simp: find_char_from_def)

lemma rfind_char_append:
  "c \<notin> set t \<Longrightarrow> rfind_char c (s @ c # t) = Some (length s)"
  using find_char_append[of c "rev t" "rev s"] by (simp add: rfind_char_def)

section \<open>Integer formatting\<close>

definition digit_char :: "nat \<Rightarrow> char" where
  "digit_char d = (if d < 10 then char_of (48 + d) else char_of (87 + d))"

fun digits_base :: "nat \<Rightarrow> nat \<Rightarrow> nat list" where
  "digits_base b n = (if b < 2 \<or> n < b then [n] else digits_base b (n div b) @ [n mod b])"

declare digits_base.simps [simp del]

definition show_dec :: "nat \<Rightarrow> string" where
  "show_dec n = map digit_char (digits_base 10 n)"

definition show_hex :: "nat \<Rightarrow> string" where
  "show_hex n = map digit_char (digits_base 16 n)"

lemma show_dec_0 [simp]: "show_dec 0 = ''0''"
  by code_simp

text \<open>\<open>os.fill('0')\<close> with \<open>std::setw(w)\<close>.\<close>

definition pad_zero :: "nat \<Rightarrow> string \<Rightarrow> string" where
  "pad_zero w s = replicate (w - length s) (CHR ''0'') @ s"

lemma value_digits_base: "2 \<le> b \<Longrightarrow> foldl (\<lambda>acc d. acc * b + d) 0 (digits_base b n) = n"
proof (induction b n rule: digits_base.induct)
  case (1 b n)
  then show ?case
    by (cases "n < b") (simp_all add: digits_base.simps[of b n])
qed

lemma digits_base_less: "2 \<le> b \<Longrightarrow> \<forall>d \<in> set (digits_base b n). d < b"
proof (induction b n rule: digits_base.induct)
  case (1 b n)
  then show ?case
    by (cases "n < b") (auto simp add: digits_base.simps[of b n])
qed

lemma digits_base_nonempty [simp]: "digits_base b n \<noteq> []"
  by (subst digits_base.simps) simp

text \<open>The value of a hexadecimal digit, and of a digit string; other characters have no value.\<close>

definition digit_value :: "char \<Rightarrow> nat option" where
  "digit_value c =
     (let n = of_char c in
      if 48 \<le> n \<and> n \<le> 57 then Some (n - 48)
      else if 97 \<le> n \<and> n \<le> 102 then Some (n - 87)
      else if 65 \<le> n \<and> n \<le> 70 then Some (n - 55)
      else None)"

definition hex_value :: "string \<Rightarrow> nat" where
  "hex_value s = foldl (\<lambda>acc c. acc * 16 + (case digit_value c of None \<Rightarrow> 0 | Some d \<Rightarrow> d)) 0 s"

lemma digit_value_char [simp]: "d < 16 \<Longrightarrow> digit_value (digit_char d) = Some d"
  by (auto simp: digit_value_def digit_char_def Let_def of_char_of)

lemma digit_value_zero [simp]: "digit_value (CHR ''0'') = Some 0"
  by code_simp

lemma foldl_digits:
  "\<forall>d \<in> set ds. d < 16 \<Longrightarrow>
     foldl (\<lambda>acc c. acc * 16 + (case digit_value c of None \<Rightarrow> 0 | Some d \<Rightarrow> d)) a (map digit_char ds) =
     foldl (\<lambda>acc d. acc * 16 + d) a ds"
  by (induction ds arbitrary: a) auto

lemma hex_value_show_hex [simp]: "hex_value (show_hex n) = n"
  using digits_base_less[of 16 n] by (simp add: hex_value_def show_hex_def foldl_digits value_digits_base)

lemma hex_value_zeros: "hex_value (replicate k (CHR ''0'') @ s) = hex_value s"
  by (induction k) (simp_all add: hex_value_def)

lemma hex_value_pad [simp]: "hex_value (pad_zero w (show_hex n)) = n"
  by (simp add: pad_zero_def hex_value_zeros)

lemma pad_zero_hex_inject: "pad_zero w (show_hex m) = pad_zero w (show_hex n) \<longleftrightarrow> m = n"
  using hex_value_pad by metis

lemma length_digits_base: "2 \<le> b \<Longrightarrow> 0 < k \<Longrightarrow> n < b ^ k \<Longrightarrow> length (digits_base b n) \<le> k"
proof (induction k arbitrary: n)
  case (Suc k)
  show ?case
  proof (cases "n < b")
    case False
    moreover from this Suc.prems have "0 < k"
      by (cases k) auto
    moreover have "n div b < b ^ k"
      using Suc.prems by (simp add: less_mult_imp_div_less mult.commute)
    ultimately show ?thesis
      using Suc by (subst digits_base.simps) auto
  qed (simp add: digits_base.simps[of b n])
qed simp

lemma length_pad_hex: "n < 16 ^ w \<Longrightarrow> 0 < w \<Longrightarrow> length (pad_zero w (show_hex n)) = w"
  using length_digits_base[of 16 w n] by (simp add: pad_zero_def show_hex_def)

end
