(* ===== verification/Json.thy ===== *)
theory Json
  imports Nonsense_Prelude
begin

text \<open>
  JSON values of \<open>vendor/json.hpp\<close> as the daemon uses them: the value type, comparison, member
  access with its type errors, and iteration. An object is a \<open>std::map\<close> ordered by key; a
  reference into a value is a path of keys, read with \<open>json_at\<close> and written with
  \<open>json_put\<close>. Integers and unsigned integers keep their 64 bits, floating-point numbers are
  their IEEE 754 bit pattern.
\<close>

named_theorems json_simps \<open>rewriting of JSON member access\<close>

unbundle bit_operations_syntax

datatype json =
    JNull
  | JBool bool
  | JInt "64 word"
  | JUInt "64 word"
  | JFloat "64 word"
  | JString string
  | JArray "json list"
  | JObject "(string \<times> json) list"

type_synonym object = "(string \<times> json) list"

fun wf_json :: "json \<Rightarrow> bool" where
  "wf_json (JArray xs) \<longleftrightarrow> (\<forall>x \<in> set xs. wf_json x)"
| "wf_json (JObject m) \<longleftrightarrow> map_wf m \<and> (\<forall>kv \<in> set m. wf_json (snd kv))"
| "wf_json JNull \<longleftrightarrow> True"
| "wf_json (JBool b) \<longleftrightarrow> True"
| "wf_json (JInt i) \<longleftrightarrow> True"
| "wf_json (JUInt i) \<longleftrightarrow> True"
| "wf_json (JFloat f) \<longleftrightarrow> True"
| "wf_json (JString s) \<longleftrightarrow> True"

fun type_name :: "json \<Rightarrow> string" where
  "type_name JNull = ''null''"
| "type_name (JObject m) = ''object''"
| "type_name (JArray xs) = ''array''"
| "type_name (JString s) = ''string''"
| "type_name (JBool b) = ''boolean''"
| "type_name (JInt i) = ''number''"
| "type_name (JUInt i) = ''number''"
| "type_name (JFloat f) = ''number''"

fun is_object :: "json \<Rightarrow> bool" where
  "is_object (JObject m) = True"
| "is_object _ = False"

fun is_string :: "json \<Rightarrow> bool" where
  "is_string (JString s) = True"
| "is_string _ = False"

fun is_boolean :: "json \<Rightarrow> bool" where
  "is_boolean (JBool b) = True"
| "is_boolean _ = False"

text \<open>The text of an exception, \<open>e.what()\<close>. That of a parse error also says where the error is and what was
  read last, which is left out.\<close>

fun what :: "exn \<Rightarrow> string" where
  "what (RuntimeError s) = s"
| "what (TypeError n s) = ''[json.exception.type_error.'' @ show_dec n @ ''] '' @ s"
| "what (ParseError n s) = ''[json.exception.parse_error.'' @ show_dec n @ ''] parse error: '' @ s"
| "what (OutOfRange s) = s"

section \<open>Comparison\<close>

text \<open>Conversion of an integer to \<open>double\<close>, rounding to nearest and ties to even, and
  comparison of two doubles given by their bit patterns.\<close>

function floor_log2 :: "int \<Rightarrow> nat" where
  "floor_log2 n = (if n < 2 then 0 else Suc (floor_log2 (n div 2)))"
  by pat_completeness auto
termination
  by (relation "measure nat") auto

declare floor_log2.simps [simp del]

definition round_even :: "int \<Rightarrow> nat \<Rightarrow> int" where
  "round_even n k =
     (let q = n div 2 ^ k; r = n mod 2 ^ k
      in if 2 * r < 2 ^ k \<or> (2 * r = 2 ^ k \<and> even q) then q else q + 1)"

text \<open>The bits of a non-negative integer: a significand of 53 bits whose leading one carries
  into the biased exponent.\<close>

definition double_magnitude :: "int \<Rightarrow> 64 word" where
  "double_magnitude n =
     (if n = 0 then 0
      else let e = floor_log2 n;
               m = (if e \<le> 52 then n * 2 ^ (52 - e) else round_even n (e - 52))
           in of_int ((int e + 1022) * 2 ^ 52 + m))"

definition double_of_int :: "int \<Rightarrow> 64 word" where
  "double_of_int i =
     (if i < 0 then double_magnitude (- i) OR push_bit 63 1 else double_magnitude i)"

definition double_eq :: "64 word \<Rightarrow> 64 word \<Rightarrow> bool" where
  "double_eq a b =
     (let mag = (\<lambda>w. take_bit 63 w); inf = push_bit 52 (2047 :: 64 word)
      in mag a \<le> inf \<and> mag b \<le> inf \<and> (a = b \<or> (mag a = 0 \<and> mag b = 0)))"

fun json_eq :: "json \<Rightarrow> json \<Rightarrow> bool"
  and json_eq_list :: "json list \<Rightarrow> json list \<Rightarrow> bool"
  and json_eq_object :: "object \<Rightarrow> object \<Rightarrow> bool" where
  "json_eq (JArray xs) (JArray ys) = json_eq_list xs ys"
| "json_eq (JObject m) (JObject m') = json_eq_object m m'"
| "json_eq JNull JNull = True"
| "json_eq (JString s) (JString s') = (s = s')"
| "json_eq (JBool b) (JBool b') = (b = b')"
| "json_eq (JInt i) (JInt i') = (i = i')"
| "json_eq (JUInt i) (JUInt i') = (i = i')"
| "json_eq (JFloat f) (JFloat f') = double_eq f f'"
| "json_eq (JInt i) (JFloat f) = double_eq (double_of_int (sint i)) f"
| "json_eq (JFloat f) (JInt i) = double_eq f (double_of_int (sint i))"
| "json_eq (JUInt i) (JFloat f) = double_eq (double_of_int (uint i)) f"
| "json_eq (JFloat f) (JUInt i) = double_eq f (double_of_int (uint i))"
| "json_eq (JUInt i) (JInt i') = (i = i')"
| "json_eq (JInt i) (JUInt i') = (i = i')"
| "json_eq _ _ = False"
| "json_eq_list [] [] = True"
| "json_eq_list (x # xs) (y # ys) = (json_eq x y \<and> json_eq_list xs ys)"
| "json_eq_list _ _ = False"
| "json_eq_object [] [] = True"
| "json_eq_object ((k, v) # m) ((k', v') # m') = (k = k' \<and> json_eq v v' \<and> json_eq_object m m')"
| "json_eq_object _ _ = False"

section \<open>Member access\<close>

text \<open>\<open>j[key]\<close> on a mutable value: \<open>null\<close> becomes an object and a missing member is created
  as \<open>null\<close>. The result is the value afterwards and the member.\<close>

fun json_subscript :: "string \<Rightarrow> json \<Rightarrow> (json \<times> json) res" where
  "json_subscript k JNull = Ret (JObject [(k, JNull)], JNull)"
| "json_subscript k (JObject m) =
     (case map_of m k of
        Some v \<Rightarrow> Ret (JObject m, v)
      | None \<Rightarrow> Ret (JObject (map_set k JNull m), JNull))"
| "json_subscript k j =
     Throw (TypeError 305 (''cannot use operator[] with a string argument with '' @ type_name j))"

fun json_find :: "string \<Rightarrow> json \<Rightarrow> json option" where
  "json_find k (JObject m) = map_of m k"
| "json_find k _ = None"

definition json_count :: "string \<Rightarrow> json \<Rightarrow> nat" where
  "json_count k j = (case json_find k j of None \<Rightarrow> 0 | Some _ \<Rightarrow> 1)"

text \<open>\<open>find\<close> with a JSON value as the key: the transparent comparison orders a key against
  the value itself, so a value that is not a string is never found.\<close>

fun json_find_json :: "json \<Rightarrow> json \<Rightarrow> json option" where
  "json_find_json (JString k) j = json_find k j"
| "json_find_json _ j = None"

fun json_erase :: "string \<Rightarrow> json \<Rightarrow> json res" where
  "json_erase k (JObject m) = Ret (JObject (map_erase k m))"
| "json_erase k j = Throw (TypeError 307 (''cannot use erase() with '' @ type_name j))"

text \<open>\<open>get_ref<std::string &>()\<close> and the conversion to \<open>std::string\<close>.\<close>

fun get_ref_string :: "json \<Rightarrow> string res" where
  "get_ref_string (JString s) = Ret s"
| "get_ref_string j =
     Throw (TypeError 303 (''incompatible ReferenceType for get_ref, actual type is '' @ type_name j))"

fun to_string :: "json \<Rightarrow> string res" where
  "to_string (JString s) = Ret s"
| "to_string j = Throw (TypeError 302 (''type must be string, but is '' @ type_name j))"

text \<open>The keys that \<open>items()\<close> yields.\<close>

fun items_keys :: "json \<Rightarrow> string list" where
  "items_keys (JObject m) = map fst m"
| "items_keys (JArray xs) = map show_dec [0..<length xs]"
| "items_keys JNull = []"
| "items_keys _ = ['''']"

section \<open>References as paths\<close>

fun json_at :: "string list \<Rightarrow> json \<Rightarrow> json option" where
  "json_at [] j = Some j"
| "json_at (k # ks) j = (case json_find k j of None \<Rightarrow> None | Some c \<Rightarrow> json_at ks c)"

fun json_put :: "string list \<Rightarrow> json \<Rightarrow> json \<Rightarrow> json" where
  "json_put [] v j = v"
| "json_put (k # ks) v (JObject m) =
     (case map_of m k of
        None \<Rightarrow> JObject m
      | Some c \<Rightarrow> JObject (map_set k (json_put ks v c) m))"
| "json_put (k # ks) v j = j"

fun obj_keys :: "json \<Rightarrow> string list" where
  "obj_keys (JObject m) = map fst m"
| "obj_keys _ = []"

section \<open>Laws\<close>

lemma is_objectE [elim!]:
  assumes "is_object j" obtains m where "j = JObject m"
  using assms by (cases j) auto

lemma wf_json_find: "wf_json j \<Longrightarrow> json_find k j = Some v \<Longrightarrow> wf_json v"
  by (cases j) (auto dest!: map_of_SomeD)

lemma wf_json_at: "wf_json j \<Longrightarrow> json_at ks j = Some v \<Longrightarrow> wf_json v"
  by (induction ks arbitrary: j) (auto split: option.splits dest: wf_json_find)

lemma set_map_set_subset: "set (map_set k v m) \<subseteq> insert (k, v) (set m)"
  by (induction k v m rule: map_set.induct) auto

lemma wf_json_map_set:
  "wf_json (JObject m) \<Longrightarrow> wf_json v \<Longrightarrow> wf_json (JObject (map_set k v m))"
  using set_map_set_subset[of k v m] by auto

lemma set_map_erase_subset: "set (map_erase k m) \<subseteq> set m"
  by (induction k m rule: map_erase.induct) auto

lemma wf_json_map_erase: "wf_json (JObject m) \<Longrightarrow> wf_json (JObject (map_erase k m))"
  using set_map_erase_subset[of k m] by auto

lemma wf_json_subscript:
  "wf_json j \<Longrightarrow> json_subscript k j = Ret (j', v) \<Longrightarrow> wf_json j' \<and> wf_json v"
proof (induction k j rule: json_subscript.induct)
  case (2 k m)
  then show ?case
    using wf_json_map_set[of m JNull k]
    by (auto split: option.splits dest!: map_of_SomeD)
qed auto

lemma json_subscript_find:
  "json_subscript k j = Ret (j', v) \<Longrightarrow> json_find k j' = Some v"
  by (induction k j rule: json_subscript.induct) (auto split: option.splits)

lemma json_subscript_existing [simp]:
  "json_find k j = Some v \<Longrightarrow> json_subscript k j = Ret (j, v)"
  by (cases j) auto

lemma json_find_put_other [simp]:
  "k \<noteq> k' \<Longrightarrow> json_find k' (json_put (k # ks) v j) = json_find k' j"
  by (cases j) (auto split: option.splits)

lemma json_find_put_same [simp]:
  "json_find k (json_put (k # ks) v j) = map_option (json_put ks v) (json_find k j)"
  by (cases j) (auto split: option.splits)

lemma json_at_put [simp]:
  "json_at ks j \<noteq> None \<Longrightarrow> json_at ks (json_put ks v j) = Some v"
  by (induction ks arbitrary: j) (auto split: option.splits)

lemma wf_json_put: "wf_json j \<Longrightarrow> wf_json v \<Longrightarrow> wf_json (json_put ks v j)"
proof (induction ks v j rule: json_put.induct)
  case (2 k ks v m)
  show ?case
  proof (cases "map_of m k")
    case (Some c)
    then have "wf_json c"
      using 2 by (auto dest!: map_of_SomeD)
    then show ?thesis
      using 2 Some wf_json_map_set by auto
  qed (use 2 in auto)
qed auto

lemma is_object_put [simp]: "is_object (json_put (k # ks) v j) = is_object j"
  by (cases j) (auto split: option.splits)

lemma map_fst_map_set_existing: "map_of m k \<noteq> None \<Longrightarrow> map_wf m \<Longrightarrow> map fst (map_set k v m) = map fst m"
proof (induction k v m rule: map_set.induct)
  case (2 k v k' v' m)
  then show ?case
    by (auto simp: map_wf_Cons split: if_splits dest!: map_of_SomeD)
qed simp

lemma obj_keys_put [simp]:
  "wf_json j \<Longrightarrow> obj_keys (json_put (k # ks) v j) = obj_keys j"
  by (cases j) (auto split: option.splits simp: map_fst_map_set_existing)

lemma set_obj_keys: "set (obj_keys j) = {k. json_find k j \<noteq> None}"
proof (cases j)
  case (JObject m)
  then show ?thesis
    using om.keys_find[of _ m] by auto
qed auto

lemma wf_json_ext:
  assumes "wf_json (JObject m)" "wf_json (JObject m')" "\<And>k. map_of m k = map_of m' k"
  shows "m = m'"
  using assms by (intro map_wf_ext) auto

text \<open>Comparison with a string literal.\<close>

lemma json_eq_string [simp]: "json_eq j (JString s) \<longleftrightarrow> j = JString s"
  by (cases j) auto

lemma json_eq_null [simp]: "json_eq j JNull \<longleftrightarrow> j = JNull"
  by (cases j) auto

end
