(* ===== verification/Common_Definitions.thy ===== *)
theory Common_Definitions
  imports Json
begin

text \<open>
  \<open>daemon/common_definitions.h\<close>: component types, the roles of a network component with their
  names in the configuration, and parameter values; and the error numbers the daemon uses.
\<close>

datatype component_type = Network

definition known_components :: "(string \<times> component_type) list" where
  "known_components = [(''network'', Network)]"

datatype network_role = Root | Interface | Router | Switch | Client

definition known_network_roles :: "(string \<times> network_role) list" where
  "known_network_roles =
     [(''root'', Root), (''interface'', Interface), (''router'', Router), (''switch'', Switch),
      (''client'', Client)]"

text \<open>The underlying integer of a role, which is what a JSON value stores of an enumerator.\<close>

fun role_index :: "network_role \<Rightarrow> nat" where
  "role_index Root = 0"
| "role_index Interface = 1"
| "role_index Router = 2"
| "role_index Switch = 3"
| "role_index Client = 4"

definition json_of_role :: "network_role \<Rightarrow> json" where
  "json_of_role r = JInt (of_nat (role_index r))"

record parameter_value =
  parameter :: string
  param_value :: string

definition EACCES :: int where "EACCES = 13"
definition EEXIST :: int where "EEXIST = 17"
definition EINVAL :: int where "EINVAL = 22"
definition ENOENT :: int where "ENOENT = 2"
definition EROFS :: int where "EROFS = 30"
definition ENOSYS :: int where "ENOSYS = 38"

lemmas errno_defs = EACCES_def EEXIST_def EINVAL_def ENOENT_def EROFS_def ENOSYS_def

lemma known_components_iff [simp]:
  "map_of known_components t = Some c \<longleftrightarrow> t = ''network'' \<and> c = Network"
  "map_of known_components t = None \<longleftrightarrow> t \<noteq> ''network''"
  by (auto simp: known_components_def)

text \<open>Distinct roles are stored as distinct integers, so \<open>:role\<close> identifies the role.\<close>

lemma json_of_role_eq [simp]: "json_eq (json_of_role r) (json_of_role r') \<longleftrightarrow> r = r'"
  by (cases r; cases r') (simp_all add: json_of_role_def)

lemma known_network_roles_find:
  "map_of known_network_roles s = Some r \<Longrightarrow>
     s = (case r of Root \<Rightarrow> ''root'' | Interface \<Rightarrow> ''interface'' | Router \<Rightarrow> ''router''
                  | Switch \<Rightarrow> ''switch'' | Client \<Rightarrow> ''client'')"
  by (auto simp: known_network_roles_def split: if_splits)

lemma known_network_roles_client [simp]:
  "map_of known_network_roles s = Some Client \<longleftrightarrow> s = ''client''"
  by (auto simp: known_network_roles_def)

lemma known_network_roles_switch [simp]:
  "map_of known_network_roles s = Some Switch \<longleftrightarrow> s = ''switch''"
  by (auto simp: known_network_roles_def)

end
