(* ===== verification/Config.thy ===== *)
theory Config
  imports Common_Definitions
begin

text \<open>
  \<open>daemon/config.cpp\<close>: the configuration object. Its JSON tree is the state of a small monad
  \<open>'a vm\<close> whose actions return, throw or abort and leave the tree as they changed it, so
  the validation functions read like the code: a reference into the tree is a path
  (\<open>ref_subscript\<close>, \<open>ref_assign\<close>), and what a failed validation has already written stays
  written. Definitions follow the order of the source.
\<close>

section \<open>Computations on the configuration tree\<close>

type_synonym 'a vm = "json \<Rightarrow> 'a res \<times> json"

definition ret_vm :: "'a \<Rightarrow> 'a vm" where
  "ret_vm x s = (Ret x, s)"

definition lift_vm :: "'a res \<Rightarrow> 'a vm" where
  "lift_vm r s = (r, s)"

definition throw_vm :: "exn \<Rightarrow> 'a vm" where
  "throw_vm e s = (Throw e, s)"

definition bind_vm :: "'a vm \<Rightarrow> ('a \<Rightarrow> 'b vm) \<Rightarrow> 'b vm" where
  "bind_vm m f s =
     (case m s of
        (Ret x, s') \<Rightarrow> f x s'
      | (Throw e, s') \<Rightarrow> (Throw e, s')
      | (Abort, s') \<Rightarrow> (Abort, s'))"

text \<open>\<open>ref[key]\<close> on the value at a path; reading the whole tree; assignment through a
  reference.\<close>

definition ref_subscript :: "string list \<Rightarrow> string \<Rightarrow> json vm" where
  "ref_subscript path k s =
     (case json_at path s of
        None \<Rightarrow> (Abort, s)
      | Some j \<Rightarrow>
          (case json_subscript k j of
             Ret (j', v) \<Rightarrow> (Ret v, json_put path j' s)
           | Throw e \<Rightarrow> (Throw e, s)
           | Abort \<Rightarrow> (Abort, s)))"

definition ref_assign :: "string list \<Rightarrow> json \<Rightarrow> unit vm" where
  "ref_assign path v s = (Ret (), json_put path v s)"

definition read_vm :: "(json \<Rightarrow> 'a) \<Rightarrow> 'a vm" where
  "read_vm f s = (Ret (f s), s)"

definition quoted :: "string \<Rightarrow> string" where
  "quoted s = CHR 0x27 # s @ [CHR 0x27]"

section \<open>The configuration object\<close>

record config =
  mutable :: bool
  configuration :: json
  installed :: bool

definition config_copy :: "config \<Rightarrow> config" where
  "config_copy other = \<lparr>mutable = True, configuration = configuration other, installed = False\<rparr>"

definition config_assign :: "config \<Rightarrow> config \<Rightarrow> config" where
  "config_assign self other = self\<lparr>configuration := configuration other\<rparr>"

text \<open>\<open>install\<close> takes the result of \<open>sd_bus_add_object_vtable\<close> and the C library's
  \<open>strerror\<close>; the interface name depends on mutability.\<close>

definition config_interface :: "config \<Rightarrow> string" where
  "config_interface self =
     (if mutable self then ''info.griwes.nonsense.MutableConfig'' else ''info.griwes.nonsenes.Config'')"

definition config_install :: "(int \<Rightarrow> string) \<Rightarrow> int \<Rightarrow> string \<Rightarrow> config \<Rightarrow> config res" where
  "config_install strerror ret dbus_path self =
     (if ret < 0
      then Throw (RuntimeError
             (''Failed to install the Config interface at '' @ dbus_path @ '': '' @ strerror (- ret)))
      else Ret (self\<lparr>installed := True\<rparr>))"

text \<open>An entity object: the name it was looked up by and the subtree it refers to.\<close>

record entity =
  entity_name :: string
  entity_self :: json

definition try_get :: "config \<Rightarrow> string \<Rightarrow> entity option" where
  "try_get self name =
     (case json_find name (configuration self) of
        None \<Rightarrow> None
      | Some j \<Rightarrow> Some \<lparr>entity_name = name, entity_self = j\<rparr>)"

section \<open>Validation of the metadata section\<close>

definition validate_metadata :: "json \<Rightarrow> unit res" where
  "validate_metadata cfg =
     (case json_find ''!metadata'' cfg of
        None \<Rightarrow> Throw (RuntimeError ''Invalid configuration file: no !metadata section.'')
      | Some metadata \<Rightarrow>
          if \<not> is_object metadata then
            Throw (RuntimeError
              ''Invalid configuration file: the !metadata section is not a JSON object.'')
          else
            (case find (\<lambda>k. k \<noteq> ''version'') (obj_keys metadata) of
               Some key \<Rightarrow> Throw (RuntimeError (''Invalid !metadata parameter: '' @ key @ ''.''))
             | None \<Rightarrow>
                 (case json_find ''version'' metadata of
                    None \<Rightarrow> Throw (RuntimeError
                      (''Invalid configuration file: the format version has not been specified in ''
                       @ ''the !metadata section.''))
                  | Some version \<Rightarrow>
                      if \<not> json_eq version (JInt 1) then
                        bind_res (to_string version) (\<lambda>v. Throw (RuntimeError
                          (''Invalid configuration file: unsupported configuration format version: ''
                           @ v @ ''.'')))
                      else Ret ())))"

section \<open>Validation of entities\<close>

datatype network_parameter = PRole | PExternal | PDefault | PAddress | PUplink

definition known_parameters :: "(string \<times> network_parameter) list" where
  "known_parameters =
     [(''role'', PRole), (''external'', PExternal), (''default'', PDefault),
      (''address'', PAddress), (''uplink'', PUplink)]"

definition validate_default :: "string \<Rightarrow> unit vm" where
  "validate_default name =
     bind_vm (ref_subscript [] '':default-netns'') (\<lambda>default_netns.
       if default_netns = JNull then ref_assign ['':default-netns''] (JString name)
       else if \<not> json_eq default_netns (JString name) then
         bind_vm (lift_vm (to_string default_netns)) (\<lambda>d. throw_vm (RuntimeError
           (''Invalid configuration: multiple entities specified as having their network ''
            @ ''components be the default netns: '' @ quoted name @ '' and '' @ quoted d @ ''.'')))
       else ret_vm ())"

definition validate_address :: "string \<Rightarrow> unit vm" where
  "validate_address name =
     bind_vm (ref_subscript [name, ''network''] '':role'') (\<lambda>role.
       if \<not> json_eq role (json_of_role Switch) then
         throw_vm (RuntimeError
           (''Invalid configuration: an address is specified for the network component of ''
            @ ''entity '' @ quoted name
            @ '', but the role of the network component role is not ''
            @ quoted ''switch'' @ ''.''))
       else ret_vm ())"

definition validate_uplink :: "string \<Rightarrow> unit vm" where
  "validate_uplink name =
     bind_vm (ref_subscript [name, ''network''] ''uplink'') (\<lambda>uplink_name.
     bind_vm (read_vm (json_find_json uplink_name)) (\<lambda>found.
       case found of
         None \<Rightarrow> throw_vm (RuntimeError
           (''Invalid configuration: unknown entity specified as the uplink of the network ''
            @ ''component of entity '' @ quoted name @ ''.''))
       | Some ent \<Rightarrow>
           bind_vm (lift_vm (to_string uplink_name)) (\<lambda>u.
           if \<not> is_object ent then
             throw_vm (RuntimeError
               (''Invalid configuration: the entity '' @ quoted u @ '' is not a JSON object.''))
           else
             (case json_find ''network'' ent of
                None \<Rightarrow> throw_vm (RuntimeError
                  (''Invalid configuration: the entity '' @ quoted u
                   @ '', specified as the uplink of the network component of entity ''
                   @ quoted name @ '', does not have a network component.''))
              | Some net \<Rightarrow>
                  if is_string net then lift_vm Abort
                  else if \<not> is_object net then
                    throw_vm (RuntimeError
                      (''Invalid configuration: the network component of entity '' @ quoted u
                       @ '' is not a JSON object.''))
                  else
                    bind_vm (ref_subscript [u, ''network''] ''role'') (\<lambda>role.
                      if json_eq role (JString ''client'') then
                        throw_vm (RuntimeError
                          (''Invalid configuration: the role of the network component of entity ''
                           @ quoted u
                           @ '', specified as the uplink for the network component of entity ''
                           @ quoted name @ '', is '' @ quoted ''client''
                           @ '', which cannot be used as an uplink.'' @ [CHR 0x27]))
                      else ret_vm ())))))"

definition validate_parameter :: "string \<Rightarrow> string \<Rightarrow> unit vm" where
  "validate_parameter name key =
     (if starts_with key (CHR '':'') then ret_vm ()
      else
        (case map_of known_parameters key of
           None \<Rightarrow> throw_vm (RuntimeError
             (''Invalid configuration: uknown parameter '' @ quoted key
              @ '' of the network component of entity '' @ quoted name @ ''.''))
         | Some PRole \<Rightarrow> ret_vm ()
         | Some PExternal \<Rightarrow> ret_vm ()
         | Some PDefault \<Rightarrow> validate_default name
         | Some PAddress \<Rightarrow> validate_address name
         | Some PUplink \<Rightarrow> validate_uplink name))"

fun validate_parameters :: "string \<Rightarrow> string list \<Rightarrow> unit vm" where
  "validate_parameters name [] = ret_vm ()"
| "validate_parameters name (key # keys) =
     bind_vm (validate_parameter name key) (\<lambda>_. validate_parameters name keys)"

definition validate_network :: "string \<Rightarrow> unit vm" where
  "validate_network name =
     bind_vm (ref_subscript [name, ''network''] ''role'') (\<lambda>role_value.
     bind_vm (lift_vm (get_ref_string role_value)) (\<lambda>role.
       case map_of known_network_roles role of
         None \<Rightarrow> throw_vm (RuntimeError
           (''Invalid configuration: unknown role '' @ quoted role
            @ '' of the network component of entity '' @ quoted name @ ''.''))
       | Some r \<Rightarrow>
           bind_vm (ref_subscript [name, ''network''] '':role'') (\<lambda>_.
           bind_vm (ref_assign [name, ''network'', '':role''] (json_of_role r)) (\<lambda>_.
           bind_vm (read_vm (json_at [name, ''network''])) (\<lambda>component.
             case component of
               None \<Rightarrow> lift_vm Abort
             | Some c \<Rightarrow> validate_parameters name (items_keys c))))))"

fun validate_components :: "string \<Rightarrow> string list \<Rightarrow> unit vm" where
  "validate_components name [] = ret_vm ()"
| "validate_components name (type # types) =
     (case map_of known_components type of
        None \<Rightarrow> throw_vm (RuntimeError
          (''Invalid configuration for entity '' @ name @ '': unknown component type ''
           @ quoted type @ ''.''))
      | Some Network \<Rightarrow>
          bind_vm (validate_network name) (\<lambda>_. validate_components name types))"

definition validate_entity :: "string \<Rightarrow> unit vm" where
  "validate_entity name =
     bind_vm (read_vm (json_find name)) (\<lambda>ns.
       case ns of
         None \<Rightarrow> lift_vm Abort
       | Some j \<Rightarrow> validate_components name (items_keys j))"

lemma bind_vm_Ret [simp]:
  "bind_vm m f s = (Ret y, s') \<longleftrightarrow> (\<exists>x t. m s = (Ret x, t) \<and> f x t = (Ret y, s'))"
  by (auto simp: bind_vm_def split: prod.splits res.splits)

lemma pure_vm_Ret [simp]:
  "ret_vm x s = (Ret y, s') \<longleftrightarrow> y = x \<and> s' = s"
  "lift_vm r s = (Ret z, s') \<longleftrightarrow> r = Ret z \<and> s' = s"
  "throw_vm e s = (Ret z, s') \<longleftrightarrow> False"
  "read_vm g s = (Ret w, s') \<longleftrightarrow> w = g s \<and> s' = s"
  "ref_assign path v s = (Ret u, s') \<longleftrightarrow> s' = json_put path v s"
  by (auto simp: ret_vm_def lift_vm_def throw_vm_def read_vm_def ref_assign_def)

section \<open>What validation may write\<close>

text \<open>
  Every write of the validation functions is one of five kinds. A reflexive and transitive
  relation that holds across each kind therefore holds across the validation of an entity,
  whether it succeeds or throws.
\<close>

locale validation_relation =
  fixes name :: string and R :: "json \<Rightarrow> json \<Rightarrow> bool"
  assumes rel_refl: "R s s"
    and rel_trans: "R s s' \<Longrightarrow> R s' s'' \<Longrightarrow> R s s''"
    and default_slot: "R s (snd (ref_subscript [] '':default-netns'' s))"
    and default_set: "json_find '':default-netns'' s = Some JNull \<Longrightarrow>
          R s (json_put ['':default-netns''] (JString name) s)"
    and own_slot: "k \<in> {''role'', '':role'', ''uplink''} \<Longrightarrow> R s (snd (ref_subscript [name, ''network''] k s))"
    and own_role: "R s (json_put [name, ''network'', '':role''] (json_of_role r) s)"
    and uplink_slot: "json_at [u, ''network''] s = Some (JObject m) \<Longrightarrow>
          R s (snd (ref_subscript [u, ''network''] ''role'' s))"
begin

lemma bind_rel:
  assumes "R s (snd (m s))" and "\<And>x s'. m s = (Ret x, s') \<Longrightarrow> R s' (snd (f x s'))"
  shows "R s (snd (bind_vm m f s))"
proof (cases "m s")
  case (Pair r s')
  then have "R s s'" using assms(1) by simp
  then show ?thesis
    using Pair assms(2)[of _ s'] rel_trans by (cases r) (auto simp: bind_vm_def)
qed

lemma pure_rel [simp]:
  "R s (snd (ret_vm x s))" "R s (snd (throw_vm e s))" "R s (snd (lift_vm r s))"
  "R s (snd (read_vm g s))"
  by (simp_all add: ret_vm_def throw_vm_def lift_vm_def read_vm_def rel_refl)

lemma default_rel: "R s (snd (validate_default name s))"
  unfolding validate_default_def
proof (rule bind_rel[OF default_slot])
  fix d s'
  assume "ref_subscript [] '':default-netns'' s = (Ret d, s')"
  then have "json_find '':default-netns'' s' = Some d"
    by (auto simp: ref_subscript_def split: res.splits dest: json_subscript_find)
  then show "R s' (snd ((if d = JNull then ref_assign ['':default-netns''] (JString name)
       else if \<not> json_eq d (JString name) then
         bind_vm (lift_vm (to_string d)) (\<lambda>d. throw_vm (RuntimeError
           (''Invalid configuration: multiple entities specified as having their network ''
            @ ''components be the default netns: '' @ quoted name @ '' and '' @ quoted d @ ''.'')))
       else ret_vm ()) s'))"
    by (auto simp: ref_assign_def default_set intro: bind_rel)
qed

lemma own_slots:
  "R s (snd (ref_subscript [name, ''network''] ''role'' s))" "R s (snd (ref_subscript [name, ''network''] '':role'' s))"
  "R s (snd (ref_subscript [name, ''network''] ''uplink'' s))"
  by (simp_all add: own_slot)

lemma address_rel: "R s (snd (validate_address name s))"
  unfolding validate_address_def by (rule bind_rel[OF own_slots(2)]) simp

lemma uplink_rel: "R s (snd (validate_uplink name s))"
  unfolding validate_uplink_def
proof (rule bind_rel[OF own_slots(3)], rule bind_rel, goal_cases)
  case (2 uplink_name s' found s'')
  then have found: "found = json_find_json uplink_name s''" "s'' = s'"
    by (auto simp: read_vm_def)
  show ?case
  proof (cases found)
    case (Some ent)
    then obtain u where u: "uplink_name = JString u" "json_find u s'' = Some ent"
      using found by (cases uplink_name) auto
    have slot: "json_find ''network'' ent = Some net \<Longrightarrow> is_object net \<Longrightarrow>
        R s'' (snd (ref_subscript [u, ''network''] ''role'' s''))" for net
      using u(2) by (auto intro: uplink_slot)
    show ?thesis
      using slot by (auto simp: Some u(1) lift_vm_def intro!: bind_rel rel_refl split: option.splits)
  qed simp
qed simp

lemma parameter_rel: "R s (snd (validate_parameter name key s))"
  by (auto simp: validate_parameter_def default_rel address_rel uplink_rel
      split: option.splits network_parameter.splits)

lemma parameters_rel: "R s (snd (validate_parameters name keys s))"
  by (induction keys arbitrary: s) (auto intro!: bind_rel parameter_rel)

lemma network_rel: "R s (snd (validate_network name s))"
  unfolding validate_network_def
  by (auto intro!: bind_rel own_slots parameters_rel simp: ref_assign_def own_role
      split: option.splits)

lemma components_rel: "R s (snd (validate_components name types s))"
  by (induction types arbitrary: s)
    (auto intro!: bind_rel network_rel split: option.splits component_type.splits)

lemma entity_rel: "R s (snd (validate_entity name s))"
  unfolding validate_entity_def
  by (auto intro!: bind_rel components_rel split: option.splits)

end

text \<open>No key but the one of the default namespace is ever added at the top level.\<close>

lemma keys_put [simp]: "set (obj_keys (json_put (k # ks) v j)) = set (obj_keys j)"
  by (cases j) (force split: option.splits simp: fst_map_set dest: map_of_SomeD)+

lemma keys_subscript:
  "set (obj_keys (snd (ref_subscript path k s))) \<subseteq>
     (if path = [] then insert k (set (obj_keys s)) else set (obj_keys s))"
proof (cases path)
  case Nil
  have "json_subscript k s = Ret (j', v) \<Longrightarrow> set (obj_keys j') \<subseteq> insert k (set (obj_keys s))" for j' v
    by (induction k s rule: json_subscript.induct) (auto split: option.splits simp: fst_map_set)
  then show ?thesis
    by (auto simp: ref_subscript_def Nil split: res.splits)
qed (auto simp: ref_subscript_def split: res.splits option.splits)

interpretation keys_rel: validation_relation name
  "\<lambda>s s'. set (obj_keys s') \<subseteq> insert '':default-netns'' (set (obj_keys s))" for name
proof unfold_locales
  show "set (obj_keys (snd (ref_subscript [] '':default-netns'' s)))
          \<subseteq> insert '':default-netns'' (set (obj_keys s))" for s
    using keys_subscript[of "[]" "'':default-netns''" s] by simp
  show "set (obj_keys (snd (ref_subscript [name, ''network''] k s)))
          \<subseteq> insert '':default-netns'' (set (obj_keys s))" for s k
    using keys_subscript[of "[name, ''network'']" k s] by auto
  show "set (obj_keys (snd (ref_subscript [u, ''network''] ''role'' s)))
          \<subseteq> insert '':default-netns'' (set (obj_keys s))" for u s
    using keys_subscript[of "[u, ''network'']" "''role''" s] by auto
qed auto

section \<open>Loading the configuration file\<close>

text \<open>
  The loop of the constructor runs over the tree it changes: a \<open>std::map\<close> iterator moves to
  the least key above the current one in the map as it then is.
\<close>

definition next_key :: "string option \<Rightarrow> json \<Rightarrow> string option" where
  "next_key prev cfg =
     find (\<lambda>k. case prev of None \<Rightarrow> True | Some p \<Rightarrow> p < k) (obj_keys cfg)"

lemma next_key_Some:
  "next_key prev cfg = Some k \<Longrightarrow> k \<in> set (obj_keys cfg) \<and> (\<forall>p. prev = Some p \<longrightarrow> p < k)"
  by (auto simp: next_key_def find_Some_iff)

text \<open>The loop stops: the keys above the current one, counting the one that may still be
  inserted, become fewer.\<close>

definition keys_above :: "string option \<Rightarrow> json \<Rightarrow> string set" where
  "keys_above prev cfg =
     {k \<in> insert '':default-netns'' (set (obj_keys cfg)). \<forall>p. prev = Some p \<longrightarrow> p < k}"

lemma keys_above_decrease:
  assumes "next_key prev cfg = Some k"
    and "set (obj_keys cfg') \<subseteq> insert '':default-netns'' (set (obj_keys cfg))"
  shows "card (keys_above (Some k) cfg') < card (keys_above prev cfg)"
proof (rule psubset_card_mono)
  show "finite (keys_above prev cfg)" by (simp add: keys_above_def)
  have k: "k \<in> set (obj_keys cfg)" "\<And>p. prev = Some p \<Longrightarrow> p < k"
    using next_key_Some[OF assms(1)] by auto
  have "keys_above (Some k) cfg' \<subseteq> keys_above prev cfg"
    using assms(2) k(2) by (auto simp: keys_above_def dest: order.strict_trans)
  moreover have "k \<in> keys_above prev cfg" "k \<notin> keys_above (Some k) cfg'"
    using k by (auto simp: keys_above_def)
  ultimately show "keys_above (Some k) cfg' \<subset> keys_above prev cfg"
    by blast
qed

function validate_all :: "string option \<Rightarrow> unit vm" where
  "validate_all prev cfg =
     (case next_key prev cfg of
        None \<Rightarrow> (Ret (), cfg)
      | Some k \<Rightarrow>
          if k = ''!metadata'' then validate_all (Some k) cfg
          else
            (case validate_entity k cfg of
               (Ret _, cfg') \<Rightarrow> validate_all (Some k) cfg'
             | (Throw e, cfg') \<Rightarrow> (Throw e, cfg')
             | (Abort, cfg') \<Rightarrow> (Abort, cfg')))"
  by pat_completeness auto

termination
proof (relation "measure (\<lambda>(prev, cfg). card (keys_above prev cfg))", goal_cases)
  case (3 prev cfg k r cfg' u)
  then have "snd (validate_entity k cfg) = cfg'" by (metis snd_conv)
  then show ?case
    using 3 keys_above_decrease[of prev cfg k cfg'] keys_rel.entity_rel[of k cfg] by simp
qed (simp_all add: keys_above_decrease subset_insertI)

declare validate_all.simps [simp del]

text \<open>\<open>config(const options &)\<close>: the file's contents (\<open>None\<close> when it cannot be opened) and the
  parser, which fails with an exception.\<close>

definition config_load :: "(string \<Rightarrow> json res) \<Rightarrow> string \<Rightarrow> string option \<Rightarrow> config res" where
  "config_load parse path contents =
     (case contents of
        None \<Rightarrow> Throw (RuntimeError (''Failed to open the configuration file '' @ path))
      | Some text \<Rightarrow>
          bind_res (parse text) (\<lambda>cfg.
          bind_res (validate_metadata cfg) (\<lambda>_.
            case validate_all None cfg of
              (Ret _, cfg') \<Rightarrow> Ret \<lparr>mutable = False, configuration = cfg', installed = False\<rparr>
            | (Throw e, _) \<Rightarrow> Throw e
            | (Abort, _) \<Rightarrow> Abort)))"

end
