(* ===== verification/Config_Add.thy ===== *)
theory Config_Add
  imports Config
begin

text \<open>
  \<open>config::add\<close>: builds an entity from dotted parameter names and validates it. The function is
  \<open>noexcept\<close>: an exception of the JSON library that leaves it ends the process (\<open>Abort\<close>).
\<close>

record config_result =
  error_code :: int
  error_message :: string

definition success :: config_result where
  "success = \<lparr>error_code = 0, error_message = ''''\<rparr>"

text \<open>
  The walk along the dots of a parameter name. \<open>start\<close> is the position in the key; the value is
  the subtree that the code's \<open>tree\<close> pointer is at, and the result is that subtree afterwards.
  The loop condition \<open>while (auto dot_pos = key.find('.', start_pos))\<close> is false for a dot at
  position 0, so such a key is not split there.
\<close>

datatype param_result =
    ParamSet json
  | ParamNotObject nat json
  | ParamDuplicate
  | ParamTerminate

fun map_param :: "(json \<Rightarrow> json) \<Rightarrow> param_result \<Rightarrow> param_result" where
  "map_param f (ParamSet j) = ParamSet (f j)"
| "map_param f (ParamNotObject pos j) = ParamNotObject pos (f j)"
| "map_param f ParamDuplicate = ParamDuplicate"
| "map_param f ParamTerminate = ParamTerminate"

text \<open>The last step: \<open>(*tree)[key.substr(start_pos)]\<close> must be \<open>null\<close>, and receives the value.\<close>

definition set_leaf :: "string \<Rightarrow> json \<Rightarrow> json \<Rightarrow> param_result" where
  "set_leaf k v tree =
     (case json_subscript k tree of
        Ret (tree', leaf) \<Rightarrow> if leaf \<noteq> JNull then ParamDuplicate else ParamSet (json_put [k] v tree')
      | Throw _ \<Rightarrow> ParamTerminate
      | Abort \<Rightarrow> ParamTerminate)"

function set_parameter :: "string \<Rightarrow> json \<Rightarrow> nat \<Rightarrow> json \<Rightarrow> param_result" where
  "set_parameter key v start tree =
     (case find_char_from (CHR ''.'') key start of
        None \<Rightarrow> set_leaf (drop start key) v tree
      | Some dot \<Rightarrow>
          if dot = 0 then set_leaf (drop start key) v tree
          else
            let tree1 = (if tree = JNull then JObject [] else tree) in
            if \<not> is_object tree1 then ParamNotObject dot tree1
            else
              (case json_subscript (substr key start (dot - start)) tree1 of
                 Ret (tree2, child) \<Rightarrow>
                   map_param (\<lambda>c. json_put [substr key start (dot - start)] c tree2)
                     (set_parameter key v (dot + 1) child)
               | Throw _ \<Rightarrow> ParamTerminate
               | Abort \<Rightarrow> ParamTerminate))"
  by pat_completeness auto
termination
  by (relation "measure (\<lambda>(key, v, start, tree). Suc (length key) - start)")
    (auto dest!: find_char_from_Some)

declare set_parameter.simps [simp del]

text \<open>A parameter's value is parsed as JSON; text that does not parse is taken as a string.\<close>

definition param_json :: "(string \<Rightarrow> json option) \<Rightarrow> string \<Rightarrow> json" where
  "param_json parse value = (case parse value of None \<Rightarrow> JString value | Some j \<Rightarrow> j)"

fun set_parameters :: "(string \<Rightarrow> json option) \<Rightarrow> string \<Rightarrow> parameter_value list \<Rightarrow> config \<Rightarrow>
    (config_result option \<times> config) res" where
  "set_parameters parse name [] self = Ret (None, self)"
| "set_parameters parse name (p # ps) self =
     (case json_find name (configuration self) of
        None \<Rightarrow> Abort
      | Some tree \<Rightarrow>
          (case set_parameter (parameter p) (param_json parse (param_value p)) 0 tree of
             ParamSet tree' \<Rightarrow>
               set_parameters parse name ps
                 (self\<lparr>configuration := json_put [name] tree' (configuration self)\<rparr>)
           | ParamNotObject dot tree' \<Rightarrow>
               Ret (Some \<lparr>error_code = - EINVAL, error_message =
                      ''Invalid entity configuration of '' @ quoted name
                      @ '': value specified for parameter '' @ parameter p @ '', but ''
                      @ take dot (parameter p) @ '' is a value, not an object.''\<rparr>,
                    self\<lparr>configuration := json_put [name] tree' (configuration self)\<rparr>)
           | ParamDuplicate \<Rightarrow>
               (case json_erase name (configuration self) of
                  Ret cfg \<Rightarrow>
                    Ret (Some \<lparr>error_code = - EINVAL, error_message =
                           ''Invalid entity configuration of '' @ quoted name
                           @ '': value for parameter '' @ parameter p
                           @ '' specified more than once.''\<rparr>,
                         self\<lparr>configuration := cfg\<rparr>)
                | _ \<Rightarrow> Abort)
           | ParamTerminate \<Rightarrow> Abort))"

definition config_add :: "(string \<Rightarrow> json option) \<Rightarrow> string \<Rightarrow> parameter_value list \<Rightarrow> config \<Rightarrow>
    (config_result \<times> config) res" where
  "config_add parse name params self =
     (if \<not> mutable self then
        Ret (\<lparr>error_code = - EROFS,
               error_message = ''Cannot modify an immutable configuration.''\<rparr>, self)
      else if json_count name (configuration self) \<noteq> 0 then
        Ret (\<lparr>error_code = - EEXIST,
               error_message = ''Cannot add entity '' @ name @ '': entity already exists.''\<rparr>, self)
      else
        (case json_subscript name (configuration self) of
           Throw _ \<Rightarrow> Abort
         | Abort \<Rightarrow> Abort
         | Ret (cfg, _) \<Rightarrow>
             (case set_parameters parse name params
                     (self\<lparr>configuration := json_put [name] (JObject []) cfg\<rparr>) of
                Throw _ \<Rightarrow> Abort
              | Abort \<Rightarrow> Abort
              | Ret (Some err, self') \<Rightarrow> Ret (err, self')
              | Ret (None, self') \<Rightarrow>
                  (case validate_entity name (configuration self') of
                     (Ret _, cfg') \<Rightarrow> Ret (success, self'\<lparr>configuration := cfg'\<rparr>)
                   | (Abort, cfg') \<Rightarrow> Abort
                   | (Throw e, cfg') \<Rightarrow>
                       (case json_erase name cfg' of
                          Ret cfg'' \<Rightarrow>
                            Ret (\<lparr>error_code = - EINVAL, error_message = what e\<rparr>,
                                 self'\<lparr>configuration := cfg''\<rparr>)
                        | _ \<Rightarrow> Abort)))))"

end
