(* ===== verification/Config_Valid.thy ===== *)
theory Config_Valid
  imports Config_Add
begin

text \<open>
  What a validated configuration guarantees, as a predicate on the tree (\<open>valid_config\<close>), that
  loading establishes it, and that a successful \<open>add\<close> keeps it. The frame relation
  \<open>cfg_frame\<close> says what the validation of one entity leaves alone.
\<close>

section \<open>Validity\<close>

definition uplink_ok :: "json \<Rightarrow> json \<Rightarrow> bool" where
  "uplink_ok cfg u =
     (case u of
        JString n \<Rightarrow>
          (case json_at [n, ''network''] cfg of
             Some (JObject net) \<Rightarrow> map_of net ''role'' \<noteq> Some (JString ''client'')
           | _ \<Rightarrow> False)
      | _ \<Rightarrow> False)"

text \<open>A network component: a known role, mirrored in \<open>:role\<close>; only known parameters; an address
  only on a switch; a usable uplink; and the default namespace only if it is recorded as such.\<close>

definition valid_network :: "json \<Rightarrow> string \<Rightarrow> object \<Rightarrow> bool" where
  "valid_network cfg name m =
     (case map_of m ''role'' of
        Some (JString role) \<Rightarrow>
          (case map_of known_network_roles role of
             None \<Rightarrow> False
           | Some r \<Rightarrow>
               map_of m '':role'' = Some (json_of_role r) \<and>
               (\<forall>k \<in> set (map fst m). starts_with k (CHR '':'') \<or> k \<in> set (map fst known_parameters)) \<and>
               (map_of m ''address'' \<noteq> None \<longrightarrow> r = Switch) \<and>
               (case map_of m ''uplink'' of None \<Rightarrow> True | Some u \<Rightarrow> uplink_ok cfg u) \<and>
               (map_of m ''default'' \<noteq> None \<longrightarrow>
                  json_find '':default-netns'' cfg = Some (JString name)))
      | _ \<Rightarrow> False)"

definition valid_entity :: "json \<Rightarrow> string \<Rightarrow> bool" where
  "valid_entity cfg name =
     (case json_find name cfg of
        Some JNull \<Rightarrow> True
      | Some (JArray xs) \<Rightarrow> xs = []
      | Some (JObject e) \<Rightarrow>
          (\<forall>k \<in> set (map fst e). k = ''network'') \<and>
          (case map_of e ''network'' of
             None \<Rightarrow> True
           | Some (JObject m) \<Rightarrow> valid_network cfg name m
           | Some _ \<Rightarrow> False)
      | _ \<Rightarrow> False)"

definition reserved_keys :: "string set" where
  "reserved_keys = {''!metadata'', '':default-netns''}"

definition valid_config :: "json \<Rightarrow> bool" where
  "valid_config cfg \<longleftrightarrow>
     wf_json cfg \<and> is_object cfg \<and> validate_metadata cfg = Ret () \<and>
     (\<forall>name \<in> set (obj_keys cfg) - reserved_keys. valid_entity cfg name)"

section \<open>The frame of validation\<close>

definition role_kept :: "object \<Rightarrow> object \<Rightarrow> bool" where
  "role_kept m m' \<longleftrightarrow>
     map_of m' ''role'' = map_of m ''role'' \<or>
     (map_of m ''role'' = None \<and> map_of m' ''role'' = Some JNull)"

definition roles_frame :: "json \<Rightarrow> json \<Rightarrow> bool" where
  "roles_frame s s' \<longleftrightarrow>
     (\<forall>n m. json_at [n, ''network''] s = Some (JObject m) \<longrightarrow>
        (\<exists>m'. json_at [n, ''network''] s' = Some (JObject m') \<and> role_kept m m'))"

definition settled :: "json \<Rightarrow> bool" where
  "settled j \<longleftrightarrow>
     (case json_find ''network'' j of Some (JObject m) \<Rightarrow> map_of m ''role'' \<noteq> None | _ \<Rightarrow> True)"

definition others_frame :: "string \<Rightarrow> json \<Rightarrow> json \<Rightarrow> bool" where
  "others_frame name s s' \<longleftrightarrow>
     (\<forall>n j. n \<noteq> name \<and> n \<noteq> '':default-netns'' \<and> json_find n s = Some j \<and> settled j \<longrightarrow>
        json_find n s' = Some j)"

definition default_frame :: "json \<Rightarrow> json \<Rightarrow> bool" where
  "default_frame s s' \<longleftrightarrow>
     (\<forall>v. json_find '':default-netns'' s = Some (JString v) \<longrightarrow>
        json_find '':default-netns'' s' = Some (JString v))"

definition cfg_frame :: "string \<Rightarrow> json \<Rightarrow> json \<Rightarrow> bool" where
  "cfg_frame name s s' \<longleftrightarrow>
     (wf_json s \<and> is_object s \<longrightarrow>
        wf_json s' \<and> is_object s' \<and>
        roles_frame s s' \<and> others_frame name s s' \<and> default_frame s s')"

lemmas frame_defs = roles_frame_def others_frame_def default_frame_def

lemma role_kept_refl [simp]: "role_kept m m"
  by (simp add: role_kept_def)

lemma role_kept_trans: "role_kept m m' \<Longrightarrow> role_kept m' m'' \<Longrightarrow> role_kept m m''"
  by (auto simp: role_kept_def)

lemma cfg_frame_refl [simp]: "cfg_frame name s s"
  by (auto simp: cfg_frame_def frame_defs)

lemma roles_frame_trans: "roles_frame s t \<Longrightarrow> roles_frame t u \<Longrightarrow> roles_frame s u"
  unfolding roles_frame_def by (blast intro: role_kept_trans)

lemma cfg_frame_trans:
  assumes "cfg_frame name s t" "cfg_frame name t u"
  shows "cfg_frame name s u"
  unfolding cfg_frame_def
proof (intro impI)
  assume "wf_json s \<and> is_object s"
  with assms have st: "wf_json t" "is_object t" "roles_frame s t" "others_frame name s t"
      "default_frame s t"
    and tu: "wf_json u" "is_object u" "roles_frame t u" "others_frame name t u" "default_frame t u"
    by (auto simp: cfg_frame_def)
  show "wf_json u \<and> is_object u \<and> roles_frame s u \<and> others_frame name s u \<and> default_frame s u"
    using st tu roles_frame_trans by (auto simp: others_frame_def default_frame_def)
qed

text \<open>Writing back the value that is already there changes nothing.\<close>

lemma json_put_same: "wf_json s \<Longrightarrow> json_at path s = Some j \<Longrightarrow> json_put path j s = s"
proof (induction path j s rule: json_put.induct)
  case (2 k ks v m)
  then obtain c where c: "map_of m k = Some c" "json_at ks c = Some v"
    by (auto split: option.splits)
  then have "json_put ks v c = c"
    using 2 wf_json_find[of "JObject m" k c] by simp
  then show ?case
    using 2(2) c by simp
qed auto

lemma json_put_append:
  "json_at p s = Some c \<Longrightarrow> json_put (p @ q) v s = json_put p (json_put q v c) s"
  by (induction p arbitrary: s) (auto elim!: json_find.elims split: option.splits)

lemma json_put_missing:
  "wf_json s \<Longrightarrow> json_at p s = None \<Longrightarrow> json_put (p @ q) v s = s"
proof (induction p arbitrary: s)
  case (Cons k p)
  show ?case
  proof (cases s)
    case (JObject m)
    then show ?thesis
      using Cons wf_json_find[OF Cons.prems(1), of k] by (auto split: option.splits)
  qed auto
qed simp

lemma ref_subscript_present:
  assumes "wf_json s" "json_at (path @ [k]) s = Some v"
  shows "ref_subscript path k s = (Ret v, s)"
proof -
  have "\<exists>j. json_at path s = Some j \<and> json_find k j = Some v"
    using assms(2) by (induction path arbitrary: s) (auto split: option.splits)
  then show ?thesis
    using assms(1) by (auto simp: ref_subscript_def json_put_same)
qed

text \<open>After \<open>ref[key]\<close> the member is there, and the other members are as before.\<close>

lemma json_at_append:
  "json_at (p @ q) s = (case json_at p s of None \<Rightarrow> None | Some j \<Rightarrow> json_at q j)"
  by (induction p arbitrary: s) (auto split: option.splits)

lemma ref_subscript_at:
  assumes "ref_subscript path k s = (Ret v, s')"
  shows "json_at (path @ [k]) s' = Some v"
  using assms
  by (auto simp: ref_subscript_def json_at_append split: option.splits res.splits
      dest: json_subscript_find)

lemma ref_subscript_at_other:
  assumes "ref_subscript path k s = (Ret v, s')" "k' \<noteq> k"
  shows "json_at (path @ [k']) s' = json_at (path @ [k']) s"
proof -
  have "json_subscript k j = Ret (j', v') \<Longrightarrow> json_find k' j' = json_find k' j" for j j' v'
    using assms(2) by (induction k j rule: json_subscript.induct) (auto split: option.splits)
  then show ?thesis
    using assms(1) by (auto simp: ref_subscript_def json_at_append split: option.splits res.splits)
qed

text \<open>The result of \<open>ref[key]\<close> when it succeeds on an object.\<close>

lemma ref_subscript_object:
  assumes "json_at path s = Some (JObject m)" "wf_json s"
  shows "ref_subscript path k s =
     (case map_of m k of
        Some v \<Rightarrow> (Ret v, s)
      | None \<Rightarrow> (Ret JNull, json_put path (JObject (map_set k JNull m)) s))"
  using assms by (auto simp: ref_subscript_def json_put_same split: option.splits)


lemma frame_default_slot: "cfg_frame name s (snd (ref_subscript [] '':default-netns'' s))"
proof (cases s)
  case (JObject m)
  have "wf_json s \<Longrightarrow> wf_json (JObject (map_set '':default-netns'' JNull m))"
    using JObject by (intro wf_json_map_set) auto
  then show ?thesis
    by (auto simp: ref_subscript_def cfg_frame_def frame_defs JObject split: option.splits)
qed (auto simp: cfg_frame_def)

lemma frame_default_set:
  assumes "json_find '':default-netns'' s = Some JNull"
  shows "cfg_frame name s (json_put ['':default-netns''] (JString name) s)"
proof -
  have "json_at [n, ''network''] s = Some j \<Longrightarrow>
      json_at [n, ''network''] (json_put ['':default-netns''] (JString name) s) = Some j" for n j
    using assms by (cases "n = '':default-netns''") auto
  then show ?thesis
    using assms by (auto simp: cfg_frame_def frame_defs wf_json_put intro!: exI[of _ _]) 
qed

text \<open>A write to the network component of one entity that keeps its role.\<close>

lemma frame_put_network:
  assumes "json_at [n, ''network''] s = Some c" "wf_json v"
    and role: "\<And>m. c = JObject m \<Longrightarrow> \<exists>m'. v = JObject m' \<and> role_kept m m'"
    and other: "n = name \<or> v = c \<or> (\<exists>m. c = JObject m \<and> map_of m ''role'' = None)"
  shows "cfg_frame name s (json_put [n, ''network''] v s)"
  unfolding cfg_frame_def
proof (intro impI conjI)
  assume s: "wf_json s \<and> is_object s"
  show "wf_json (json_put [n, ''network''] v s)" "is_object (json_put [n, ''network''] v s)"
    using s assms(2) by (auto simp: wf_json_put)
  show "roles_frame s (json_put [n, ''network''] v s)"
    unfolding roles_frame_def
  proof (intro allI impI)
    fix n' m
    assume m: "json_at [n', ''network''] s = Some (JObject m)"
    show "\<exists>m'. json_at [n', ''network''] (json_put [n, ''network''] v s) = Some (JObject m')
        \<and> role_kept m m'"
      using m assms(1) role by (cases "n' = n") (auto split: option.splits)
  qed
  show "others_frame name s (json_put [n, ''network''] v s)"
    unfolding others_frame_def
  proof (intro allI impI, elim conjE)
    fix n' j
    assume n': "n' \<noteq> name" "json_find n' s = Some j" "settled j"
    show "json_find n' (json_put [n, ''network''] v s) = Some j"
    proof (cases "n' = n")
      case True
      then have "json_find ''network'' j = Some c"
        using assms(1) n'(2) by (auto split: option.splits)
      then have "v = c"
        using other n' True by (auto simp: settled_def)
      then show ?thesis
        using s assms(1) n'(2) by (simp only: json_put_same)
    qed (use n' in simp)
  qed
  show "default_frame s (json_put [n, ''network''] v s)"
    using assms(1) by (cases "n = '':default-netns''")
      (auto simp: default_frame_def split: option.splits)
qed


lemma frame_slot:
  assumes "n = name \<or> (k = ''role'' \<and> (\<exists>m. json_at [n, ''network''] s = Some (JObject m)))"
  shows "cfg_frame name s (snd (ref_subscript [n, ''network''] k s))"
proof (cases "json_at [n, ''network''] s")
  case (Some c)
  show ?thesis
  proof (cases "json_subscript k c")
    case (Ret x)
    obtain c' v where x: "x = (c', v)" by (cases x)
    have frame: "cfg_frame name s (json_put [n, ''network''] c' s)" if "wf_json s"
    proof (rule frame_put_network[OF Some])
      show "wf_json c'"
        using wf_json_subscript[of c k] wf_json_at[OF that Some] Ret x by blast
      show "\<exists>m'. c' = JObject m' \<and> role_kept m m'" if "c = JObject m" for m
        using Ret x that by (auto simp: role_kept_def split: option.splits)
      show "n = name \<or> c' = c \<or> (\<exists>m. c = JObject m \<and> map_of m ''role'' = None)"
        using assms Ret x Some by (auto split: option.splits)
    qed
    then show ?thesis
      using Ret x Some by (auto simp: ref_subscript_def cfg_frame_def)
  qed (use Some in \<open>auto simp: ref_subscript_def\<close>)
qed (simp add: ref_subscript_def)

lemma frame_own_role:
  "cfg_frame name s (json_put [name, ''network'', '':role''] (json_of_role r) s)"
proof (cases "json_at [name, ''network''] s")
  case None
  then have "json_put [name, ''network'', '':role''] (json_of_role r) s = s" if "wf_json s"
    using json_put_missing[OF that None, of "['':role'']"] by simp
  then show ?thesis
    by (metis cfg_frame_def cfg_frame_refl)
next
  case (Some c)
  have eq: "json_put [name, ''network'', '':role''] (json_of_role r) s
      = json_put [name, ''network''] (json_put ['':role''] (json_of_role r) c) s"
    using json_put_append[OF Some, of "['':role'']"] by simp
  have "cfg_frame name s (json_put [name, ''network''] (json_put ['':role''] (json_of_role r) c) s)"
    if "wf_json s"
  proof (rule frame_put_network[OF Some])
    show "wf_json (json_put ['':role''] (json_of_role r) c)"
      using wf_json_at[OF that Some] by (simp add: wf_json_put json_of_role_def)
    show "\<exists>m'. json_put ['':role''] (json_of_role r) c = JObject m' \<and> role_kept m m'"
      if "c = JObject m" for m
      using that by (auto simp: role_kept_def split: option.splits)
  qed simp
  then show ?thesis
    unfolding eq by (auto simp: cfg_frame_def)
qed

interpretation frame_rel: validation_relation name "cfg_frame name" for name
  by unfold_locales
    (auto intro: frame_default_slot frame_default_set frame_slot frame_own_role
      elim: cfg_frame_trans)

section \<open>What a successful validation has checked\<close>

lemma validate_default_success:
  assumes "validate_default name s = (Ret (), s')" "s = JObject m" "wf_json s"
  shows "json_find '':default-netns'' s' = Some (JString name) \<and>
    (s' = s \<or> (map_of m '':default-netns'' \<in> {None, Some JNull} \<and>
               s' = JObject (map_set '':default-netns'' (JString name) m)))"
  using assms
  by (auto simp: validate_default_def ref_subscript_def json_put_same
      split: option.splits if_splits)

lemma validate_address_success:
  assumes "validate_address name s = (Ret (), s')" "wf_json s"
    and "json_at [name, ''network''] s = Some (JObject m)" "map_of m '':role'' = Some (json_of_role r)"
  shows "r = Switch \<and> s' = s"
  using assms(1,4) ref_subscript_object[OF assms(3,2)]
  by (auto simp: validate_address_def split: if_splits)

lemma validate_uplink_success:
  assumes "validate_uplink name s = (Ret (), s')" "wf_json s"
    and "json_at [name, ''network''] s = Some (JObject m)" "map_of m ''uplink'' = Some u"
  shows "\<exists>n net. u = JString n \<and> json_at [n, ''network''] s = Some (JObject net) \<and>
     map_of net ''role'' \<noteq> Some (JString ''client'') \<and>
     s' = (if map_of net ''role'' = None
           then json_put [n, ''network''] (JObject (map_set ''role'' JNull net)) s else s)"
proof -
  have "ref_subscript [name, ''network''] ''uplink'' s = (Ret u, s)"
    using ref_subscript_object[OF assms(3,2)] assms(4) by simp
  then obtain n ent net where n: "u = JString n" "json_find n s = Some ent"
      "json_find ''network'' ent = Some (JObject net)"
    and role: "bind_vm (ref_subscript [n, ''network''] ''role'') (\<lambda>role.
        if json_eq role (JString ''client'') then throw_vm undefined else ret_vm ()) s = (Ret (), s')"
    using assms(1) by (cases u) (auto simp: validate_uplink_def split: option.splits if_splits)
  then have "json_at [n, ''network''] s = Some (JObject net)"
    by simp
  from ref_subscript_object[OF this assms(2), of "''role''"] show ?thesis
    using n role by (auto split: option.splits if_splits)
qed

lemma uplink_ok_iff:
  "uplink_ok cfg u \<longleftrightarrow>
     (\<exists>n net. u = JString n \<and> json_at [n, ''network''] cfg = Some (JObject net) \<and>
        map_of net ''role'' \<noteq> Some (JString ''client''))"
  by (auto simp: uplink_ok_def simp del: json_at.simps split: json.splits option.splits)

lemma uplink_ok_mono:
  assumes "roles_frame s s'" "uplink_ok s u"
  shows "uplink_ok s' u"
proof -
  obtain n net where n: "u = JString n" "json_at [n, ''network''] s = Some (JObject net)"
      "map_of net ''role'' \<noteq> Some (JString ''client'')"
    using assms(2) unfolding uplink_ok_iff by blast
  then obtain net' where "json_at [n, ''network''] s' = Some (JObject net')" "role_kept net net'"
    using assms(1) unfolding roles_frame_def by blast
  then show ?thesis
    using n unfolding uplink_ok_iff role_kept_def by (metis json.distinct(9) option.inject)
qed

text \<open>What has been checked about one parameter of the component \<open>m\<close> of entity \<open>name\<close>.\<close>

definition parameter_ok :: "json \<Rightarrow> string \<Rightarrow> object \<Rightarrow> network_role \<Rightarrow> string \<Rightarrow> bool" where
  "parameter_ok cfg name m r k \<longleftrightarrow>
     (starts_with k (CHR '':'') \<or> k \<in> set (map fst known_parameters)) \<and>
     (k = ''address'' \<longrightarrow> r = Switch) \<and>
     (k = ''uplink'' \<longrightarrow> (\<forall>u. map_of m ''uplink'' = Some u \<longrightarrow> uplink_ok cfg u)) \<and>
     (k = ''default'' \<longrightarrow> json_find '':default-netns'' cfg = Some (JString name))"

lemma parameter_ok_mono:
  "cfg_frame n s s' \<Longrightarrow> wf_json s \<Longrightarrow> is_object s \<Longrightarrow> parameter_ok s name m r k \<Longrightarrow>
     parameter_ok s' name m r k"
  using uplink_ok_mono[of s s'] unfolding parameter_ok_def cfg_frame_def default_frame_def by blast

text \<open>The component under validation, once its role is recorded.\<close>

definition component_ready :: "json \<Rightarrow> string \<Rightarrow> object \<Rightarrow> network_role \<Rightarrow> bool" where
  "component_ready s name m r \<longleftrightarrow>
     wf_json s \<and> is_object s \<and> json_at [name, ''network''] s = Some (JObject m) \<and>
     map_of m ''role'' \<noteq> None \<and> map_of m '':role'' = Some (json_of_role r)"

lemma validate_default_ready:
  assumes "validate_default name s = (Ret (), s')" "component_ready s name m r"
  shows "component_ready s' name m r \<and> json_find '':default-netns'' s' = Some (JString name)"
proof -
  obtain c where c: "s = JObject c" "wf_json s"
    using assms(2) by (auto simp: component_ready_def)
  from validate_default_success[OF assms(1) c] show ?thesis
    using assms(2) c wf_json_map_set[of c "JString name" "'':default-netns''"]
    by (auto simp: component_ready_def split: option.splits if_splits)
qed

lemma validate_uplink_ready:
  assumes "validate_uplink name s = (Ret (), s')" "component_ready s name m r"
    and "map_of m ''uplink'' = Some u"
  shows "component_ready s' name m r \<and> uplink_ok s' u"
proof -
  have ready: "wf_json s" "is_object s" "json_at [name, ''network''] s = Some (JObject m)"
      "map_of m ''role'' \<noteq> None"
    using assms(2) by (auto simp: component_ready_def)
  obtain n net where n: "u = JString n" "json_at [n, ''network''] s = Some (JObject net)"
      "map_of net ''role'' \<noteq> Some (JString ''client'')"
    and s': "s' = (if map_of net ''role'' = None
        then json_put [n, ''network''] (JObject (map_set ''role'' JNull net)) s else s)"
    using validate_uplink_success[OF assms(1) ready(1,3) assms(3)] by blast
  have "wf_json s'" "is_object s'" "roles_frame s s'"
    using frame_rel.uplink_rel[of name s] assms(1) ready by (simp_all add: cfg_frame_def)
  moreover have "json_at [name, ''network''] s' = Some (JObject m)"
    using n(2) ready(3,4) s' by (cases "n = name") (auto split: if_splits option.splits)
  moreover have "uplink_ok s u"
    using n unfolding uplink_ok_iff by blast
  ultimately show ?thesis
    using assms(2) uplink_ok_mono by (auto simp: component_ready_def)
qed

lemma validate_parameter_ready:
  assumes "validate_parameter name k s = (Ret (), s')" "component_ready s name m r"
    and "map_of m k \<noteq> None"
  shows "component_ready s' name m r \<and> parameter_ok s' name m r k"
proof (cases "starts_with k (CHR '':'')")
  case True
  then have "s' = s" "k \<noteq> ''address''" "k \<noteq> ''uplink''" "k \<noteq> ''default''"
    using assms(1) by (auto simp: validate_parameter_def starts_with_def)
  then show ?thesis
    using assms(2) True by (simp add: parameter_ok_def)
next
  case False
  then obtain p where p: "map_of known_parameters k = Some p"
    using assms(1) by (auto simp: validate_parameter_def split: option.splits)
  show ?thesis
  proof (cases p)
    case PAddress
    then show ?thesis
      using p False assms validate_address_success[of name s s' m r]
      by (auto simp: validate_parameter_def parameter_ok_def known_parameters_def component_ready_def
          split: if_splits)
  next
    case PUplink
    then show ?thesis
      using p False assms validate_uplink_ready[of name s s' m r]
      by (auto simp: validate_parameter_def parameter_ok_def known_parameters_def split: if_splits)
  next
    case PDefault
    then show ?thesis
      using p False assms validate_default_ready[of name s s' m r]
      by (auto simp: validate_parameter_def parameter_ok_def known_parameters_def split: if_splits)
  qed (use p False assms in \<open>auto simp: validate_parameter_def parameter_ok_def known_parameters_def
      split: if_splits\<close>)
qed

lemma validate_parameters_ready:
  assumes "validate_parameters name ks s = (Ret (), s')" "component_ready s name m r"
    and "\<forall>k \<in> set ks. map_of m k \<noteq> None"
  shows "component_ready s' name m r \<and> (\<forall>k \<in> set ks. parameter_ok s' name m r k)"
  using assms
proof (induction ks arbitrary: s)
  case (Cons k ks)
  then obtain t where t: "validate_parameter name k s = (Ret (), t)"
      "validate_parameters name ks t = (Ret (), s')"
    by auto
  have ready: "component_ready t name m r" "parameter_ok t name m r k"
    using validate_parameter_ready[OF t(1) Cons.prems(2)] Cons.prems(3) by auto
  have "cfg_frame name t s'"
    using frame_rel.parameters_rel[of name t ks] t(2) by simp
  then have "parameter_ok s' name m r k"
    using ready by (auto simp: component_ready_def intro: parameter_ok_mono)
  then show ?case
    using Cons.IH[OF t(2) ready(1)] Cons.prems(3) by simp
qed simp

lemma validate_network_success:
  assumes "validate_network name s = (Ret (), s')" "wf_json s" "is_object s"
  shows "\<exists>m. json_at [name, ''network''] s' = Some (JObject m) \<and> valid_network s' name m"
proof -
  obtain v t role r t1 x c where v: "ref_subscript [name, ''network''] ''role'' s = (Ret v, t)"
    and role: "get_ref_string v = Ret role" "map_of known_network_roles role = Some r"
    and t1: "ref_subscript [name, ''network''] '':role'' t = (Ret x, t1)"
    and c: "json_at [name, ''network''] (json_put [name, ''network'', '':role''] (json_of_role r) t1) = Some c"
    and ps: "validate_parameters name (items_keys c)
        (json_put [name, ''network'', '':role''] (json_of_role r) t1) = (Ret (), s')"
    using assms(1) by (auto simp: validate_network_def simp del: json_at.simps json_put.simps
        split: option.splits)
  let ?t2 = "json_put [name, ''network'', '':role''] (json_of_role r) t1"
  have vr: "v = JString role"
    using role(1) by (cases v) auto
  have "wf_json t \<and> is_object t"
    using frame_slot[of name name "''role''" s] v assms(2,3) by (simp add: cfg_frame_def)
  then have t1_wf: "wf_json t1 \<and> is_object t1"
    using frame_slot[of name name "'':role''" t] t1 by (simp add: cfg_frame_def)
  then have t2_wf: "wf_json ?t2 \<and> is_object ?t2"
    using frame_own_role[of name t1 r] by (simp add: cfg_frame_def)
  have at_t: "json_at [name, ''network'', ''role''] t = Some (JString role)"
    using ref_subscript_at[OF v] vr by simp
  then have at_t1: "json_at [name, ''network'', ''role''] t1 = Some (JString role)"
    using ref_subscript_at_other[OF t1, of "''role''"] by simp
  have role1: "json_at [name, ''network'', '':role''] t1 = Some x"
    using ref_subscript_at[OF t1] by simp
  have c_find: "json_find ''role'' c = Some (JString role)" "json_find '':role'' c = Some (json_of_role r)"
    using c at_t1 role1 by (auto split: option.splits)
  obtain m where m: "c = JObject m" "map_of m ''role'' = Some (JString role)"
      "map_of m '':role'' = Some (json_of_role r)"
    using c_find by (cases c) auto
  have ready: "component_ready ?t2 name m r"
    using t2_wf c m by (simp add: component_ready_def)
  have "component_ready s' name m r \<and> (\<forall>k \<in> set (map fst m). parameter_ok s' name m r k)"
    using validate_parameters_ready[OF ps ready] m(1) om.keys_find[of _ m] by auto
  then have fin: "component_ready s' name m r" "\<And>k. map_of m k \<noteq> None \<Longrightarrow> parameter_ok s' name m r k"
    using om.keys_find[of _ m] by blast+
  have "valid_network s' name m"
  proof -
    have "\<forall>k \<in> set (map fst m). starts_with k (CHR '':'') \<or> k \<in> set (map fst known_parameters)"
      using fin(2) om.keys_find[of _ m] unfolding parameter_ok_def by blast
    moreover have "map_of m ''address'' \<noteq> None \<longrightarrow> r = Switch"
      "\<And>u. map_of m ''uplink'' = Some u \<Longrightarrow> uplink_ok s' u"
      "map_of m ''default'' \<noteq> None \<longrightarrow> json_find '':default-netns'' s' = Some (JString name)"
      using fin(2) unfolding parameter_ok_def by blast+
    ultimately show ?thesis
      using m(2,3) role(2) by (simp add: valid_network_def split: option.split)
  qed
  then show ?thesis
    using fin(1) by (auto simp: component_ready_def)
qed

text \<open>Validation never changes which components an entity has.\<close>

definition same_shape :: "json \<Rightarrow> json \<Rightarrow> bool" where
  "same_shape s s' \<longleftrightarrow>
     (\<forall>n j. json_find n s = Some j \<and> is_object j \<longrightarrow>
        (\<exists>j'. json_find n s' = Some j' \<and> is_object j' \<and> set (obj_keys j') = set (obj_keys j)))"

lemma same_shape_put: "same_shape s (json_put (n # k # ks) v s)"
  unfolding same_shape_def
proof (intro allI impI, elim conjE)
  fix n' j
  assume "json_find n' s = Some j" "is_object j"
  then show "\<exists>j'. json_find n' (json_put (n # k # ks) v s) = Some j' \<and> is_object j' \<and>
      set (obj_keys j') = set (obj_keys j)"
    by (cases "n' = n") (auto simp del: json_put.simps)
qed

lemma same_shape_slot: "same_shape s (snd (ref_subscript (n # k # ks) key s))"
  using same_shape_put[of s n k ks]
  by (auto simp: ref_subscript_def same_shape_def simp del: json_at.simps json_put.simps
      split: option.splits res.splits)

interpretation shape_rel: validation_relation name same_shape for name
proof unfold_locales
  show "same_shape s s'' " if "same_shape s s'" "same_shape s' s''" for s s' s''
    using that unfolding same_shape_def by metis
  show "same_shape s (snd (ref_subscript [] '':default-netns'' s))" for s
    by (cases s) (auto simp: same_shape_def ref_subscript_def split: option.splits)
  show "same_shape s (json_put ['':default-netns''] (JString name) s)"
    if "json_find '':default-netns'' s = Some JNull" for s
    using that unfolding same_shape_def
    by (metis is_object.simps(2) json_find_put_other option.inject)
qed (auto simp: same_shape_def intro: same_shape_put[unfolded same_shape_def, rule_format]
    same_shape_slot[unfolded same_shape_def, rule_format])

lemma validate_components_success:
  "validate_components name types s = (Ret (), s') \<Longrightarrow> distinct types \<Longrightarrow>
     (types = [] \<and> s' = s) \<or> (types = [''network''] \<and> validate_network name s = (Ret (), s'))"
  by (induction types arbitrary: s)
    (fastforce simp: known_components_def split: option.splits if_splits component_type.splits)+

lemma validate_entity_success:
  assumes "validate_entity name s = (Ret (), s')" "wf_json s" "is_object s"
  shows "valid_entity s' name"
proof -
  obtain j where j: "json_find name s = Some j" "validate_components name (items_keys j) s = (Ret (), s')"
    using assms(1) by (auto simp: validate_entity_def split: option.splits)
  show ?thesis
  proof (cases j)
    case (JObject e)
    then have "distinct (items_keys j)"
      using wf_json_find[OF assms(2) j(1)] om.distinct_keys by auto
    from validate_components_success[OF j(2) this] show ?thesis
    proof (elim disjE conjE)
      assume *: "items_keys j = [''network'']" "validate_network name s = (Ret (), s')"
      obtain m where m: "json_at [name, ''network''] s' = Some (JObject m)" "valid_network s' name m"
        using validate_network_success[OF *(2) assms(2,3)] by blast
      obtain e' where "json_find name s' = Some (JObject e')" "fst ` set e' = fst ` set e"
        using shape_rel.network_rel[of s name] *(2) j(1) JObject
        by (auto simp: same_shape_def) (metis fst_conv is_object.simps(1) is_objectE obj_keys.simps(1) set_map)
      then show ?thesis
        using m * JObject by (auto simp: valid_entity_def split: option.splits)
    qed (use j JObject in \<open>auto simp: valid_entity_def\<close>)
  next
    case (JArray xs)
    have "xs = []"
    proof (rule ccontr)
      assume "xs \<noteq> []"
      then have "items_keys j = ''0'' # map show_dec [1..<length xs]"
        using JArray by (simp add: upt_conv_Cons)
      then show False
        using j(2) by (simp add: known_components_def)
    qed
    then show ?thesis
      using j JArray by (simp add: valid_entity_def)
  qed (use j in \<open>auto simp: valid_entity_def known_components_def\<close>)
qed

section \<open>Validity is kept\<close>

lemma valid_network_mono:
  "roles_frame s s' \<Longrightarrow> default_frame s s' \<Longrightarrow> valid_network s name m \<Longrightarrow> valid_network s' name m"
  using uplink_ok_mono[of s s'] unfolding valid_network_def default_frame_def
  by (auto split: option.splits json.splits)

lemma valid_entity_settled: "valid_entity s n \<Longrightarrow> \<exists>j. json_find n s = Some j \<and> settled j"
proof -
  assume v: "valid_entity s n"
  then obtain j where j: "json_find n s = Some j"
    by (auto simp: valid_entity_def split: option.splits)
  have "valid_network s n m \<Longrightarrow> map_of m ''role'' \<noteq> None" for m
    by (cases "map_of m ''role''") (auto simp: valid_network_def)
  then have "settled j"
    using v j by (cases j) (auto simp: valid_entity_def settled_def split: option.splits json.splits)
  then show ?thesis using j by blast
qed

lemma valid_entity_eq:
  assumes "json_find n s' = json_find n s" "roles_frame s s'" "default_frame s s'" "valid_entity s n"
  shows "valid_entity s' n"
  using assms(1,4) valid_network_mono[OF assms(2,3)] unfolding valid_entity_def
  by (auto split: option.splits json.splits)

lemma valid_entity_frame:
  assumes "cfg_frame name s s'" "wf_json s" "is_object s" "n \<noteq> name" "n \<noteq> '':default-netns''"
    and "valid_entity s n"
  shows "valid_entity s' n"
proof -
  obtain j where "json_find n s = Some j" "settled j"
    using valid_entity_settled[OF assms(6)] by blast
  then have "json_find n s' = json_find n s"
    using assms(1-5) by (simp add: cfg_frame_def others_frame_def)
  then show ?thesis
    using assms valid_entity_eq by (simp add: cfg_frame_def)
qed

lemma metadata_settled:
  assumes "validate_metadata s = Ret ()"
  shows "\<exists>j. json_find ''!metadata'' s = Some j \<and> settled j"
proof -
  obtain j where j: "json_find ''!metadata'' s = Some j" "is_object j"
      "find (\<lambda>k. k \<noteq> ''version'') (obj_keys j) = None"
    using assms by (auto simp: validate_metadata_def split: option.splits if_splits)
  then have "json_find ''network'' j = None"
    using set_obj_keys[of j] by (auto simp: find_None_iff)
  then show ?thesis
    using j(1) by (simp add: settled_def)
qed

lemma validate_metadata_cong:
  "json_find ''!metadata'' s' = json_find ''!metadata'' s \<Longrightarrow> validate_metadata s' = validate_metadata s"
  by (simp add: validate_metadata_def)

lemma metadata_frame:
  assumes "cfg_frame name s s'" "wf_json s" "is_object s" "name \<noteq> ''!metadata''"
    and "validate_metadata s = Ret ()"
  shows "validate_metadata s' = Ret ()"
proof -
  obtain j where "json_find ''!metadata'' s = Some j" "settled j"
    using metadata_settled[OF assms(5)] by blast
  then have "json_find ''!metadata'' s' = json_find ''!metadata'' s"
    using assms(1-4) by (simp add: cfg_frame_def others_frame_def)
  then show ?thesis
    using assms(5) validate_metadata_cong by metis
qed

lemma next_key_least:
  assumes "wf_json s" "next_key prev s = Some k" "n \<in> set (obj_keys s)" "n < k"
  shows "\<exists>p. prev = Some p \<and> n \<le> p"
proof -
  obtain i where i: "i < length (obj_keys s)" "k = obj_keys s ! i"
      "\<And>j. j < i \<Longrightarrow> \<not> (case prev of None \<Rightarrow> True | Some p \<Rightarrow> p < obj_keys s ! j)"
    using assms(2) by (auto simp: next_key_def find_Some_iff)
  obtain j where j: "j < length (obj_keys s)" "n = obj_keys s ! j"
    using assms(3) by (metis in_set_conv_nth)
  have "sorted_wrt (<) (obj_keys s)"
    using assms(1) by (cases s) (auto simp: map_wf_def)
  then have "j < i"
    using assms(4) i(1,2) j by (metis linorder_neqE_nat order_less_asym sorted_wrt_iff_nth_less)
  then show ?thesis
    using i(3)[of j] j(2) by (auto split: option.splits)
qed

text \<open>The loop of the constructor: what is at or below the current key is valid.\<close>

text \<open>One round of the loop: the entities up to the one just validated are valid.\<close>

lemma entity_validated:
  assumes "validate_entity k s = (Ret (), t)" "wf_json s" "is_object s" "validate_metadata s = Ret ()" "k \<noteq> ''!metadata''"
    and below: "\<And>n. n \<in> set (obj_keys s) - reserved_keys \<Longrightarrow> n < k \<Longrightarrow> valid_entity s n"
  shows "wf_json t" "is_object t" "validate_metadata t = Ret ()"
    "n \<in> set (obj_keys t) - reserved_keys \<Longrightarrow> n \<le> k \<Longrightarrow> valid_entity t n"
proof -
  have fr: "cfg_frame k s t"
    using frame_rel.entity_rel[of k s] assms(1) by simp
  then show "wf_json t" "is_object t"
    using assms(2,3) by (auto simp: cfg_frame_def)
  show "validate_metadata t = Ret ()"
    by (rule metadata_frame[OF fr assms(2,3,5,4)])
  have keys: "set (obj_keys t) \<subseteq> insert '':default-netns'' (set (obj_keys s))"
    using keys_rel.entity_rel[of k s] assms(1) by simp
  show "valid_entity t n" if "n \<in> set (obj_keys t) - reserved_keys" "n \<le> k"
  proof (cases "n = k")
    case True
    then show ?thesis
      using validate_entity_success[OF assms(1-3)] by simp
  next
    case False
    then show ?thesis
      using valid_entity_frame[OF fr assms(2,3) False] below[of n] keys that by (auto simp: reserved_keys_def)
  qed
qed

lemma validate_all_success:
  assumes "validate_all prev s = (Ret (), s')" "wf_json s" "is_object s"
    and "validate_metadata s = Ret ()"
    and "\<And>n p. n \<in> set (obj_keys s) - reserved_keys \<Longrightarrow> prev = Some p \<Longrightarrow> n \<le> p \<Longrightarrow> valid_entity s n"
  shows "valid_config s'"
  using assms
proof (induction prev s rule: validate_all.induct)
  case (1 prev s)
  show ?case
  proof (cases "next_key prev s")
    case None
    then have "s' = s"
      using "1.prems"(1) by (simp add: validate_all.simps[of prev s])
    moreover have "valid_entity s n" if n: "n \<in> set (obj_keys s) - reserved_keys" for n
    proof -
      obtain p where "prev = Some p" "\<not> p < n"
        using None n by (auto simp: next_key_def find_None_iff split: option.splits)
      then show ?thesis using "1.prems"(5) n by auto
    qed
    ultimately show ?thesis
      using "1.prems" by (simp add: valid_config_def)
  next
    case (Some k)
    have below: "valid_entity s n" if "n \<in> set (obj_keys s) - reserved_keys" "n < k" for n
      using next_key_least[OF "1.prems"(2) Some, of n] "1.prems"(5) that by auto
    show ?thesis
    proof (cases "k = ''!metadata''")
      case True
      then have run: "validate_all (Some k) s = (Ret (), s')"
        using "1.prems"(1) Some by (simp add: validate_all.simps[of prev s])
      show ?thesis
        using "1.IH"(1)[OF Some True run "1.prems"(2-4)] below True
        by (force simp: reserved_keys_def order.order_iff_strict)
    next
      case False
      obtain t where t: "validate_entity k s = (Ret (), t)" "validate_all (Some k) t = (Ret (), s')"
        using "1.prems"(1) Some False
        by (auto simp: validate_all.simps[of prev s] split: prod.splits res.splits)
      have t_wf: "wf_json t" "is_object t" "validate_metadata t = Ret ()"
          and valid: "\<And>n. n \<in> set (obj_keys t) - reserved_keys \<Longrightarrow> n \<le> k \<Longrightarrow> valid_entity t n"
        using entity_validated[OF t(1) "1.prems"(2-4) False below] by auto
      show ?thesis
        using "1.IH"(2)[OF Some False t(1)[symmetric] refl t(2) t_wf] valid by auto
    qed
  qed
qed

section \<open>Adding an entity\<close>

fun wf_param :: "param_result \<Rightarrow> bool" where
  "wf_param (ParamSet j) = wf_json j"
| "wf_param (ParamNotObject pos j) = wf_json j"
| "wf_param _ = True"

lemma wf_param_map: "wf_param r \<Longrightarrow> (\<And>j. wf_json j \<Longrightarrow> wf_json (f j)) \<Longrightarrow> wf_param (map_param f r)"
  by (cases r) auto

lemma wf_set_leaf:
  assumes "wf_json tree" "wf_json v"
  shows "wf_param (set_leaf k v tree)"
proof (cases "json_subscript k tree")
  case (Ret x)
  then show ?thesis
    using wf_json_subscript[OF assms(1), of k "fst x" "snd x"] assms(2)
    by (cases x) (simp add: set_leaf_def wf_json_put del: json_put.simps)
qed (simp_all add: set_leaf_def)

lemma wf_set_parameter:
  "wf_json tree \<Longrightarrow> wf_json v \<Longrightarrow> wf_param (set_parameter key v start tree)"
proof (induction key v start tree rule: set_parameter.induct)
  case (1 key v start tree)
  show ?case
  proof (cases "find_char_from (CHR ''.'') key start")
    case None
    then show ?thesis
      using "1.prems" by (simp add: set_parameter.simps[of key v start tree] wf_set_leaf)
  next
    case (Some dot)
    define tree1 where "tree1 = (if tree = JNull then JObject [] else tree)"
    define k where "k = substr key start (dot - start)"
    have w1: "wf_json tree1" using "1.prems" by (auto simp: tree1_def)
    have eq: "set_parameter key v start tree =
      (if dot = 0 then set_leaf (drop start key) v tree
       else if \<not> is_object tree1 then ParamNotObject dot tree1
       else (case json_subscript k tree1 of
               Ret (tree2, child) \<Rightarrow>
                 map_param (\<lambda>c. json_put [k] c tree2) (set_parameter key v (dot + 1) child)
             | Throw _ \<Rightarrow> ParamTerminate
             | Abort \<Rightarrow> ParamTerminate))"
      unfolding tree1_def k_def by (subst set_parameter.simps) (simp only: Some Let_def option.case)
    show ?thesis
    proof (cases "dot \<noteq> 0 \<and> is_object tree1")
      case True
      show ?thesis
      proof (cases "json_subscript k tree1")
        case (Ret x)
        then obtain tree2 child where x: "json_subscript k tree1 = Ret (tree2, child)"
          by (cases x) simp
        have "wf_param (set_parameter key v (dot + 1) child)"
          using "1.IH"[OF Some _ tree1_def _ x[unfolded k_def] refl] True "1.prems"(2)
            wf_json_subscript[OF w1 x] by simp
        then show ?thesis
          using True x wf_json_subscript[OF w1 x]
          by (auto simp: eq wf_json_put simp del: json_put.simps intro!: wf_param_map)
      qed (use True eq in auto)
    qed (use eq w1 "1.prems" wf_set_leaf in auto)
  qed
qed

text \<open>Setting parameters touches the entity under construction and nothing else.\<close>

definition only_entity :: "string \<Rightarrow> config \<Rightarrow> config \<Rightarrow> bool" where
  "only_entity name c c' \<longleftrightarrow>
     wf_json (configuration c') \<and> is_object (configuration c') \<and>
     mutable c' = mutable c \<and> installed c' = installed c \<and>
     (\<forall>n. n \<noteq> name \<longrightarrow> json_find n (configuration c') = json_find n (configuration c))"

lemma only_entity_trans: "only_entity name c c' \<Longrightarrow> only_entity name c' c'' \<Longrightarrow> only_entity name c c''"
  by (simp add: only_entity_def)

lemma only_entity_put:
  "wf_json (configuration c) \<Longrightarrow> is_object (configuration c) \<Longrightarrow> wf_json j \<Longrightarrow>
     only_entity name c (c\<lparr>configuration := json_put [name] j (configuration c)\<rparr>)"
  by (simp add: only_entity_def wf_json_put del: json_put.simps)

lemma json_find_erase:
  "json_erase k j = Ret j' \<Longrightarrow> wf_json j \<Longrightarrow>
     json_find n j' = (if n = k then None else json_find n j)"
  by (cases j) auto

lemma wf_json_erase: "json_erase k j = Ret j' \<Longrightarrow> wf_json j \<Longrightarrow> wf_json j' \<and> is_object j'"
  using wf_json_map_erase by (cases j) auto

lemma only_entity_erase:
  "json_erase name (configuration c) = Ret j \<Longrightarrow> wf_json (configuration c) \<Longrightarrow>
     only_entity name c (c\<lparr>configuration := j\<rparr>)"
  by (auto simp: only_entity_def wf_json_erase json_find_erase)

lemma wf_param_json:
  "(\<And>t j. parse t = Some j \<Longrightarrow> wf_json j) \<Longrightarrow> wf_json (param_json parse v)"
  by (auto simp: param_json_def split: option.splits)

lemma set_parameters_frame:
  assumes "set_parameters parse name ps c = Ret (r, c')"
    and "wf_json (configuration c)" "is_object (configuration c)"
    and parse: "\<And>t j. parse t = Some j \<Longrightarrow> wf_json j"
  shows "only_entity name c c' \<and> (r = None \<and> ps \<noteq> [] \<longrightarrow> json_find name (configuration c') \<noteq> None)"
  using assms(1-3)
proof (induction ps arbitrary: c)
  case (Cons p ps)
  obtain tree where tree: "json_find name (configuration c) = Some tree"
    using Cons.prems(1) by (auto split: option.splits)
  define res where "res = set_parameter (parameter p) (param_json parse (param_value p)) 0 tree"
  have wf: "wf_param res"
    unfolding res_def
    by (intro wf_set_parameter wf_json_find[OF Cons.prems(2) tree] wf_param_json parse)
  show ?case
  proof (cases res)
    case (ParamSet t)
    let ?c1 = "c\<lparr>configuration := json_put [name] t (configuration c)\<rparr>"
    have step: "only_entity name c ?c1"
      using Cons.prems(2,3) wf ParamSet by (simp add: only_entity_put del: json_put.simps)
    have run: "set_parameters parse name ps ?c1 = Ret (r, c')"
      using Cons.prems(1) tree ParamSet by (simp add: res_def del: json_put.simps)
    have ih: "only_entity name ?c1 c' \<and> (r = None \<and> ps \<noteq> [] \<longrightarrow> json_find name (configuration c') \<noteq> None)"
      using Cons.IH[OF run] step by (simp add: only_entity_def)
    moreover have "ps = [] \<Longrightarrow> json_find name (configuration c') \<noteq> None"
      using run tree by (auto simp del: json_put.simps)
    ultimately show ?thesis
      using step only_entity_trans by blast
  next
    case (ParamNotObject pos t)
    then have "r \<noteq> None" "c' = c\<lparr>configuration := json_put [name] t (configuration c)\<rparr>"
      using Cons.prems(1) tree by (auto simp: res_def simp del: json_put.simps)
    then show ?thesis
      using Cons.prems(2,3) wf ParamNotObject by (auto simp: only_entity_put simp del: json_put.simps)
  next
    case ParamDuplicate
    then obtain j where "r \<noteq> None" "json_erase name (configuration c) = Ret j" "c' = c\<lparr>configuration := j\<rparr>"
      using Cons.prems(1) tree by (auto simp: res_def split: res.splits)
    then show ?thesis
      using Cons.prems(2) only_entity_erase by auto
  next
    case ParamTerminate
    then show ?thesis
      using Cons.prems(1) tree by (simp add: res_def)
  qed
qed (simp add: only_entity_def)

end
