(* ===== verification/Config_Properties.thy ===== *)
theory Config_Properties
  imports Config_Valid
begin

text \<open>
  The properties of the configuration object: loading gives a valid configuration, \<open>add\<close> keeps
  it valid and never touches other entities, and the cases in which the code rejects, or dies
  on, inputs it should handle.
\<close>

section \<open>The outcomes of add\<close>

lemma try_get_find: "try_get c n = None \<longleftrightarrow> json_find n (configuration c) = None"
    "try_get c n = try_get c' n \<longleftrightarrow> json_find n (configuration c) = json_find n (configuration c')"
  by (auto simp: try_get_def split: option.splits)

lemma set_parameters_error:
  "set_parameters parse name ps c = Ret (Some err, c') \<Longrightarrow> error_code err = - EINVAL"
  by (induction ps arbitrary: c)
    (auto split: option.splits param_result.splits res.splits)

definition add_failed :: "string \<Rightarrow> config \<Rightarrow> config_result \<Rightarrow> config \<Rightarrow> bool" where
  "add_failed name c r c' \<longleftrightarrow>
     error_code r = - EINVAL \<and>
     (only_entity name c c' \<or>
      (\<exists>c1 e cfg cfg'. only_entity name c c1 \<and>
         validate_entity name (configuration c1) = (Throw e, cfg) \<and> json_erase name cfg = Ret cfg' \<and>
         c' = c1\<lparr>configuration := cfg'\<rparr> \<and> error_message r = what e))"

definition add_succeeded :: "string \<Rightarrow> config \<Rightarrow> config_result \<Rightarrow> config \<Rightarrow> bool" where
  "add_succeeded name c r c' \<longleftrightarrow>
     r = success \<and>
     (\<exists>c1. only_entity name c c1 \<and> json_find name (configuration c1) \<noteq> None \<and>
        validate_entity name (configuration c1) = (Ret (), configuration c') \<and>
        mutable c' = mutable c \<and> installed c' = installed c)"

lemma config_add_cases:
  assumes "config_add parse name ps c = Ret (r, c')"
    and wf: "wf_json (configuration c)" "is_object (configuration c)"
    and parse: "\<And>t j. parse t = Some j \<Longrightarrow> wf_json j"
  obtains (immutable) "\<not> mutable c" "error_code r = - EROFS" "c' = c"
    | (exists) "mutable c" "json_find name (configuration c) \<noteq> None" "error_code r = - EEXIST" "c' = c"
    | (failed) "mutable c" "json_find name (configuration c) = None" "add_failed name c r c'"
    | (succeeded) "mutable c" "json_find name (configuration c) = None" "add_succeeded name c r c'"
proof (cases "mutable c \<and> json_find name (configuration c) = None")
  case False
  then show thesis
    using assms(1) that(1,2) by (auto simp: config_add_def json_count_def split: if_splits option.splits)
next
  case True
  obtain m where m: "configuration c = JObject m" "map_of m name = None"
    using True wf(2) by (auto elim!: is_objectE)
  let ?c0 = "c\<lparr>configuration := JObject (map_set name (JObject []) m)\<rparr>"
  have c0: "only_entity name c ?c0"
    using wf m wf_json_map_set[of m "JObject []" name] by (auto simp: only_entity_def)
  obtain r1 c1 where run: "set_parameters parse name ps ?c0 = Ret (r1, c1)"
    using assms(1) True m by (auto simp: config_add_def json_count_def split: res.splits)
  have c1: "only_entity name c c1"
    "r1 = None \<Longrightarrow> json_find name (configuration c1) \<noteq> None"
    using set_parameters_frame[OF run _ _ parse] c0 only_entity_trans[OF c0] run
    by (cases ps; auto simp: only_entity_def)+
  show thesis
  proof (cases r1)
    case (Some err)
    then show thesis
      using assms(1) True m run c1 set_parameters_error that(3)
      by (auto simp: config_add_def json_count_def add_failed_def)
  next
    case None
    show thesis
    proof (cases "validate_entity name (configuration c1)")
      case (Pair v cfg)
      show thesis
      proof (cases v)
        case (Ret u)
        then have "r = success" "c' = c1\<lparr>configuration := cfg\<rparr>"
          using assms(1) True m run None Pair by (auto simp: config_add_def json_count_def)
        then have "add_succeeded name c r c'"
          unfolding add_succeeded_def using c1 None Pair Ret
          by (intro conjI exI[of _ c1]) (auto simp: only_entity_def)
        then show thesis
          using True that(4) by simp
      next
        case (Throw e)
        then obtain cfg' where cfg': "json_erase name cfg = Ret cfg'"
            "r = \<lparr>error_code = - EINVAL, error_message = what e\<rparr>" "c' = c1\<lparr>configuration := cfg'\<rparr>"
          using assms(1) True m run None Pair
          by (auto simp: config_add_def json_count_def split: res.splits)
        then have "add_failed name c r c'"
          unfolding add_failed_def using c1(1) Pair Throw by fastforce
        then show thesis
          using True that(3) by simp
      next
        case Abort
        then show thesis
          using assms(1) True m run None Pair by (auto simp: config_add_def json_count_def)
      qed
    qed
  qed
qed

text \<open>Validity carries over to the tree in which the new entity has been built.\<close>

lemma valid_config_only_entity:
  assumes "valid_config (configuration c)" "only_entity name c c1"
    and "json_find name (configuration c) = None"
  shows "wf_json (configuration c1)" "is_object (configuration c1)"
    "validate_metadata (configuration c1) = Ret ()"
    "\<And>n. n \<in> set (obj_keys (configuration c)) - reserved_keys \<Longrightarrow> valid_entity (configuration c1) n"
proof -
  have find: "\<And>n. n \<noteq> name \<Longrightarrow> json_find n (configuration c1) = json_find n (configuration c)"
    using assms(2) by (simp add: only_entity_def)
  show "wf_json (configuration c1)" "is_object (configuration c1)"
    using assms(2) by (auto simp: only_entity_def)
  obtain j where "json_find ''!metadata'' (configuration c) = Some j"
    using metadata_settled assms(1) by (auto simp: valid_config_def)
  then have "name \<noteq> ''!metadata''" using assms(3) by auto
  then show "validate_metadata (configuration c1) = Ret ()"
    using assms(1) validate_metadata_cong[OF find] by (auto simp: valid_config_def)
  have frames: "roles_frame (configuration c) (configuration c1)"
      "default_frame (configuration c) (configuration c1)"
    using find assms(3) unfolding roles_frame_def default_frame_def
    by (metis json_at.simps(2) option.simps(4) role_kept_refl option.distinct(1))+
  show "valid_entity (configuration c1) n"
    if "n \<in> set (obj_keys (configuration c)) - reserved_keys" for n
  proof -
    have "valid_entity (configuration c) n" "n \<noteq> name"
      using that assms(1,3) by (auto simp: valid_config_def set_obj_keys)
    then show ?thesis
      using valid_entity_eq[OF find frames] by blast
  qed
qed

text \<open>The tree below the top level of entities other than the new one, across a whole \<open>add\<close>.\<close>

lemma validate_entity_others:
  assumes "validate_entity name (configuration c1) = (r, cfg)" "only_entity name c c1"
    and "valid_config (configuration c)" "json_find name (configuration c) = None"
    and "n \<noteq> name" "n \<noteq> '':default-netns''"
  shows "json_find n cfg = json_find n (configuration c)"
proof (cases "json_find n (configuration c)")
  case None
  then have "json_find n (configuration c1) = None"
    using assms(2,5) by (simp add: only_entity_def)
  then have "n \<notin> set (obj_keys cfg)"
    using keys_rel.entity_rel[of name "configuration c1"] assms(1,6) by (auto simp: set_obj_keys)
  then show ?thesis
    using None by (simp add: set_obj_keys)
next
  case (Some j)
  have "settled j"
  proof (cases "n = ''!metadata''")
    case True
    then show ?thesis
      using metadata_settled[of "configuration c"] assms(3) Some by (auto simp: valid_config_def)
  next
    case False
    then show ?thesis
      using valid_entity_settled[of "configuration c" n] assms(3,6) Some
      by (auto simp: valid_config_def reserved_keys_def set_obj_keys)
  qed
  then show ?thesis
    using frame_rel.entity_rel[of name "configuration c1"] assms(1,2,5,6) Some
    by (auto simp: cfg_frame_def only_entity_def others_frame_def)
qed

lemma config_add_valid_aux:
  assumes "add_succeeded name c r c'" "valid_config (configuration c)"
    and new: "json_find name (configuration c) = None"
  shows "valid_config (configuration c') \<and> json_find name (configuration c') \<noteq> None"
proof -
  obtain c1 where c1: "only_entity name c c1" "json_find name (configuration c1) \<noteq> None"
      and run: "validate_entity name (configuration c1) = (Ret (), configuration c')"
    using assms(1) by (auto simp: add_succeeded_def)
  note valid = valid_config_only_entity[OF assms(2) c1(1) new]
  have fr: "cfg_frame name (configuration c1) (configuration c')"
    using frame_rel.entity_rel[of name "configuration c1"] run by simp
  have nm: "name \<noteq> ''!metadata''"
    using metadata_settled[of "configuration c"] assms(2) new by (auto simp: valid_config_def)
  have ent: "valid_entity (configuration c') name"
    using validate_entity_success[OF run valid(1,2)] .
  have "valid_entity (configuration c') n"
    if n: "n \<in> set (obj_keys (configuration c')) - reserved_keys" for n
  proof (cases "n = name")
    case False
    have "n \<in> set (obj_keys (configuration c1))"
      using keys_rel.entity_rel[of name "configuration c1"] run n by (auto simp: reserved_keys_def)
    then have "n \<in> set (obj_keys (configuration c))"
      using c1(1) False by (auto simp: only_entity_def set_obj_keys)
    then show ?thesis
      using valid_entity_frame[OF fr valid(1,2) False] valid(4)[of n] n by (auto simp: reserved_keys_def)
  qed (use ent in simp)
  then show ?thesis
    using fr valid metadata_frame[OF fr valid(1,2) nm valid(3)] valid_entity_settled[OF ent]
    by (auto simp: valid_config_def cfg_frame_def)
qed

section \<open>The default namespace during loading\<close>

text \<open>Validation of an entity records either that entity or nobody as the default.\<close>

definition default_origin :: "string \<Rightarrow> json \<Rightarrow> json \<Rightarrow> bool" where
  "default_origin name s s' \<longleftrightarrow>
     (\<forall>v. json_find '':default-netns'' s' = Some (JString v) \<longrightarrow>
        json_find '':default-netns'' s = Some (JString v) \<or> v = name)"

lemma default_origin_put: "default_origin name s (json_put (n # k # ks) v s)"
  unfolding default_origin_def
proof (intro allI impI)
  fix w
  assume w: "json_find '':default-netns'' (json_put (n # k # ks) v s) = Some (JString w)"
  have "json_put (k # ks) v j = JString w \<Longrightarrow> j = JString w" for j
    by (cases j) (auto split: option.splits)
  then show "json_find '':default-netns'' s = Some (JString w) \<or> w = name"
    using w by (cases "n = '':default-netns''") (auto simp del: json_put.simps)
qed

lemma default_origin_slot: "default_origin name s (snd (ref_subscript (n # k # ks) key s))"
  using default_origin_put[of name s n k ks]
  by (auto simp: ref_subscript_def simp del: json_at.simps json_put.simps
      split: option.splits res.splits) (auto simp: default_origin_def)

interpretation origin_rel: validation_relation name "default_origin name" for name
proof unfold_locales
  show "default_origin name s (snd (ref_subscript [] '':default-netns'' s))" for s
    by (cases s) (auto simp: default_origin_def ref_subscript_def split: option.splits)
  show "default_origin name s (json_put ['':default-netns''] (JString name) s)" for s
    by (auto simp: default_origin_def simp del: json_put.simps(2-9))
qed (auto simp: default_origin_put default_origin_slot, auto simp: default_origin_def)

lemma metadata_before_default: "''!metadata'' < '':default-netns''"
  by code_simp

text \<open>The entry of the default namespace does not pass validation as an entity.\<close>

lemma validate_entity_string:
  "json_find name s = Some (JString v) \<Longrightarrow> validate_entity name s \<noteq> (Ret (), s')"
  by (auto simp: validate_entity_def known_components_def)

text \<open>So the loop fails once it is recorded while the loop is still below its key, \<dots>\<close>

lemma next_key_below:
  assumes "next_key prev s = Some k" "wf_json s" "n \<in> set (obj_keys s)"
    and "\<And>p. prev = Some p \<Longrightarrow> p < n"
  shows "k \<le> n"
  using next_key_least[OF assms(2,1,3)] assms(4) by (metis leD leI)

lemma next_key_exists:
  assumes "n \<in> set (obj_keys s)" "\<And>p. prev = Some p \<Longrightarrow> p < n"
  shows "next_key prev s \<noteq> None"
  using assms by (auto simp: next_key_def find_None_iff split: option.splits)

lemma validate_all_default_stuck:
  assumes "json_find '':default-netns'' s = Some (JString v)"
    and "\<And>p. prev = Some p \<Longrightarrow> p < '':default-netns''" "wf_json s" "is_object s"
  shows "validate_all prev s \<noteq> (Ret (), s')"
  using assms
proof (induction prev s rule: validate_all.induct)
  case (1 prev s)
  have dn: "'':default-netns'' \<in> set (obj_keys s)"
    using "1.prems"(1) by (simp add: set_obj_keys)
  obtain k where k: "next_key prev s = Some k"
    using next_key_exists[OF dn "1.prems"(2)] by auto
  have le: "k \<le> '':default-netns''"
    using next_key_below[OF k "1.prems"(3) dn "1.prems"(2)] .
  show ?case
  proof (cases "k = ''!metadata''")
    case True
    then have "k < '':default-netns''" using metadata_before_default by simp
    then show ?thesis
      using "1.IH"(1)[OF k True "1.prems"(1) _ "1.prems"(3,4)] True
      by (simp add: validate_all.simps[of prev s] k)
  next
    case False
    show ?thesis
    proof
      assume "validate_all prev s = (Ret (), s')"
      then obtain t where t: "validate_entity k s = (Ret (), t)" "validate_all (Some k) t = (Ret (), s')"
        using k False by (auto simp: validate_all.simps[of prev s] split: prod.splits res.splits)
      have "k < '':default-netns''"
        using le validate_entity_string[OF "1.prems"(1)] t(1) by (cases "k = '':default-netns''") auto
      moreover have "wf_json t" "is_object t" "json_find '':default-netns'' t = Some (JString v)"
        using frame_rel.entity_rel[of k s] t(1) "1.prems"
        by (auto simp: cfg_frame_def default_frame_def)
      ultimately show False
        using "1.IH"(2)[OF k False t(1)[symmetric] refl] t(2) by simp
    qed
  qed
qed

text \<open>\<dots> and a default recorded later belongs to an entity above it.\<close>

lemma validate_all_default_above:
  assumes "validate_all prev s = (Ret (), s')" "wf_json s" "is_object s"
    and "\<And>p v. prev = Some p \<Longrightarrow> '':default-netns'' \<le> p \<Longrightarrow>
           json_find '':default-netns'' s = Some (JString v) \<Longrightarrow> '':default-netns'' < v"
    and "json_find '':default-netns'' s' = Some (JString v)"
  shows "'':default-netns'' < v"
  using assms
proof (induction prev s arbitrary: v rule: validate_all.induct)
  case (1 prev s)
  have above: "\<exists>p. prev = Some p \<and> '':default-netns'' \<le> p"
    if "json_find '':default-netns'' s = Some (JString w)" for w
    using validate_all_default_stuck[OF that _ "1.prems"(2,3)] "1.prems"(1) by (meson leI)
  show ?case
  proof (cases "next_key prev s")
    case None
    then have "s' = s"
      using "1.prems"(1) by (simp add: validate_all.simps[of prev s])
    then show ?thesis
      using above "1.prems"(4,5) by blast
  next
    case (Some k)
    show ?thesis
    proof (cases "k = ''!metadata''")
      case True
      then have run: "validate_all (Some k) s = (Ret (), s')"
        using "1.prems"(1) Some by (simp add: validate_all.simps[of prev s])
      have "\<not> '':default-netns'' \<le> k"
        using metadata_before_default True by simp
      then show ?thesis
        using "1.IH"(1)[OF Some True run "1.prems"(2,3) _ "1.prems"(5)] by blast
    next
      case False
      obtain t where t: "validate_entity k s = (Ret (), t)" "validate_all (Some k) t = (Ret (), s')"
        using "1.prems"(1) Some False
        by (auto simp: validate_all.simps[of prev s] split: prod.splits res.splits)
      have t_wf: "wf_json t" "is_object t"
        using frame_rel.entity_rel[of k s] t(1) "1.prems"(2,3) by (auto simp: cfg_frame_def)
      have inv: "'':default-netns'' < w"
        if "'':default-netns'' \<le> k" "json_find '':default-netns'' t = Some (JString w)" for w
      proof -
        have "k \<noteq> '':default-netns''"
          using validate_entity_success[OF t(1) "1.prems"(2,3)] that(2)
          by (auto simp: valid_entity_def)
        moreover have "json_find '':default-netns'' s = Some (JString w) \<or> w = k"
          using origin_rel.entity_rel[of k s] t(1) that(2) by (simp add: default_origin_def)
        ultimately show ?thesis
          using above "1.prems"(4) that(1) by (metis order.not_eq_order_implies_strict)
      qed
      show ?thesis
        using "1.IH"(2)[OF Some False t(1)[symmetric] refl t(2) t_wf _ "1.prems"(5)] inv by auto
    qed
  qed
qed

lemma config_load_Ret:
  assumes "config_load parse path contents = Ret c"
  obtains body j where "contents = Some body" "parse body = Ret j" "is_object j"
    "validate_metadata j = Ret ()" "validate_all None j = (Ret (), configuration c)" "\<not> mutable c"
proof -
  obtain body j where j: "contents = Some body" "parse body = Ret j" "validate_metadata j = Ret ()"
    and run: "(case validate_all None j of
         (Ret _, cfg') \<Rightarrow> Ret \<lparr>mutable = False, configuration = cfg', installed = False\<rparr>
       | (Throw e, _) \<Rightarrow> Throw e
       | (Abort, _) \<Rightarrow> Abort) = Ret c"
    using assms by (auto simp: config_load_def split: option.splits)
  have "is_object j"
    using j(3) by (cases j) (auto simp: validate_metadata_def)
  moreover obtain r cfg where v: "validate_all None j = (r, cfg)"
    by (cases "validate_all None j")
  ultimately show thesis
    using j run that by (cases r) auto
qed

lemma config_load_is_valid:
  assumes "config_load parse path contents = Ret c"
    and "\<And>t j. parse t = Ret j \<Longrightarrow> wf_json j"
  shows "valid_config (configuration c) \<and> \<not> mutable c"
  using assms(1)
proof (rule config_load_Ret)
  fix body j
  assume "parse body = Ret j" "is_object j" "validate_metadata j = Ret ()"
    "validate_all None j = (Ret (), configuration c)" "\<not> mutable c"
  then show "valid_config (configuration c) \<and> \<not> mutable c"
    using validate_all_success[of None j "configuration c"] assms(2)[of body j] by simp
qed

section \<open>Properties\<close>

text \<open>
  C1: when the constructor of the configuration succeeds on a file (and the parser builds objects
  with ordered keys, as \<open>std::map\<close> does), the configuration is immutable and valid: the
  metadata is accepted and every entity consists of at most a network component with a known
  role, known parameters, an address only on a switch, and an uplink that names an existing entity
  with a network component whose role is not \<open>client\<close>.
\<close>

theorem config_load_valid:
  assumes "config_load parse path contents = Ret c"
    and "\<And>t j. parse t = Ret j \<Longrightarrow> wf_json j"
  shows "valid_config (configuration c) \<and> \<not> mutable c"
  by (rule config_load_is_valid[OF assms])

definition sample_file :: json where
  "sample_file = JObject
     [(''!metadata'', JObject [(''version'', JUInt 1)]),
      (''root'', JObject [(''network'', JObject [(''default'', JBool True), (''role'', JString ''root'')])]),
      (''test'', JObject [(''network'', JObject
         [(''address'', JString ''192.168.2.0/24''), (''role'', JString ''switch''),
          (''uplink'', JString ''root'')])])]"

theorem config_load_valid_witness:
  "\<exists>c. config_load (\<lambda>_. Ret sample_file) ''c.json'' (Some ''{}'') = Ret c \<and>
       valid_config (configuration c) \<and> \<not> mutable c"
proof -
  have ok: "case config_load (\<lambda>_. Ret sample_file) ''c.json'' (Some ''{}'') of Ret c \<Rightarrow> True | _ \<Rightarrow> False"
    by code_simp
  then obtain c where c: "config_load (\<lambda>_. Ret sample_file) ''c.json'' (Some ''{}'') = Ret c"
    by (cases "config_load (\<lambda>_. Ret sample_file) ''c.json'' (Some ''{}'')") auto
  have wf: "wf_json sample_file"
    by code_simp
  show ?thesis
    using config_load_valid[OF c] wf c by auto
qed

text \<open>
  A configuration file is never accepted when the entity whose network component is the
  default namespace has a name that sorts before \<open>:default-netns\<close> (for instance a name that
  begins with a digit): the entry the loop inserts for it is then still ahead of the loop, which
  goes on to validate that entry as if it were an entity.
\<close>

theorem load_default_name:
  assumes "config_load parse path contents = Ret c"
    and "\<And>t j. parse t = Ret j \<Longrightarrow> wf_json j"
    and "json_at [n, ''network''] (configuration c) = Some (JObject m)"
    and "map_of m ''default'' \<noteq> None" and "n \<notin> reserved_keys"
  shows "'':default-netns'' < n"
proof -
  obtain body j where j: "parse body = Ret j" "is_object j" "validate_metadata j = Ret ()"
      "validate_all None j = (Ret (), configuration c)"
    using assms(1) config_load_Ret by metis
  have "valid_config (configuration c)"
    using validate_all_success[OF j(4) _ j(2,3)] assms(2)[OF j(1)] by simp
  then have "valid_entity (configuration c) n"
    using assms(3,5) by (auto simp: valid_config_def set_obj_keys split: option.splits)
  then have "valid_network (configuration c) n m"
    using assms(3) by (auto simp: valid_entity_def split: option.splits json.splits)
  then have "json_find '':default-netns'' (configuration c) = Some (JString n)"
    using assms(4) by (auto simp: valid_network_def split: option.splits json.splits)
  then show ?thesis
    using validate_all_default_above[OF j(4) _ j(2)] assms(2)[OF j(1)] by simp
qed

theorem load_default_name_witness:
  "\<exists>c. config_load (\<lambda>_. Ret sample_file) ''c.json'' (Some ''{}'') = Ret c \<and>
     (\<exists>m. json_at [''root'', ''network''] (configuration c) = Some (JObject m) \<and>
        map_of m ''default'' \<noteq> None) \<and> '':default-netns'' < ''root''"
proof -
  let ?load = "config_load (\<lambda>_. Ret sample_file) ''c.json'' (Some ''{}'')"
  have ok: "case ?load of Ret c \<Rightarrow>
        (case json_at [''root'', ''network''] (configuration c) of
           Some (JObject m) \<Rightarrow> map_of m ''default'' = Some (JBool True) | _ \<Rightarrow> False)
      | _ \<Rightarrow> False"
    by code_simp
  then obtain c where c: "?load = Ret c"
    by (cases ?load) auto
  then obtain m where m: "json_at [''root'', ''network''] (configuration c) = Some (JObject m)"
      "map_of m ''default'' = Some (JBool True)"
    using ok by (auto simp del: json_at.simps split: option.splits json.splits)
  have wf: "wf_json sample_file" by code_simp
  have "'':default-netns'' < ''root''"
    by (rule load_default_name[OF c _ m(1)]) (use wf m in \<open>auto simp: reserved_keys_def\<close>)
  then show ?thesis using c m by auto
qed

lemma config_add_keeps_valid:
  assumes "config_add parse name ps c = Ret (r, c')" "error_code r = 0"
    and "valid_config (configuration c)"
    and "\<And>t j. parse t = Some j \<Longrightarrow> wf_json j"
  shows "valid_config (configuration c') \<and> try_get c' name \<noteq> None \<and>
    (\<forall>n. n \<noteq> name \<and> n \<noteq> '':default-netns'' \<longrightarrow> try_get c' n = try_get c n)"
proof -
  have wf: "wf_json (configuration c)" "is_object (configuration c)"
    using assms(3) by (auto simp: valid_config_def)
  show ?thesis
  proof (rule config_add_cases[OF assms(1) wf assms(4)], assumption, goal_cases immutable exists failed succeeded)
    case succeeded
    then obtain c1 where c1: "only_entity name c c1"
        "validate_entity name (configuration c1) = (Ret (), configuration c')"
      by (auto simp: add_succeeded_def)
    show ?thesis
      using config_add_valid_aux[OF succeeded(3) assms(3) succeeded(2)]
        validate_entity_others[OF c1(2,1) assms(3) succeeded(2)]
      by (auto simp: try_get_def split: option.splits)
  qed (use assms(2) in \<open>auto simp: errno_defs add_failed_def\<close>)
qed

text \<open>
  C14: on a valid configuration, \<open>add\<close> with result 0 gives a valid configuration that has the new
  entity, and every other entity is exactly as before.
\<close>

theorem config_add_valid:
  assumes "config_add parse name ps c = Ret (r, c')" "error_code r = 0"
    and "valid_config (configuration c)"
    and "\<And>t j. parse t = Some j \<Longrightarrow> wf_json j"
  shows "valid_config (configuration c') \<and> try_get c' name \<noteq> None \<and>
    (\<forall>n. n \<noteq> name \<and> n \<noteq> '':default-netns'' \<longrightarrow> try_get c' n = try_get c n)"
  by (rule config_add_keeps_valid[OF assms])

definition sample_config :: config where
  "sample_config = \<lparr>mutable = True, configuration = JObject
     [(''!metadata'', JObject [(''version'', JUInt 1)]),
      (''root'', JObject [(''network'', JObject
         [('':role'', JInt 0), (''role'', JString ''root'')])])], installed = False\<rparr>"

definition sample_parse :: "string \<Rightarrow> json option" where
  "sample_parse s = (if s = ''true'' then Some (JBool True) else None)"

definition sample_params :: "parameter_value list" where
  "sample_params =
     [\<lparr>parameter = ''network.role'', param_value = ''switch''\<rparr>,
      \<lparr>parameter = ''network.address'', param_value = ''192.168.2.0/24''\<rparr>,
      \<lparr>parameter = ''network.uplink'', param_value = ''root''\<rparr>]"

lemma sample_config_valid: "valid_config (configuration sample_config)"
  by code_simp

lemma sample_parse_wf: "sample_parse t = Some j \<Longrightarrow> wf_json j"
  by (auto simp: sample_parse_def split: if_splits)

theorem config_add_valid_witness:
  "\<exists>r c'. config_add sample_parse ''test'' sample_params sample_config = Ret (r, c') \<and>
     error_code r = 0 \<and> valid_config (configuration c') \<and>
     try_get c' ''root'' = try_get sample_config ''root''"
proof -
  let ?add = "config_add sample_parse ''test'' sample_params sample_config"
  have ok: "case ?add of Ret (r, c') \<Rightarrow> error_code r = 0 | _ \<Rightarrow> False"
    by code_simp
  then obtain r c' where r: "?add = Ret (r, c')" "error_code r = 0"
    by (auto split: res.splits prod.splits)
  then show ?thesis
    using config_add_valid[OF r sample_config_valid sample_parse_wf] by auto
qed

lemma config_add_others:
  assumes "config_add parse name ps c = Ret (r, c')" "valid_config (configuration c)"
    and "\<And>t j. parse t = Some j \<Longrightarrow> wf_json j"
  shows "(\<forall>n. n \<noteq> name \<and> n \<noteq> '':default-netns'' \<longrightarrow> try_get c' n = try_get c n) \<and>
     (\<not> mutable c \<longrightarrow> error_code r = - EROFS \<and> c' = c) \<and>
     (mutable c \<and> try_get c name \<noteq> None \<longrightarrow> error_code r = - EEXIST \<and> c' = c)"
proof -
  have wf: "wf_json (configuration c)" "is_object (configuration c)"
    using assms(2) by (auto simp: valid_config_def)
  show ?thesis
  proof (rule config_add_cases[OF assms(1) wf assms(3)], assumption, goal_cases immutable exists failed succeeded)
    case failed
    have "json_find n (configuration c') = json_find n (configuration c)"
      if n: "n \<noteq> name" "n \<noteq> '':default-netns''" for n
    proof (cases "only_entity name c c'")
      case False
      then obtain c1 e cfg cfg' where c1: "only_entity name c c1"
          "validate_entity name (configuration c1) = (Throw e, cfg)" "json_erase name cfg = Ret cfg'"
          "c' = c1\<lparr>configuration := cfg'\<rparr>"
        using failed(3) by (auto simp: add_failed_def)
      have "wf_json cfg"
        using frame_rel.entity_rel[of name "configuration c1"] c1(1,2)
        by (auto simp: cfg_frame_def only_entity_def)
      then show ?thesis
        using validate_entity_others[OF c1(2,1) assms(2) failed(2) n] json_find_erase[OF c1(3)] n c1(4)
        by simp
    qed (use n in \<open>simp add: only_entity_def\<close>)
    then show ?thesis
      using failed by (simp add: try_get_def)
  next
    case succeeded
    then obtain c1 where c1: "only_entity name c c1"
        "validate_entity name (configuration c1) = (Ret (), configuration c')"
      by (auto simp: add_succeeded_def)
    show ?thesis
      using validate_entity_others[OF c1(2,1) assms(2) succeeded(2)] succeeded(1,2)
      by (simp add: try_get_def)
  qed (auto simp: try_get_def split: option.splits)
qed

text \<open>
  Whatever \<open>add\<close> returns on a valid configuration, no other entity changes, and a negative
  result on an immutable configuration or an existing name changes nothing at all.
\<close>

theorem config_add_frame:
  assumes "config_add parse name ps c = Ret (r, c')" "valid_config (configuration c)"
    and "\<And>t j. parse t = Some j \<Longrightarrow> wf_json j"
  shows "(\<forall>n. n \<noteq> name \<and> n \<noteq> '':default-netns'' \<longrightarrow> try_get c' n = try_get c n) \<and>
     (\<not> mutable c \<longrightarrow> error_code r = - EROFS \<and> c' = c) \<and>
     (mutable c \<and> try_get c name \<noteq> None \<longrightarrow> error_code r = - EEXIST \<and> c' = c)"
  by (rule config_add_others[OF assms])

theorem config_add_frame_witness:
  "\<exists>r c'. config_add sample_parse ''root'' sample_params sample_config = Ret (r, c') \<and>
     error_code r = - EEXIST \<and> c' = sample_config"
proof -
  let ?add = "config_add sample_parse ''root'' sample_params sample_config"
  have ok: "case ?add of Ret x \<Rightarrow> mutable sample_config \<and> try_get sample_config ''root'' \<noteq> None | _ \<Rightarrow> False"
    by code_simp
  then obtain r c' where r: "?add = Ret (r, c')"
    by (auto split: res.splits)
  then show ?thesis
    using config_add_frame[OF r sample_config_valid sample_parse_wf] ok by auto
qed

section \<open>Dotted parameter names\<close>

text \<open>The path that a parameter name stands for: its parts between dots.\<close>

function split_dots :: "string \<Rightarrow> string list" where
  "split_dots s =
     (case find_char (CHR ''.'') s of
        None \<Rightarrow> [s]
      | Some i \<Rightarrow> take i s # split_dots (drop (Suc i) s))"
  by pat_completeness auto
termination
  by (relation "measure length") (auto dest: find_char_Some_less)

declare split_dots.simps [simp del]

lemma split_dots_nonempty [simp]: "split_dots s \<noteq> []"
  by (subst split_dots.simps) (simp split: option.splits)

text \<open>A name that begins with a dot is not split: the loop over the dots ends at position 0.\<close>

definition param_path :: "string \<Rightarrow> string list" where
  "param_path key = (if starts_with key (CHR ''.'') then [key] else split_dots key)"

lemma param_path_nonempty [simp]: "param_path key \<noteq> []"
  by (simp add: param_path_def)

text \<open>The loop over the dots, as a walk along a path; \<open>pos\<close> is the position in the name.\<close>

fun walk :: "nat \<Rightarrow> string list \<Rightarrow> json \<Rightarrow> json \<Rightarrow> param_result" where
  "walk pos [] v tree = ParamSet v"
| "walk pos [k] v tree = set_leaf k v tree"
| "walk pos (k # k' # ks) v tree =
     (let tree1 = (if tree = JNull then JObject [] else tree) in
      if \<not> is_object tree1 then ParamNotObject (pos + length k) tree1
      else case json_subscript k tree1 of
             Ret (tree2, child) \<Rightarrow> map_param (\<lambda>c. json_put [k] c tree2) (walk (pos + length k + 1) (k' # ks) v child)
           | _ \<Rightarrow> ParamTerminate)"

lemma walk_more: "ks \<noteq> [] \<Longrightarrow> walk pos (k # ks) v tree =
     (let tree1 = (if tree = JNull then JObject [] else tree) in
      if \<not> is_object tree1 then ParamNotObject (pos + length k) tree1
      else case json_subscript k tree1 of
             Ret (tree2, child) \<Rightarrow> map_param (\<lambda>c. json_put [k] c tree2) (walk (pos + length k + 1) ks v child)
           | _ \<Rightarrow> ParamTerminate)"
  by (cases ks) auto

declare walk.simps(3) [simp del]

lemma set_parameter_walk:
  assumes "0 < start \<or> \<not> starts_with key (CHR ''.'')" "start \<le> length key"
  shows "set_parameter key v start tree = walk start (split_dots (drop start key)) v tree"
  using assms
proof (induction key v start tree rule: set_parameter.induct)
  case (1 key v start tree)
  show ?case
  proof (cases "find_char (CHR ''.'') (drop start key)")
    case None
    then show ?thesis
      by (simp add: set_parameter.simps[of key v start tree] find_char_from_def split_dots.simps[of "drop start key"])
  next
    case (Some i)
    let ?k = "substr key start (start + i - start)"
    have dot: "find_char_from (CHR ''.'') key start = Some (start + i)"
      using Some by (simp add: find_char_from_def)
    have ne: "start + i \<noteq> 0"
      using "1.prems"(1) Some by (cases "start = 0"; cases key) (auto simp: starts_with_def split: if_splits)
    have len: "start + i < length key"
      using find_char_from_Some[OF dot] by simp
    have path: "split_dots (drop start key) = ?k # split_dots (drop (start + i + 1) key)" "length ?k = i"
      using Some len by (simp_all add: split_dots.simps[of "drop start key"] substr_def add.commute)
    have IH: "set_parameter key v (start + i + 1) child = walk (start + i + 1) (split_dots (drop (start + i + 1) key)) v child"
      if "is_object (if tree = JNull then JObject [] else tree)"
        "json_subscript ?k (if tree = JNull then JObject [] else tree) = Ret (tree2, child)" for tree2 child
      using "1.IH"[OF dot ne refl _ that(2) refl] that(1) len by simp
    let ?tree1 = "if tree = JNull then JObject [] else tree"
    have "set_parameter key v start tree =
       (if \<not> is_object ?tree1 then ParamNotObject (start + i) ?tree1
        else case json_subscript ?k ?tree1 of
               Ret (tree2, child) \<Rightarrow> map_param (\<lambda>c. json_put [?k] c tree2) (set_parameter key v (start + i + 1) child)
             | _ \<Rightarrow> ParamTerminate)"
      by (subst set_parameter.simps) (simp only: dot option.case if_not_P[OF ne] Let_def)
    also have "\<dots> = walk start (?k # split_dots (drop (start + i + 1) key)) v tree"
      unfolding walk_more[OF split_dots_nonempty] path(2) Let_def
    proof (rule if_cong[OF refl refl])
      assume "\<not> \<not> is_object ?tree1"
      then have obj: "is_object ?tree1"
        by blast
      show "(case json_subscript ?k ?tree1 of
          Ret (tree2, child) \<Rightarrow> map_param (\<lambda>c. json_put [?k] c tree2) (set_parameter key v (start + i + 1) child)
        | _ \<Rightarrow> ParamTerminate) = (case json_subscript ?k ?tree1 of
          Ret (tree2, child) \<Rightarrow> map_param (\<lambda>c. json_put [?k] c tree2)
            (walk (start + i + 1) (split_dots (drop (start + i + 1) key)) v child)
        | _ \<Rightarrow> ParamTerminate)"
      proof (cases "json_subscript ?k ?tree1")
        case (Ret x)
        then show ?thesis
          using IH[OF obj, of "fst x" "snd x"] by (cases x) simp
      qed simp_all
    qed
    finally show ?thesis
      unfolding path(1) .
  qed
qed

lemma set_parameter_path: "set_parameter key v 0 tree = walk 0 (param_path key) v tree"
proof (cases "starts_with key (CHR ''.'')")
  case True
  then show ?thesis
    by (auto simp: set_parameter.simps[of key] param_path_def find_char_from_def starts_with_def split: list.splits)
qed (simp add: param_path_def set_parameter_walk)

text \<open>A subscript on an object or on \<open>null\<close> gives the child, \<open>null\<close> if it was absent, and keeps all others.\<close>

lemma subscript_object:
  assumes "json_subscript k j = Ret (j', child)"
  shows "json_find k j' = Some child" "json_find k j = None \<and> child = JNull \<or> json_find k j = Some child"
    "k' \<noteq> k \<Longrightarrow> json_find k' j' = json_find k' j" "is_object j'"
  using assms by (cases j; auto split: option.splits)+

lemma map_param_ParamSet: "map_param f r = ParamSet j \<longleftrightarrow> (\<exists>j'. r = ParamSet j' \<and> j = f j')"
  by (cases r) auto

lemma set_leaf_Set:
  "set_leaf k v tree = ParamSet t \<longleftrightarrow> (\<exists>tree'. json_subscript k tree = Ret (tree', JNull) \<and> t = json_put [k] v tree')"
  by (auto simp: set_leaf_def simp del: json_put.simps split: res.splits)

text \<open>Two paths that part ways at some step: neither is above the other.\<close>

fun apart :: "string list \<Rightarrow> string list \<Rightarrow> bool" where
  "apart (p # ps) (q # qs) \<longleftrightarrow> p \<noteq> q \<or> apart ps qs"
| "apart _ _ \<longleftrightarrow> False"

lemma walk_stores:
  assumes "walk pos ps v tree = ParamSet t" "ps \<noteq> []"
  shows "json_at ps t = Some v \<and> json_at ps tree \<in> {None, Some JNull} \<and>
    (\<forall>qs. apart ps qs \<longrightarrow> json_at qs t = json_at qs tree) \<and> is_object t"
  using assms
proof (induction pos ps v tree arbitrary: t rule: walk.induct)
  case (2 pos k v tree)
  then obtain tree' where t: "json_subscript k tree = Ret (tree', JNull)" "t = json_put [k] v tree'"
    by (auto simp: set_leaf_Set simp del: json_put.simps)
  note sub = subscript_object[OF t(1)]
  have "json_at qs t = json_at qs tree" if "apart [k] qs" for qs
    using that sub(3) t(2) by (cases qs) (auto simp del: json_put.simps)
  moreover have "is_object t"
    using sub(1,4) t(2) by auto
  ultimately show ?case
    using sub(1,2) t(2) by (auto simp del: json_put.simps(2-))
next
  case (3 pos k k' ks v tree)
  let ?tree1 = "if tree = JNull then JObject [] else tree"
  obtain tree2 child c where obj: "is_object ?tree1" and sub: "json_subscript k ?tree1 = Ret (tree2, child)"
      and c: "walk (pos + length k + 1) (k' # ks) v child = ParamSet c" and t: "t = json_put [k] c tree2"
    using "3.prems"(1)
    by (auto simp: walk.simps(3) Let_def map_param_ParamSet simp del: json_put.simps split: if_splits res.splits)
  note IH = "3.IH"[OF refl _ sub refl c]
  have child: "json_find k t = Some c" "is_object t"
    using subscript_object(1,4)[OF sub] t by auto
  have found: "json_find n tree = json_find n ?tree1" for n
    by simp
  have was: "json_find k tree = None \<and> child = JNull \<or> json_find k tree = Some child"
    unfolding found by (rule subscript_object(2)[OF sub])
  then have below: "json_at (k # qs) tree = (if json_find k tree = None then None else json_at qs child)" for qs
    by (elim disjE conjE) simp_all
  have kept: "json_at (n # qs) t = json_at (n # qs) tree" if "n \<noteq> k" for n qs
    unfolding json_at.simps t found[of n] using subscript_object(3)[OF sub that] that by (simp del: json_put.simps)
  have absent: "json_at (q # qs) child = None" if "json_find k tree = None" for q qs
    using was that by auto
  have at: "json_at (k # k' # ks) t = json_at (k' # ks) c"
    by (simp only: json_at.simps(2)[of k] child(1) option.case)
  have "json_at qs t = json_at qs tree" if away: "apart (k # k' # ks) qs" for qs
  proof (cases qs)
    case (Cons n rest)
    show ?thesis
    proof (cases "n = k")
      case True
      then have rest: "apart (k' # ks) rest"
        using away Cons by simp
      then obtain q qs' where q: "rest = q # qs'"
        by (cases rest) simp_all
      have "json_at qs t = json_at rest c"
        unfolding Cons True json_at.simps(2) child(1) by simp
      also have "\<dots> = json_at rest child"
        using IH obj rest by blast
      also have "\<dots> = json_at qs tree"
        unfolding Cons True below using absent[of q qs'] q by (cases "json_find k tree") (simp_all only: if_True if_False simp_thms option.distinct)
      finally show ?thesis .
    qed (use kept Cons in blast)
  qed (use away in simp)
  then show ?case
    using IH obj child(2) below[of "k' # ks"] at by (auto simp del: json_at.simps)
qed simp

lemma set_parameter_at:
  "set_parameter key v 0 tree = ParamSet t \<Longrightarrow> json_at (param_path key) t = Some v"
  using walk_stores by (simp add: set_parameter_path)

lemma set_parameter_object: "set_parameter key v 0 tree = ParamSet t \<Longrightarrow> is_object t"
  using walk_stores by (simp add: set_parameter_path)

text \<open>
  C29: a parameter that is accepted for a new entity is stored at the path of its name, and nowhere
  else: \<open>a.b.c=v\<close> at \<open>a\<close>, \<open>b\<close>, \<open>c\<close>; a name that
  begins with a dot is one step, dots and all. Nothing but \<open>null\<close> was at that path before,
  so no value is overwritten, and every path that is neither above nor below it holds what it held.
\<close>

theorem set_parameter_stores:
  assumes "set_parameter key v 0 tree = ParamSet t"
  shows "json_at (param_path key) t = Some v \<and> json_at (param_path key) tree \<in> {None, Some JNull} \<and>
    (\<forall>qs. apart (param_path key) qs \<longrightarrow> json_at qs t = json_at qs tree)"
  using walk_stores[of 0 "param_path key" v tree t] assms by (simp add: set_parameter_path)

text \<open>The address beside the new role is kept; a name with a dot in front is a key of its own.\<close>

theorem set_parameter_stores_witness:
  "(\<exists>t. set_parameter ''network.role'' (JString ''root'') 0
       (JObject [(''network'', JObject [(''address'', JString ''x'')])]) = ParamSet t \<and>
     json_at [''network'', ''role''] t = Some (JString ''root'') \<and>
     json_at [''network'', ''address''] t = Some (JString ''x'')) \<and>
   (\<exists>t. set_parameter ''.a.b'' JNull 0 (JObject []) = ParamSet t \<and> json_at [''.a.b''] t = Some JNull)"
proof -
  let ?tree = "JObject [(''network'', JObject [(''address'', JString ''x'')])]"
  have "case set_parameter ''network.role'' (JString ''root'') 0 ?tree of ParamSet t \<Rightarrow> True | _ \<Rightarrow> False"
    by code_simp
  then obtain t where t: "set_parameter ''network.role'' (JString ''root'') 0 ?tree = ParamSet t"
    by (auto split: param_result.splits)
  have "param_path ''network.role'' = [''network'', ''role'']" "param_path ''.a.b'' = [''.a.b'']"
    by code_simp+
  moreover have "set_parameter ''.a.b'' JNull 0 (JObject []) = ParamSet (JObject [(''.a.b'', JNull)])"
    by code_simp
  moreover have "json_at [''network'', ''address''] t = json_at [''network'', ''address''] ?tree"
    using set_parameter_stores[OF t, THEN conjunct2, THEN conjunct2, rule_format, of "[''network'', ''address'']"]
      calculation(1) by simp
  ultimately show ?thesis
    using set_parameter_stores[OF t] set_parameter_stores[of "''.a.b''" JNull "JObject []"] t
    by (simp del: json_at.simps(2)) (simp add: json_at.simps)
qed

section \<open>Values in the way\<close>

definition plain_at :: "string list \<Rightarrow> json \<Rightarrow> bool" where
  "plain_at ps j \<longleftrightarrow> (case json_at ps j of None \<Rightarrow> False | Some x \<Rightarrow> x \<noteq> JNull \<and> \<not> is_object x)"

lemma plain_at_below:
  assumes "plain_at (k # ps) tree"
  obtains child where "is_object tree" "json_subscript k tree = Ret (tree, child)" "plain_at ps child"
  using assms by (cases tree) (auto simp: plain_at_def split: option.splits)

lemma set_leaf_plain: "x \<noteq> JNull \<Longrightarrow> \<not> is_object x \<Longrightarrow> set_leaf k v x = ParamTerminate"
  by (cases x) (simp_all add: set_leaf_def)

lemma walk_directly_below: "ps \<noteq> [] \<Longrightarrow> plain_at (butlast ps) tree \<Longrightarrow> walk pos ps v tree = ParamTerminate"
proof (induction pos ps v tree rule: walk.induct)
  case (3 pos k k' ks v tree)
  then obtain child where c: "is_object tree" "json_subscript k tree = Ret (tree, child)"
      "plain_at (butlast (k' # ks)) child"
    by (auto elim: plain_at_below)
  then show ?case
    using "3.IH"[OF refl, of "(tree, child)" tree child] by (auto simp: walk.simps(3) Let_def)
qed (auto simp: plain_at_def intro: set_leaf_plain)

lemma walk_further_below:
  "Suc i < length ps \<Longrightarrow> plain_at (take i ps) tree \<Longrightarrow> \<exists>p j. walk pos ps v tree = ParamNotObject p j"
proof (induction pos ps v tree arbitrary: i rule: walk.induct)
  case (3 pos k k' ks v tree)
  show ?case
  proof (cases i)
    case 0
    then show ?thesis
      using "3.prems"(2) by (auto simp: walk.simps(3) Let_def plain_at_def)
  next
    case (Suc l)
    then obtain child where c: "is_object tree" "json_subscript k tree = Ret (tree, child)"
        "plain_at (take l (k' # ks)) child"
      using "3.prems"(2) by (auto elim: plain_at_below)
    then obtain p j where "walk (pos + length k + 1) (k' # ks) v child = ParamNotObject p j"
      using "3.IH"[OF refl, of "(tree, child)" tree child l] "3.prems"(1) Suc by auto
    then show ?thesis
      using c by (auto simp: walk.simps(3) Let_def)
  qed
qed auto

text \<open>The tree that a list of parameters builds, if all of them are accepted.\<close>

fun build :: "(string \<Rightarrow> json option) \<Rightarrow> parameter_value list \<Rightarrow> json \<Rightarrow> json option" where
  "build parse [] j = Some j"
| "build parse (p # ps) j =
     (case set_parameter (parameter p) (param_json parse (param_value p)) 0 j of
        ParamSet j' \<Rightarrow> build parse ps j' | _ \<Rightarrow> None)"

lemma set_parameters_after:
  "build parse ps j = Some j' \<Longrightarrow> json_find name (configuration self) = Some j \<Longrightarrow>
     \<exists>self'. json_find name (configuration self') = Some j' \<and>
       set_parameters parse name (ps @ qs) self = set_parameters parse name qs self'"
proof (induction ps arbitrary: self j)
  case (Cons p ps)
  then obtain j1 where j1: "set_parameter (parameter p) (param_json parse (param_value p)) 0 j = ParamSet j1"
      "build parse ps j1 = Some j'"
    by (auto split: param_result.splits)
  let ?self = "self\<lparr>configuration := json_put [name] j1 (configuration self)\<rparr>"
  have "json_find name (configuration ?self) = Some j1"
    using Cons.prems(2) by (cases "configuration self") auto
  from Cons.IH[OF j1(2) this] show ?case
    using Cons.prems(2) j1 by simp
qed auto

lemma config_add_params:
  assumes "mutable c" "is_object (configuration c)" "json_find name (configuration c) = None"
    and "build parse ps (JObject []) = Some tree"
  obtains self where "json_find name (configuration self) = Some tree"
    "config_add parse name (ps @ qs) c =
      (case set_parameters parse name qs self of
         Throw _ \<Rightarrow> Abort | Abort \<Rightarrow> Abort
       | Ret (Some err, self') \<Rightarrow> Ret (err, self')
       | Ret (None, self') \<Rightarrow>
           (case validate_entity name (configuration self') of
              (Ret _, cfg') \<Rightarrow> Ret (success, self'\<lparr>configuration := cfg'\<rparr>)
            | (Abort, cfg') \<Rightarrow> Abort
            | (Throw e, cfg') \<Rightarrow>
                (case json_erase name cfg' of
                   Ret cfg'' \<Rightarrow> Ret (\<lparr>error_code = - EINVAL, error_message = what e\<rparr>, self'\<lparr>configuration := cfg''\<rparr>)
                 | _ \<Rightarrow> Abort)))"
proof -
  obtain m where m: "configuration c = JObject m" "map_of m name = None"
    using assms(2,3) by auto
  let ?c0 = "c\<lparr>configuration := JObject (map_set name (JObject []) m)\<rparr>"
  obtain self where self: "json_find name (configuration self) = Some tree"
      "set_parameters parse name (ps @ qs) ?c0 = set_parameters parse name qs self"
    using set_parameters_after[OF assms(4), of name ?c0 qs] by auto
  show thesis
    using assms(1) m by (intro that[OF self(1)]) (simp add: config_add_def json_count_def self(2))
qed

text \<open>
  C38: \<open>add\<close> is declared \<open>noexcept\<close>, yet on a mutable configuration without an
  entity of this name there are parameters for which it does not return: let the parameters before be
  accepted, and let the path of the next one, without its last step, hold in the tree they built a value
  that is neither an object nor \<open>null\<close> (\<open>k=v\<close> and then \<open>k.l=w\<close>).
  Then the JSON library throws inside \<open>add\<close>, and the process ends, whatever parameters
  follow. If such a value lies further up the path (\<open>k=v\<close> and then \<open>k.l.m=w\<close>),
  the check in the loop finds it and \<open>add\<close> returns \<open>-EINVAL\<close>.
\<close>

theorem config_add_terminates:
  assumes "mutable c" "is_object (configuration c)" "json_find name (configuration c) = None"
    and "build parse ps (JObject []) = Some tree"
  shows "(plain_at (butlast (param_path (parameter p))) tree \<longrightarrow> config_add parse name (ps @ p # qs) c = Abort) \<and>
    ((\<exists>i. Suc i < length (param_path (parameter p)) \<and> plain_at (take i (param_path (parameter p))) tree) \<longrightarrow>
      (\<exists>r c'. config_add parse name (ps @ p # qs) c = Ret (r, c') \<and> error_code r = - EINVAL))"
proof -
  obtain self where self: "json_find name (configuration self) = Some tree"
    and add: "config_add parse name (ps @ p # qs) c =
      (case set_parameters parse name (p # qs) self of
         Throw _ \<Rightarrow> Abort | Abort \<Rightarrow> Abort
       | Ret (Some err, self') \<Rightarrow> Ret (err, self')
       | Ret (None, self') \<Rightarrow>
           (case validate_entity name (configuration self') of
              (Ret _, cfg') \<Rightarrow> Ret (success, self'\<lparr>configuration := cfg'\<rparr>)
            | (Abort, cfg') \<Rightarrow> Abort
            | (Throw e, cfg') \<Rightarrow>
                (case json_erase name cfg' of
                   Ret cfg'' \<Rightarrow> Ret (\<lparr>error_code = - EINVAL, error_message = what e\<rparr>, self'\<lparr>configuration := cfg''\<rparr>)
                 | _ \<Rightarrow> Abort)))"
    by (rule config_add_params[OF assms])
  have "config_add parse name (ps @ p # qs) c = Abort" if "plain_at (butlast (param_path (parameter p))) tree"
    using self walk_directly_below[OF _ that] by (simp add: add set_parameter_path)
  moreover have "\<exists>r c'. config_add parse name (ps @ p # qs) c = Ret (r, c') \<and> error_code r = - EINVAL"
    if further: "Suc i < length (param_path (parameter p))" "plain_at (take i (param_path (parameter p))) tree" for i
  proof -
    obtain d j where "set_parameter (parameter p) (param_json parse (param_value p)) 0 tree = ParamNotObject d j"
      using walk_further_below[OF further, of 0 "param_json parse (param_value p)"]
      by (auto simp: set_parameter_path)
    then show ?thesis
      using self by (simp add: add)
  qed
  ultimately show ?thesis
    by blast
qed

theorem config_add_terminates_witness:
  "config_add sample_parse ''x''
     [\<lparr>parameter = ''network'', param_value = ''a''\<rparr>,
      \<lparr>parameter = ''network.role'', param_value = ''root''\<rparr>] sample_config = Abort \<and>
   (\<exists>r c'. config_add sample_parse ''x''
     [\<lparr>parameter = ''network'', param_value = ''a''\<rparr>,
      \<lparr>parameter = ''network.role.y'', param_value = ''root''\<rparr>] sample_config = Ret (r, c') \<and> error_code r = - EINVAL)"
proof -
  have new: "mutable sample_config" "is_object (configuration sample_config)"
      "json_find ''x'' (configuration sample_config) = None"
    by code_simp+
  have built: "build sample_parse [\<lparr>parameter = ''network'', param_value = ''a''\<rparr>] (JObject []) =
      Some (JObject [(''network'', JString ''a'')])"
    by code_simp
  have "plain_at (butlast (param_path ''network.role'')) (JObject [(''network'', JString ''a'')])"
    "Suc 1 < length (param_path ''network.role.y'') \<and>
      plain_at (take 1 (param_path ''network.role.y'')) (JObject [(''network'', JString ''a'')])"
    by code_simp+
  note plain = this
  show ?thesis
    using config_add_terminates[OF new built, of "\<lparr>parameter = ''network.role'', param_value = ''root''\<rparr>" "[]",
        THEN conjunct1, THEN mp] plain(1)
      config_add_terminates[OF new built, of "\<lparr>parameter = ''network.role.y'', param_value = ''root''\<rparr>" "[]",
        THEN conjunct2, THEN mp, OF exI[of _ 1]] plain(2)
    by (simp only: parameter_value.simps append.simps simp_thms)
qed

text \<open>The tree that the two parameters of a self-uplinked switch build, and its validation.\<close>

lemma key_order:
  "''role'' < ''uplink''" "'':role'' < ''role''" "'':role'' < ''uplink''"
  by code_simp+

lemma set_parameter_role:
  "set_parameter ''network.role'' v 0 (JObject []) =
     ParamSet (JObject [(''network'', JObject [(''role'', v)])])"
  by (simp add: set_parameter.simps find_char_from_def substr_def set_leaf_def)

lemma set_parameter_uplink:
  "set_parameter ''network.uplink'' u 0 (JObject [(''network'', JObject [(''role'', v)])]) =
     ParamSet (JObject [(''network'', JObject [(''role'', v), (''uplink'', u)])])"
  using key_order
  by (simp add: set_parameter.simps find_char_from_def substr_def set_leaf_def order.asym)

lemma validate_self_uplink:
  assumes "map_of m name = Some (JObject [(''network'', JObject
      [(''role'', JString ''switch''), (''uplink'', JString name)])])"
  shows "validate_entity name (JObject m) =
    (Ret (), JObject (map_set name (JObject [(''network'', JObject
       [('':role'', json_of_role Switch), (''role'', JString ''switch''), (''uplink'', JString name)])]) m))"
  using assms key_order
  by (simp add: validate_entity_def validate_network_def validate_parameter_def validate_uplink_def
      bind_vm_def ref_subscript_def read_vm_def lift_vm_def ref_assign_def ret_vm_def
      known_components_def known_network_roles_def known_parameters_def starts_with_def)

text \<open>
  An entity may name itself as its uplink: with role \<open>switch\<close> and only that uplink, \<open>add\<close>
  accepts it on every valid mutable configuration that does not have the name yet.
\<close>

theorem config_add_self_uplink:
  assumes "mutable c" "valid_config (configuration c)" "try_get c name = None" "parse name = None"
    and "parse ''switch'' = None"
  shows "\<exists>c'. config_add parse name
     [\<lparr>parameter = ''network.role'', param_value = ''switch''\<rparr>,
      \<lparr>parameter = ''network.uplink'', param_value = name\<rparr>] c = Ret (success, c') \<and>
     json_at [name, ''network'', ''uplink''] (configuration c') = Some (JString name)"
proof -
  obtain m where m: "configuration c = JObject m" "map_of m name = None"
    using assms(2,3) by (auto simp: valid_config_def try_get_def split: option.splits)
  let ?e = "JObject [(''network'', JObject [(''role'', JString ''switch''), (''uplink'', JString name)])]"
  have "validate_entity name (JObject (map_set name ?e m)) = (Ret (), JObject (map_set name (JObject
      [(''network'', JObject [('':role'', json_of_role Switch), (''role'', JString ''switch''),
         (''uplink'', JString name)])]) m))"
    using validate_self_uplink[of "map_set name ?e m" name] by simp
  then show ?thesis
    using assms(1,4,5) m
    by (simp add: config_add_def json_count_def param_json_def set_parameter_role set_parameter_uplink)
qed

theorem config_add_self_uplink_witness:
  "\<exists>c'. config_add sample_parse ''loop''
     [\<lparr>parameter = ''network.role'', param_value = ''switch''\<rparr>,
      \<lparr>parameter = ''network.uplink'', param_value = ''loop''\<rparr>] sample_config = Ret (success, c')"
proof -
  have "mutable sample_config" "try_get sample_config ''loop'' = None"
    "sample_parse ''loop'' = None" "sample_parse ''switch'' = None"
    by code_simp+
  then show ?thesis
    using config_add_self_uplink[of sample_config "''loop''" sample_parse] sample_config_valid by auto
qed

end
