(* ===== verification/Async.thy ===== *)
theory Async
  imports Common_Definitions
begin

text \<open>
  \<open>daemon/async.h\<close> and \<open>daemon/dbus.h\<close>: how a D-Bus method handler, written as a coroutine, ends.
  A promise's payload is either the method call that the coroutine answers or the handle of the
  coroutine that awaits it; \<open>return_value\<close> and \<open>yield_value\<close> send the reply, destroy the awaiting
  coroutines or resume the direct one. The second part is the callback list of
  \<open>signal_subscription\<close>.
\<close>

section \<open>Replies\<close>

text \<open>An \<open>sd_bus_error\<close>: unset (\<open>SD_BUS_ERROR_NULL\<close>), or a name and a message.\<close>

type_synonym bus_error = "(string \<times> string) option"

datatype bus_value = U64 "64 word" | U32 "32 word" | Str string | ObjectPath string

datatype reply =
    MethodReturn "bus_value list"
  | MethodErrno int bus_error
  | MethodError bus_error

datatype co_result =
    reply_status_t int bus_error
  | reply_error_t bus_error
  | unit_t

text \<open>\<open>sd_bus_error_set_const\<close> with both a name and a message.\<close>

definition reply_error_const :: "string \<Rightarrow> string \<Rightarrow> co_result" where
  "reply_error_const name description = reply_error_t (Some (name, description))"

definition reply_status :: "int \<Rightarrow> co_result" where
  "reply_status code = reply_status_t code None"

definition reply_status_error :: "int \<Rightarrow> bus_error \<Rightarrow> co_result" where
  "reply_status_error code error = reply_status_t code error"

definition reply_status_const :: "int \<Rightarrow> string \<Rightarrow> string \<Rightarrow> co_result" where
  "reply_status_const code name description = reply_status_t code (Some (name, description))"

text \<open>What the calls into sd-bus return while one method call is handled.\<close>

record bus =
  reply_method_error :: int
  reply_method_errno :: int
  reply_method_return :: int

section \<open>Promises\<close>

text \<open>\<open>_payload\<close>: the message to answer, or the awaiting coroutine with its own promise's payload.\<close>

datatype payload = Message nat | Handle nat payload

datatype event =
    Sent nat reply
  | Destroyed nat
  | Resumed nat

fun root_message :: "payload \<Rightarrow> nat" where
  "root_message (Message m) = m"
| "root_message (Handle h p) = root_message p"

fun awaiting :: "payload \<Rightarrow> nat list" where
  "awaiting (Message m) = []"
| "awaiting (Handle h p) = h # awaiting p"

fun return_error :: "bus \<Rightarrow> payload \<Rightarrow> bus_error \<Rightarrow> event list res" where
  "return_error bus (Message m) error =
     (if reply_method_error bus < 0 then Abort else Ret [Sent m (MethodError error)])"
| "return_error bus (Handle h p) error =
     bind_res (return_error bus p error) (\<lambda>es. Ret (es @ [Destroyed h]))"

fun return_status :: "bus \<Rightarrow> payload \<Rightarrow> int \<Rightarrow> bus_error \<Rightarrow> event list res" where
  "return_status bus (Message m) code error =
     (if code < 0 then
        if reply_method_errno bus < 0 then Abort else Ret [Sent m (MethodErrno code error)]
      else Ret [])"
| "return_status bus (Handle h p) code error =
     bind_res (return_status bus p code error) (\<lambda>es. Ret (es @ [Destroyed h]))"

fun return_unit :: "payload \<Rightarrow> event list res" where
  "return_unit (Message m) = Abort"
| "return_unit (Handle h p) = Ret [Resumed h]"

fun return_value :: "bus \<Rightarrow> payload \<Rightarrow> co_result \<Rightarrow> event list res" where
  "return_value bus p (reply_error_t error) = return_error bus p error"
| "return_value bus p (reply_status_t code error) = return_status bus p code error"
| "return_value bus p unit_t = return_unit p"

text \<open>
  \<open>co_yield\<close> of a status: a negative one ends the coroutine like \<open>co_return reply_status(code)\<close> and
  the coroutine frame itself (\<open>self\<close>) is destroyed; any other one continues.
\<close>

definition yield_value :: "bus \<Rightarrow> payload \<Rightarrow> nat \<Rightarrow> int \<Rightarrow> event list res option" where
  "yield_value bus p self code =
     (if code < 0
      then Some (bind_res (return_status bus p code None) (\<lambda>es. Ret (es @ [Destroyed self])))
      else None)"

section \<open>Method handlers\<close>

text \<open>
  A handler that is run to its end without suspending: its body yields a result, or stops at a
  \<open>co_yield\<close> with a negative status, having changed the state. \<open>ret_error\<close> is the error object of
  the caller in sd-bus that the body may have filled in.
\<close>

record 's outcome =
  sent :: "reply list"
  ret_error :: bus_error
  state :: 's

definition replies :: "event list \<Rightarrow> reply list" where
  "replies es = concat (map (\<lambda>e. case e of Sent m r \<Rightarrow> [r] | _ \<Rightarrow> []) es)"

text \<open>\<open>co_return r\<close> of a top-level coroutine, after the replies \<open>out\<close> were sent explicitly.\<close>

definition co_return :: "bus \<Rightarrow> reply list \<Rightarrow> bus_error \<Rightarrow> 's \<Rightarrow> co_result \<Rightarrow> 's outcome res" where
  "co_return bus out err s r =
     bind_res (return_value bus (Message 0) r)
       (\<lambda>es. Ret \<lparr>sent = out @ replies es, ret_error = err, state = s\<rparr>)"

text \<open>\<open>co_yield log_and_reply_on_error(code, ...)\<close> in a top-level coroutine.\<close>

definition co_yield :: "bus \<Rightarrow> int \<Rightarrow> 's \<Rightarrow> 's outcome res \<Rightarrow> 's outcome res" where
  "co_yield bus code s k =
     (case yield_value bus (Message 0) 0 code of
        Some r \<Rightarrow> bind_res r (\<lambda>es. Ret \<lparr>sent = replies es, ret_error = None, state = s\<rparr>)
      | None \<Rightarrow> k)"

text \<open>\<open>co_return reply_status(sd_bus_reply_method_return(message, ...))\<close>.\<close>

definition co_return_reply :: "bus \<Rightarrow> 's \<Rightarrow> bus_value list \<Rightarrow> 's outcome res" where
  "co_return_reply bus s vals =
     co_return bus (if reply_method_return bus < 0 then [] else [MethodReturn vals]) None s
       (reply_status (reply_method_return bus))"

section \<open>Signal subscriptions\<close>

text \<open>
  \<open>_callbacks\<close>: each entry is empty or holds a callback. A callback maps a message to its result
  and to what it does to the world (\<open>'w\<close>: resuming the awaiting coroutine). The entry is taken out
  before the callback runs; it is put back when the result is not positive.
\<close>

type_synonym ('m, 'w) callback = "'m \<Rightarrow> 'w \<Rightarrow> int \<times> 'w"

fun signal_callback ::
    "'m \<Rightarrow> ('m, 'w) callback option list \<Rightarrow> 'w \<Rightarrow> int \<times> ('m, 'w) callback option list \<times> 'w" where
  "signal_callback msg [] w = (0, [], w)"
| "signal_callback msg (None # cs) w =
     (let (r, cs', w') = signal_callback msg cs w in (r, None # cs', w'))"
| "signal_callback msg (Some f # cs) w =
     (let (result, w1) = f msg w in
      if result > 0 then (result, None # cs, w1)
      else let (r, cs', w') = signal_callback msg cs w1 in (r, Some f # cs', w'))"

text \<open>
  \<open>match<KeyIndex>(key)\<close>: the callback pushed by \<open>await_suspend\<close>. It reads the message's arguments
  and compares the selected one with the key; without an index (\<open>KeyIndex == -1\<close>) every message
  matches. On a match the coroutine \<open>handle\<close> is resumed with the message.
\<close>

definition match_callback ::
    "nat option \<Rightarrow> bus_value \<Rightarrow> nat \<Rightarrow> (bus_value list, (nat \<times> bus_value list) list) callback" where
  "match_callback index key handle args w =
     (if (case index of None \<Rightarrow> True | Some i \<Rightarrow> args ! i = key)
      then (1, w @ [(handle, args)]) else (0, w))"

definition await_match ::
    "nat option \<Rightarrow> bus_value \<Rightarrow> nat \<Rightarrow>
     (bus_value list, (nat \<times> bus_value list) list) callback option list \<Rightarrow>
     (bus_value list, (nat \<times> bus_value list) list) callback option list" where
  "await_match index key handle cs = cs @ [Some (match_callback index key handle)]"

definition key_matches :: "nat option \<Rightarrow> bus_value \<Rightarrow> bus_value list \<Rightarrow> bool" where
  "key_matches index key args \<longleftrightarrow> (case index of None \<Rightarrow> True | Some i \<Rightarrow> args ! i = key)"

text \<open>A callback list that was built by \<open>match\<close> alone: index, key and awaiting coroutine.\<close>

type_synonym match_entry = "(nat option \<times> bus_value \<times> nat) option"

definition match_callbacks :: "match_entry list \<Rightarrow>
    (bus_value list, (nat \<times> bus_value list) list) callback option list" where
  "match_callbacks es = map (map_option (\<lambda>(index, key, h). match_callback index key h)) es"

definition entry_matches :: "bus_value list \<Rightarrow> match_entry \<Rightarrow> bool" where
  "entry_matches args e = (case e of None \<Rightarrow> False | Some (index, key, h) \<Rightarrow> key_matches index key args)"

lemma await_match_callbacks:
  "await_match index key h (match_callbacks es) = match_callbacks (es @ [Some (index, key, h)])"
  by (simp add: await_match_def match_callbacks_def)

lemma match_callback_result:
  "match_callback index key h args w =
     (if key_matches index key args then (1, w @ [(h, args)]) else (0, w))"
  by (simp add: match_callback_def key_matches_def)

lemma signal_no_match:
  "\<forall>e \<in> set es. \<not> entry_matches args e \<Longrightarrow>
     signal_callback args (match_callbacks es) w = (0, match_callbacks es, w)"
proof (induction es)
  case (Cons e es)
  then show ?case
    by (cases e) (auto simp: match_callbacks_def entry_matches_def match_callback_result)
qed (simp add: match_callbacks_def)

lemma signal_skip:
  assumes "\<forall>e \<in> set es. \<not> entry_matches args e"
  shows "signal_callback args (match_callbacks es @ cs) w =
    (let (r, cs', w') = signal_callback args cs w in (r, match_callbacks es @ cs', w'))"
  using assms
proof (induction es)
  case (Cons e es)
  then show ?case
    by (cases e) (auto simp: match_callbacks_def entry_matches_def match_callback_result split: prod.splits)
qed (simp add: match_callbacks_def)

section \<open>Properties\<close>

lemma replies_simps [simp]:
  "replies [] = []"
  "replies (Sent m r # es) = r # replies es"
  "replies (Destroyed h # es) = replies es"
  "replies (Resumed h # es) = replies es"
  by (simp_all add: replies_def)

lemma co_yield_ok [simp]: "0 \<le> code \<Longrightarrow> co_yield bus code s k = k"
  by (simp add: co_yield_def yield_value_def)

lemma co_yield_error:
  "code < 0 \<Longrightarrow> 0 \<le> reply_method_errno bus \<Longrightarrow>
     co_yield bus code s k = Ret \<lparr>sent = [MethodErrno code None], ret_error = None, state = s\<rparr>"
  by (simp add: co_yield_def yield_value_def)

lemma co_return_status:
  "0 \<le> reply_method_errno bus \<Longrightarrow>
     co_return bus out err s (reply_status_t code e) =
       Ret \<lparr>sent = out @ (if code < 0 then [MethodErrno code e] else []), ret_error = err, state = s\<rparr>"
  by (simp add: co_return_def)

lemma co_return_Ret:
  "co_return bus out err s r = Ret ou \<Longrightarrow> state ou = s \<and> ret_error ou = err"
  by (auto simp: co_return_def)

lemma co_return_reply_Ret:
  "co_return_reply bus s vals = Ret ou \<Longrightarrow> state ou = s \<and> ret_error ou = None \<and>
     sent ou = [if reply_method_return bus < 0 then MethodErrno (reply_method_return bus) None
                else MethodReturn vals]"
  by (auto simp: co_return_reply_def co_return_def reply_status_def split: if_splits)

lemma return_error_chain:
  "return_error bus p error =
     (if reply_method_error bus < 0 then Abort
      else Ret (Sent (root_message p) (MethodError error) # map Destroyed (rev (awaiting p))))"
  by (induction p) auto

lemma return_status_chain:
  "return_status bus p code error =
     (if code < 0 \<and> reply_method_errno bus < 0 then Abort
      else Ret ((if code < 0 then [Sent (root_message p) (MethodErrno code error)] else [])
                @ map Destroyed (rev (awaiting p))))"
  by (induction p) auto

text \<open>
  C36: an error or a negative status returned by a coroutine at any depth of \<open>co_await\<close> nesting is
  sent to the method call at the root of the chain exactly once, unless sending fails, which ends
  the process; and every awaiting coroutine is destroyed exactly once, the outermost one first. A
  status that is not negative sends nothing at all.
\<close>

theorem return_value_unwinds:
  "return_value bus p (reply_error_t error) =
     (if reply_method_error bus < 0 then Abort
      else Ret (Sent (root_message p) (MethodError error) # map Destroyed (rev (awaiting p)))) \<and>
   return_value bus p (reply_status_t code error) =
     (if code < 0 \<and> reply_method_errno bus < 0 then Abort
      else Ret ((if code < 0 then [Sent (root_message p) (MethodErrno code error)] else [])
                @ map Destroyed (rev (awaiting p))))"
  by (simp add: return_error_chain return_status_chain)

text \<open>
  A signal resumes exactly the first coroutine in waiting order whose key matches, and empties
  its entry, so the next equal signal cannot resume it again; the other entries keep waiting.
\<close>

theorem signal_first_match_only:
  assumes "i < length es" "es ! i = Some (index, key, h)" "key_matches index key args"
    and "\<And>j. j < i \<Longrightarrow> \<not> entry_matches args (es ! j)"
  shows "signal_callback args (match_callbacks es) w =
    (1, match_callbacks (es[i := None]), w @ [(h, args)])"
proof -
  have es: "es = take i es @ Some (index, key, h) # drop (Suc i) es"
    using id_take_nth_drop[OF assms(1)] assms(2) by simp
  have skip: "\<forall>e \<in> set (take i es). \<not> entry_matches args e"
    using assms(1,4) by (auto simp: in_set_conv_nth)
  have "signal_callback args (match_callbacks (take i es @ Some (index, key, h) # drop (Suc i) es)) w =
     (1, match_callbacks (take i es @ None # drop (Suc i) es), w @ [(h, args)])"
    using signal_skip[OF skip, of "match_callbacks (Some (index, key, h) # drop (Suc i) es)" w] assms(3)
    by (simp add: match_callbacks_def match_callback_result)
  then show ?thesis
    using es[symmetric] assms(1) by (simp add: upd_conv_take_nth_drop)
qed

text \<open>Two coroutines wait for the job path \<open>/j1\<close> and one for \<open>/j2\<close>; a signal for \<open>/j1\<close> arrives twice.\<close>

theorem signal_first_match_only_witness:
  "let es = [Some (Some 1, ObjectPath ''/j2'', 7), Some (Some 1, ObjectPath ''/j1'', 8),
             Some (Some 1, ObjectPath ''/j1'', 9)];
       args = [U32 4, ObjectPath ''/j1'', Str ''a.slice'', Str ''done'']
   in signal_callback args (match_callbacks es) [] =
        (1, match_callbacks (es[1 := None]), [(8, args)]) \<and>
      signal_callback args (match_callbacks (es[1 := None])) [(8, args)] =
        (1, match_callbacks (es[1 := None, 2 := None]), [(8, args), (9, args)])"
  unfolding Let_def
  by (intro conjI; subst signal_first_match_only[where i = 1] signal_first_match_only[where i = 2])
    (auto simp: key_matches_def entry_matches_def less_Suc_eq numeral_2_eq_2)

end
