(* ===== verification/Transactions.thy ===== *)
theory Transactions
  imports Config_Properties Async
begin

text \<open>
  \<open>daemon/transaction.cpp\<close> and \<open>daemon/transactions.cpp\<close>: transactions collect operations for the
  running configuration under an owner; the transaction manager creates, commits and discards
  them. Each D-Bus method is a function from what the calls into sd-bus return and the state to
  the replies sent and the new state.
\<close>

section \<open>Transactions\<close>

type_synonym uid = "32 word"

datatype operation =
    add_op string "parameter_value list"
  | set_op string "parameter_value list"
  | delete_op string

record transaction =
  txn_id :: "64 word"
  object_path :: string
  owner :: uid
  operations :: "operation list"

text \<open>The object path: the id in hexadecimal, padded with zeros to sixteen digits.\<close>

definition transaction_path :: "64 word \<Rightarrow> string" where
  "transaction_path i =
     ''/info/griwes/nonsense/configuration/transactions/'' @ pad_zero 16 (show_hex (unat i))"

text \<open>The constructor: \<open>vtable\<close> is what \<open>sd_bus_add_object_vtable\<close> returns, a failure is asserted away.\<close>

definition new_transaction :: "int \<Rightarrow> 64 word \<Rightarrow> uid \<Rightarrow> transaction res" where
  "new_transaction vtable i u =
     (if vtable < 0 then Abort
      else Ret \<lparr>txn_id = i, object_path = transaction_path i, owner = u, operations = []\<rparr>)"

text \<open>The sender of a message, as \<open>sd_bus_query_sender_creds\<close> and \<open>sd_bus_creds_get_uid\<close> tell it.\<close>

record sender =
  query_sender_creds :: int
  creds_get_uid :: int
  sender_uid :: uid

text \<open>
  The body of an \<open>Add\<close> call as the reading functions deliver it: the status of each call, the
  name, one item per struct that was entered (status and strings read, status of leaving it), the
  status that ended the loop, and the status of leaving the array.
\<close>

record add_message =
  name_status :: int
  add_name :: string
  array_status :: int
  items :: "(int \<times> string \<times> string \<times> int) list"
  end_status :: int
  exit_status :: int

text \<open>The loop over the structs: the parameters collected so far, or the first negative status.\<close>

fun read_items :: "(int \<times> string \<times> string \<times> int) list \<Rightarrow> parameter_value list \<Rightarrow>
    int + parameter_value list" where
  "read_items [] acc = Inr acc"
| "read_items ((read, p, v, leave) # xs) acc =
     (if read < 0 then Inl read
      else if leave < 0 then Inl leave
      else read_items xs (acc @ [\<lparr>parameter = p, param_value = v\<rparr>]))"

definition method_serialize :: "bus \<Rightarrow> transaction \<Rightarrow> transaction outcome res" where
  "method_serialize bus self = co_return bus [] None self (reply_status (- ENOSYS))"

definition method_add :: "bus \<Rightarrow> sender \<Rightarrow> add_message \<Rightarrow> transaction \<Rightarrow> transaction outcome res" where
  "method_add bus from msg self =
     (if query_sender_creds from < 0 then Abort
      else co_yield bus (creds_get_uid from) self
        (if sender_uid from \<noteq> owner self \<and> sender_uid from \<noteq> 0 then
           co_return bus [] None self
             (reply_status_const (- EACCES) ''info.griwes.nonsense.AccessDenied''
                ''You do not have permissions to modify this transaction.'')
         else co_yield bus (name_status msg) self
           (co_yield bus (array_status msg) self
             (case read_items (items msg) [] of
                Inl status \<Rightarrow> co_yield bus status self Abort
              | Inr params \<Rightarrow> co_yield bus (end_status msg) self
                  (co_yield bus (exit_status msg) self
                    (co_return_reply bus
                      (self\<lparr>operations := operations self @ [add_op (add_name msg) params]\<rparr>) []))))))"

definition method_set :: "bus \<Rightarrow> transaction \<Rightarrow> transaction outcome res" where
  "method_set bus self = co_return bus [] None self (reply_status (- ENOSYS))"

definition method_delete :: "bus \<Rightarrow> transaction \<Rightarrow> transaction outcome res" where
  "method_delete bus self = co_return bus [] None self (reply_status (- ENOSYS))"

text \<open>The \<open>Owner\<close> property: the three assertions on the request, then the value appended.\<close>

definition property_owner_get :: "string \<Rightarrow> string \<Rightarrow> string \<Rightarrow> transaction \<Rightarrow> bus_value list res" where
  "property_owner_get path iface prop self =
     (if path = object_path self \<and> iface = ''info.griwes.nonsense.Transaction'' \<and> prop = ''Owner''
      then Ret [U32 (owner self)] else Abort)"

section \<open>The transaction manager\<close>

text \<open>\<open>_transactions\<close> is an ordered map; \<open>_running_config\<close> refers to the running configuration.\<close>

record transactions =
  running_config :: config
  txns :: "(64 word \<times> transaction) list"

definition method_list :: "bus \<Rightarrow> transactions \<Rightarrow> transactions outcome res" where
  "method_list bus self = co_return bus [] None self (reply_status (- ENOSYS))"

text \<open>
  Drawing ids until one is unused. \<open>rand n\<close> is the n-th value drawn from the engine; the loop may
  in principle not end, which is \<open>None\<close>.
\<close>

partial_function (option) draw_id ::
    "(nat \<Rightarrow> 64 word) \<Rightarrow> (64 word \<times> transaction) list \<Rightarrow> nat \<Rightarrow> (64 word \<times> nat) option" where
  "draw_id rand m n =
     (if map_of m (rand n) \<noteq> None then draw_id rand m (Suc n) else Some (rand n, Suc n))"

declare draw_id.simps [code]

text \<open>\<open>New\<close>, given the id that the drawing loop ended with.\<close>

definition method_new_with :: "bus \<Rightarrow> sender \<Rightarrow> int \<Rightarrow> 64 word \<Rightarrow> transactions \<Rightarrow>
    transactions outcome res" where
  "method_new_with bus from vtable i self =
     (if query_sender_creds from < 0 then Abort
      else co_yield bus (creds_get_uid from) self
        (bind_res (new_transaction vtable i (sender_uid from)) (\<lambda>t.
           if map_of (txns self) i \<noteq> None then Abort
           else co_return_reply bus (self\<lparr>txns := map_set i t (txns self)\<rparr>)
                  [U64 i, ObjectPath (object_path t)])))"

definition method_new :: "bus \<Rightarrow> int \<Rightarrow> sender \<Rightarrow> int \<Rightarrow> (nat \<Rightarrow> 64 word) \<Rightarrow> nat \<Rightarrow> transactions \<Rightarrow>
    transactions outcome res option" where
  "method_new bus read from vtable rand n self =
     (if read < 0 then Some (co_yield bus read self Abort)
      else map_option (\<lambda>(i, n'). method_new_with bus from vtable i self) (draw_id rand (txns self) n))"

text \<open>The visitor of \<open>Commit\<close>: status, the error put into the caller's error object, and the copy.\<close>

definition apply_operation :: "(string \<Rightarrow> json option) \<Rightarrow> operation \<Rightarrow> config \<Rightarrow>
    (int \<times> bus_error \<times> config) res" where
  "apply_operation parse oper copy =
     (case oper of
        add_op name params \<Rightarrow>
          if try_get copy name \<noteq> None then
            Ret (- EEXIST, Some (''info.griwes.nonsense.EntityAlreadyExists'',
               ''The transaction attempted to create an entity that already exists: '' @ name @ ''.''),
               copy)
          else
            bind_res (config_add parse name params copy) (\<lambda>(r, copy').
              if error_code r < 0 then
                Ret (error_code r,
                     Some (''info.griwes.nonsense.InvalidEntityParameters'', error_message r), copy')
              else Ret (0, None, copy'))
      | _ \<Rightarrow>
          Ret (- ENOSYS, Some (''info.griwes.nonsense.NotImplementedYet'',
            ''A transaction containing this kind of an operation is not implemented yet.''), copy))"

fun apply_operations :: "(string \<Rightarrow> json option) \<Rightarrow> operation list \<Rightarrow> config \<Rightarrow>
    (int \<times> bus_error \<times> config) res" where
  "apply_operations parse [] copy = Ret (0, None, copy)"
| "apply_operations parse (oper # ops) copy =
     bind_res (apply_operation parse oper copy) (\<lambda>(status, err, copy').
       if status \<noteq> 0 then Ret (status, err, copy') else apply_operations parse ops copy')"

definition method_commit :: "(string \<Rightarrow> json option) \<Rightarrow> bus \<Rightarrow> int \<Rightarrow> 64 word \<Rightarrow> sender \<Rightarrow>
    transactions \<Rightarrow> transactions outcome res" where
  "method_commit parse bus read i from self =
     co_yield bus read self
       (case map_of (txns self) i of
          None \<Rightarrow>
            co_return bus [] None self
              (reply_status_const (- EINVAL) ''info.griwes.nonsense.InvalidTransactionId''
                 ''The transaction ID requested to be committed is not valid.'')
        | Some t \<Rightarrow>
            if query_sender_creds from < 0 then Abort
            else co_yield bus (creds_get_uid from) self
              (if sender_uid from \<noteq> owner t \<and> sender_uid from \<noteq> 0 then
                 co_return bus [] None self
                   (reply_status_const (- EACCES) ''info.griwes.nonsense.AccessDenied''
                      ''You do not have permissions to commit this transaction.'')
               else
                 bind_res (apply_operations parse (operations t) (config_copy (running_config self)))
                   (\<lambda>(status, err, copy).
                      if status \<noteq> 0 then
                        co_return bus [] err self (reply_status_error status err)
                      else
                        co_return_reply bus
                          \<lparr>running_config = config_assign (running_config self) copy,
                            txns = map_erase i (txns self)\<rparr> [])))"

definition method_discard :: "bus \<Rightarrow> int \<Rightarrow> 64 word \<Rightarrow> sender \<Rightarrow> transactions \<Rightarrow>
    transactions outcome res" where
  "method_discard bus read i from self =
     co_yield bus read self
       (case map_of (txns self) i of
          None \<Rightarrow>
            co_return bus [] None self
              (reply_status_const (- EINVAL) ''info.griwes.nonsense.InvalidTransactionId''
                 ''The transaction ID requested to be discarded is not valid.'')
        | Some t \<Rightarrow>
            if query_sender_creds from < 0 then Abort
            else co_yield bus (creds_get_uid from) self
              (if sender_uid from \<noteq> owner t \<and> sender_uid from \<noteq> 0 then
                 co_return bus [] None self
                   (reply_status_const (- EACCES) ''info.griwes.nonsense.AccessDenied''
                      ''You do not have permissions to modify this transaction.'')
               else co_return_reply bus (self\<lparr>txns := map_erase i (txns self)\<rparr>) []))"

end
