(* ===== verification/Transactions_Properties.thy ===== *)
theory Transactions_Properties
  imports Transactions
begin

text \<open>
  What the transaction manager guarantees: unused ids, access control by owner, atomic commits, a
  running configuration that stays valid, and one reply per method call. The states are those
  reachable by any sequence of D-Bus calls.
\<close>

section \<open>Ids and object paths\<close>

lemma draw_id_fresh:
  "draw_id rand m n = Some r \<Longrightarrow> map_of m (fst r) = None \<and> n < snd r \<and> fst r = rand (snd r - 1)"
proof (erule draw_id.raw_induct[rotated 1], goal_cases)
  case (1 draw rand m n r)
  show ?case
  proof (cases "map_of m (rand n)")
    case (Some t)
    then have "draw rand m (Suc n) = Some r"
      using 1(2) by simp
    from 1(1)[OF this] show ?thesis by (metis Suc_lessD)
  qed (use 1(2) in auto)
qed

lemmas draw_id_Some = draw_id_fresh[where r = "(i, k)" for i k, simplified]

lemma draw_id_unused:
  "map_of m (rand (n + d)) = None \<Longrightarrow> \<exists>i k'. draw_id rand m n = Some (i, k') \<and> k' \<le> Suc (n + d)"
proof (induction d arbitrary: n)
  case (Suc d)
  then show ?case
    using Suc.IH[of "Suc n"] by (subst draw_id.simps) auto
qed (simp add: draw_id.simps)

text \<open>Among more draws than there are transactions, one is unused, if the draws differ.\<close>

lemma draws_pigeonhole:
  assumes "inj_on rand {n..n + length m}"
  shows "\<exists>k \<in> {n..n + length m}. map_of m (rand k) = None"
proof (rule ccontr)
  assume "\<not> ?thesis"
  then have "rand ` {n..n + length m} \<subseteq> fst ` set m"
    by (auto simp: map_of_eq_None_iff)
  then have "card (rand ` {n..n + length m}) \<le> card (fst ` set m)"
    by (simp add: card_mono)
  also have "\<dots> \<le> length m"
    using card_length[of "map fst m"] by simp
  finally show False
    using assms by (simp add: card_image)
qed

lemma transaction_path_inject [simp]: "transaction_path i = transaction_path j \<longleftrightarrow> i = j"
  by (simp add: transaction_path_def pad_zero_hex_inject word_unat_eq_iff)

section \<open>Applying operations\<close>

text \<open>What the code relies on in \<open>nlohmann::json::parse\<close>: the value it returns is well formed.\<close>

definition wf_parser :: "(string \<Rightarrow> json option) \<Rightarrow> bool" where
  "wf_parser parse \<longleftrightarrow> (\<forall>t j. parse t = Some j \<longrightarrow> wf_json j)"

lemma wf_parserD: "wf_parser parse \<Longrightarrow> parse t = Some j \<Longrightarrow> wf_json j"
  by (simp add: wf_parser_def)

lemma config_add_code:
  assumes "config_add parse name ps c = Ret (r, c')" "valid_config (configuration c)"
    and parse: "wf_parser parse"
  shows "error_code r \<le> 0"
proof -
  have wf: "wf_json (configuration c)" "is_object (configuration c)"
    using assms(2) by (auto simp: valid_config_def)
  show ?thesis
    by (rule config_add_cases[OF assms(1) wf wf_parserD[OF parse]])
      (auto simp: errno_defs add_failed_def add_succeeded_def success_def)
qed

lemma config_add_mutable:
  assumes "config_add parse name ps c = Ret (r, c')" "valid_config (configuration c)"
    and parse: "wf_parser parse" and "error_code r = 0"
  shows "mutable c' = mutable c"
proof -
  have wf: "wf_json (configuration c)" "is_object (configuration c)"
    using assms(2) by (auto simp: valid_config_def)
  show ?thesis
    by (rule config_add_cases[OF assms(1) wf wf_parserD[OF parse]])
      (use assms(4) in \<open>auto simp: errno_defs add_failed_def add_succeeded_def\<close>)
qed

fun added_name :: "operation \<Rightarrow> string option" where
  "added_name (add_op n ps) = Some n"
| "added_name (set_op n ps) = None"
| "added_name (delete_op n) = None"

text \<open>Everything that holds after operations were applied with status 0.\<close>

definition applied :: "operation list \<Rightarrow> config \<Rightarrow> config \<Rightarrow> bool" where
  "applied ops c c' \<longleftrightarrow>
     valid_config (configuration c') \<and>
     (\<forall>oper \<in> set ops. \<exists>n. added_name oper = Some n \<and>
        (n \<noteq> '':default-netns'' \<longrightarrow> try_get c n = None \<and> try_get c' n \<noteq> None)) \<and>
     (\<forall>n. Some n \<notin> added_name ` set ops \<and> n \<noteq> '':default-netns'' \<longrightarrow> try_get c' n = try_get c n)"

lemma apply_operation_status:
  assumes "apply_operation parse oper c = Ret (status, err, c')" "valid_config (configuration c)"
    and parse: "wf_parser parse"
  shows "status \<le> 0 \<and> (status = 0 \<longleftrightarrow> err = None)"
  using assms
  by (cases oper) (auto simp: apply_operation_def errno_defs split: if_splits dest: config_add_code)

lemma apply_operation_ok:
  assumes "apply_operation parse oper c = Ret (0, err, c')" "valid_config (configuration c)"
    and parse: "wf_parser parse"
  shows "mutable c' = mutable c" "applied [oper] c c'"
proof -
  obtain n ps r where op: "oper = add_op n ps" "try_get c n = None"
      and run: "config_add parse n ps c = Ret (r, c')" "\<not> error_code r < 0"
    using assms(1) by (cases oper) (auto simp: apply_operation_def errno_defs split: if_splits)
  have code: "error_code r = 0"
    using config_add_code[OF run(1) assms(2) parse] run(2) by simp
  show "mutable c' = mutable c"
    by (rule config_add_mutable[OF run(1) assms(2) parse code])
  show "applied [oper] c c'"
    using config_add_keeps_valid[OF run(1) code assms(2) wf_parserD[OF parse]] op by (simp add: applied_def)
qed

lemma applied_Nil: "applied [] c c' \<longleftrightarrow> valid_config (configuration c') \<and>
    (\<forall>n. n \<noteq> '':default-netns'' \<longrightarrow> try_get c' n = try_get c n)"
  by (auto simp: applied_def)

lemma applied_Cons:
  assumes "applied [oper] c c1" "applied ops c1 c'"
  shows "applied (oper # ops) c c'"
proof -
  obtain n where n: "added_name oper = Some n"
    using assms(1) by (auto simp: applied_def)
  then have one: "n \<noteq> '':default-netns'' \<Longrightarrow> try_get c n = None \<and> try_get c1 n \<noteq> None"
      "\<And>k. k \<noteq> n \<Longrightarrow> k \<noteq> '':default-netns'' \<Longrightarrow> try_get c1 k = try_get c k"
    using assms(1) by (auto simp: applied_def)
  have new: "Some n \<notin> added_name ` set ops \<or> n = '':default-netns''"
    using assms(2) one(1) by (fastforce simp: applied_def)
  show ?thesis
    unfolding applied_def
  proof (intro conjI ballI allI impI)
    show "valid_config (configuration c')"
      using assms(2) by (simp add: applied_def)
  next
    fix oper' assume "oper' \<in> set (oper # ops)"
    then consider "oper' = oper" | "oper' \<in> set ops" by auto
    then show "\<exists>n. added_name oper' = Some n \<and>
        (n \<noteq> '':default-netns'' \<longrightarrow> try_get c n = None \<and> try_get c' n \<noteq> None)"
    proof cases
      case 1
      then show ?thesis
        using n one(1) new assms(2) by (auto simp: applied_def)
    next
      case 2
      then obtain k where k: "added_name oper' = Some k"
          "k \<noteq> '':default-netns'' \<Longrightarrow> try_get c1 k = None \<and> try_get c' k \<noteq> None"
        using assms(2) unfolding applied_def by blast
      moreover have "k = n \<Longrightarrow> k = '':default-netns''"
        using k one(1) by blast
      ultimately show ?thesis
        using one(2)[of k] by (cases "k = n") auto
    qed
  next
    fix k assume "Some k \<notin> added_name ` set (oper # ops) \<and> k \<noteq> '':default-netns''"
    then show "try_get c' k = try_get c k"
      using assms(2) n one(2)[of k] by (auto simp: applied_def)
  qed
qed

lemma apply_operations_status:
  assumes "apply_operations parse ops c = Ret (status, err, c')" "valid_config (configuration c)"
    and parse: "wf_parser parse"
  shows "status \<le> 0 \<and> (status = 0 \<longleftrightarrow> err = None) \<and>
    (status = 0 \<longrightarrow> mutable c' = mutable c \<and> applied ops c c')"
  using assms(1,2)
proof (induction ops arbitrary: c)
  case (Cons oper ops)
  obtain st er c1 where one: "apply_operation parse oper c = Ret (st, er, c1)"
    using Cons.prems by auto
  note st = apply_operation_status[OF one Cons.prems(2) parse]
  show ?case
  proof (cases "st = 0")
    case True
    note ok = apply_operation_ok[OF one[unfolded True] Cons.prems(2) parse]
    have rest: "apply_operations parse ops c1 = Ret (status, err, c')"
      using Cons.prems one True by simp
    have "valid_config (configuration c1)"
      using ok(2) by (simp add: applied_def)
    from Cons.IH[OF rest this] show ?thesis
      using ok applied_Cons by blast
  qed (use st one Cons.prems in auto)
qed (simp add: applied_Nil)

section \<open>Reachable states\<close>

definition txns_inv :: "transactions \<Rightarrow> bool" where
  "txns_inv s \<longleftrightarrow>
     valid_config (configuration (running_config s)) \<and> map_wf (txns s) \<and>
     (\<forall>i t. map_of (txns s) i = Some t \<longrightarrow> txn_id t = i \<and> object_path t = transaction_path i)"

text \<open>
  One D-Bus call on the transaction manager, or on the object of a live transaction, which sd-bus
  finds by its path. Every status that sd-bus may return is allowed.
\<close>

inductive txn_step :: "(string \<Rightarrow> json option) \<Rightarrow> transactions \<Rightarrow> transactions \<Rightarrow> bool" for parse where
  step_list: "method_list bus s = Ret ou \<Longrightarrow> txn_step parse s (state ou)"
| step_new: "method_new bus read from vtable rand n s = Some (Ret ou) \<Longrightarrow> txn_step parse s (state ou)"
| step_commit: "method_commit parse bus read i from s = Ret ou \<Longrightarrow> txn_step parse s (state ou)"
| step_discard: "method_discard bus read i from s = Ret ou \<Longrightarrow> txn_step parse s (state ou)"
| step_object: "map_of (txns s) i = Some t \<Longrightarrow> object_path t = path \<Longrightarrow>
    method_serialize bus t = Ret ou \<or> method_add bus from msg t = Ret ou \<or>
    method_set bus t = Ret ou \<or> method_delete bus t = Ret ou \<Longrightarrow>
    txn_step parse s (s\<lparr>txns := map_set i (state ou) (txns s)\<rparr>)"

abbreviation txn_steps :: "(string \<Rightarrow> json option) \<Rightarrow> transactions \<Rightarrow> transactions \<Rightarrow> bool" where
  "txn_steps parse \<equiv> (txn_step parse)\<^sup>*\<^sup>*"

definition may_modify :: "uid \<Rightarrow> transaction \<Rightarrow> bool" where
  "may_modify u t \<longleftrightarrow> u = owner t \<or> u = 0"

text \<open>The committed state: the copy becomes the running configuration, the transaction is gone.\<close>

definition committed :: "64 word \<Rightarrow> config \<Rightarrow> transactions \<Rightarrow> transactions" where
  "committed i copy s =
     \<lparr>running_config = config_assign (running_config s) copy, txns = map_erase i (txns s)\<rparr>"

definition error_reply :: "'s outcome \<Rightarrow> bool" where
  "error_reply ou \<longleftrightarrow> (\<exists>code err. code < 0 \<and> sent ou = [MethodErrno code err])"

lemma co_yield_cases:
  assumes "co_yield bus code s k = Ret ou"
  obtains (error) "state ou = s" "error_reply ou" | (ok) "k = Ret ou"
  using assms that
  by (auto simp: co_yield_def yield_value_def error_reply_def split: if_splits)

lemma co_return_error:
  "co_return bus [] err s (reply_status_t code e) = Ret ou \<Longrightarrow> code < 0 \<Longrightarrow> state ou = s \<and> error_reply ou"
  by (auto simp: co_return_def error_reply_def split: if_splits)

lemmas reply_defs = reply_status_def reply_status_const_def reply_status_error_def

lemma access_check_cases:
  assumes "(if query_sender_creds from < 0 then Abort
            else co_yield bus (creds_get_uid from) s
              (if sender_uid from \<noteq> owner t \<and> sender_uid from \<noteq> 0 then
                 co_return bus [] None s (reply_status_const (- EACCES) name description)
               else k)) = Ret ou"
  obtains (error) "state ou = s" "error_reply ou" | (ok) "may_modify (sender_uid from) t" "k = Ret ou"
proof -
  from assms have "co_yield bus (creds_get_uid from) s
      (if may_modify (sender_uid from) t then k
       else co_return bus [] None s (reply_status_const (- EACCES) name description)) = Ret ou"
    by (auto simp: may_modify_def split: if_splits)
  then show thesis
    by (rule co_yield_cases)
      (use that in \<open>auto simp: reply_defs errno_defs split: if_splits dest!: co_return_error\<close>)
qed

lemma valid_config_copy: "valid_config (configuration (config_copy c)) \<longleftrightarrow> valid_config (configuration c)"
  by (simp add: config_copy_def)

lemma try_get_copy [simp]:
  "try_get (config_copy c) n = try_get c n" "try_get (config_assign c c') n = try_get c' n"
  by (simp_all add: try_get_def config_copy_def config_assign_def)

lemma method_commit_cases:
  assumes "method_commit parse bus read i from s = Ret ou"
    and valid: "valid_config (configuration (running_config s))" "wf_parser parse"
  obtains (failed) "state ou = s" "error_reply ou"
    | (committed) t copy where "map_of (txns s) i = Some t" "may_modify (sender_uid from) t"
        "apply_operations parse (operations t) (config_copy (running_config s)) = Ret (0, None, copy)"
        "state ou = committed i copy s"
        "sent ou = [if reply_method_return bus < 0 then MethodErrno (reply_method_return bus) None
                    else MethodReturn []]"
  using assms(1) unfolding method_commit_def
proof (cases rule: co_yield_cases[consumes 1, case_names unread read])
  case read
  show thesis
  proof (cases "map_of (txns s) i")
    case None
    then show thesis
      using read failed by (auto simp: reply_defs errno_defs dest!: co_return_error)
  next
    case (Some t)
    from read[unfolded Some option.case] show thesis
    proof (cases rule: access_check_cases[consumes 1, case_names denied granted])
      case granted
      then obtain status err copy where
          ops: "apply_operations parse (operations t) (config_copy (running_config s)) = Ret (status, err, copy)"
        by auto
      note st = apply_operations_status[OF this _ valid(2), unfolded valid_config_copy, OF valid(1)]
      show thesis
      proof (cases "status = 0")
        case True
        then show thesis
          using granted ops st Some committed[of t copy]
          by (auto simp: committed_def dest!: co_return_reply_Ret)
      next
        case False
        then show thesis
          using granted ops st failed by (auto simp: reply_defs dest!: co_return_error)
      qed
    qed (use failed in simp)
  qed
qed (use failed in simp)

lemma method_discard_cases:
  assumes "method_discard bus read i from s = Ret ou"
  obtains (failed) "state ou = s" "error_reply ou"
    | (discarded) t where "map_of (txns s) i = Some t" "may_modify (sender_uid from) t"
        "state ou = s\<lparr>txns := map_erase i (txns s)\<rparr>"
        "sent ou = [if reply_method_return bus < 0 then MethodErrno (reply_method_return bus) None
                    else MethodReturn []]"
  using assms unfolding method_discard_def
proof (cases rule: co_yield_cases[consumes 1, case_names unread read])
  case read
  show thesis
  proof (cases "map_of (txns s) i")
    case None
    then show thesis
      using read failed by (auto simp: reply_defs errno_defs dest!: co_return_error)
  next
    case (Some t)
    from read[unfolded Some option.case] show thesis
      by (cases rule: access_check_cases[consumes 1, case_names denied granted])
        (use Some that in \<open>auto dest!: co_return_reply_Ret\<close>)
  qed
qed (use failed in simp)

text \<open>The first negative status of the calls that read an \<open>Add\<close> message, or its content.\<close>

definition read_add :: "add_message \<Rightarrow> int + parameter_value list" where
  "read_add msg =
     (if name_status msg < 0 then Inl (name_status msg)
      else if array_status msg < 0 then Inl (array_status msg)
      else case read_items (items msg) [] of
             Inl status \<Rightarrow> Inl status
           | Inr ps \<Rightarrow> if end_status msg < 0 then Inl (end_status msg)
                       else if exit_status msg < 0 then Inl (exit_status msg) else Inr ps)"

lemma read_items_Inl: "read_items xs acc = Inl st \<Longrightarrow> st < 0"
  by (induction xs acc rule: read_items.induct) (auto split: if_splits)

lemma method_add_body:
  "co_yield bus (name_status msg) s
     (co_yield bus (array_status msg) s
       (case read_items (items msg) [] of
          Inl status \<Rightarrow> co_yield bus status s Abort
        | Inr params \<Rightarrow> co_yield bus (end_status msg) s (co_yield bus (exit_status msg) s (k params)))) =
   (case read_add msg of Inl status \<Rightarrow> co_yield bus status s Abort | Inr params \<Rightarrow> k params)"
  by (auto simp: read_add_def co_yield_def yield_value_def split: sum.splits dest: read_items_Inl)

lemma method_add_cases:
  assumes "method_add bus from msg t = Ret ou"
  obtains (failed) "state ou = t" "error_reply ou"
    | (added) ps where "may_modify (sender_uid from) t" "read_add msg = Inr ps"
        "state ou = t\<lparr>operations := operations t @ [add_op (add_name msg) ps]\<rparr>"
        "sent ou = [if reply_method_return bus < 0 then MethodErrno (reply_method_return bus) None
                    else MethodReturn []]"
  using assms unfolding method_add_def method_add_body
proof (cases rule: access_check_cases[consumes 1, case_names denied granted])
  case granted
  show thesis
  proof (cases "read_add msg")
    case (Inl st)
    with granted have "co_yield bus st t Abort = Ret ou"
      by simp
    then show thesis
      by (rule co_yield_cases) (use failed in auto)
  next
    case (Inr ps)
    then show thesis
      using granted added by (auto dest!: co_return_reply_Ret)
  qed
qed (use failed in simp)

lemma method_new_cases:
  assumes "method_new bus read from vtable rand n s = Some (Ret ou)"
  obtains (failed) "state ou = s" "error_reply ou"
    | (created) i t where "map_of (txns s) i = None"
        "t = \<lparr>txn_id = i, object_path = transaction_path i, owner = sender_uid from, operations = []\<rparr>"
        "state ou = s\<lparr>txns := map_set i t (txns s)\<rparr>"
        "sent ou = [if reply_method_return bus < 0 then MethodErrno (reply_method_return bus) None
                    else MethodReturn [U64 i, ObjectPath (transaction_path i)]]"
proof (cases "read < 0")
  case True
  then have "co_yield bus read s Abort = Ret ou"
    using assms by (simp add: method_new_def)
  then show thesis
    by (rule co_yield_cases) (use failed in auto)
next
  case False
  then obtain i k where i: "draw_id rand (txns s) n = Some (i, k)"
      and run: "method_new_with bus from vtable i s = Ret ou"
    using assms by (auto simp: method_new_def)
  from draw_id_Some[OF i] have fresh: "map_of (txns s) i = None"
    by blast
  from run have "co_yield bus (creds_get_uid from) s
      (bind_res (new_transaction vtable i (sender_uid from)) (\<lambda>t.
         if map_of (txns s) i \<noteq> None then Abort
         else co_return_reply bus (s\<lparr>txns := map_set i t (txns s)\<rparr>)
                [U64 i, ObjectPath (object_path t)])) = Ret ou"
    by (simp add: method_new_with_def split: if_splits)
  then show thesis
  proof (cases rule: co_yield_cases[consumes 1, case_names no_uid uid])
    case uid
    then show thesis
      using fresh created[of i]
      by (auto simp: new_transaction_def split: if_splits dest!: co_return_reply_Ret)
  qed (use failed in simp)
qed

section \<open>Steps\<close>

definition entities_kept :: "transactions \<Rightarrow> transactions \<Rightarrow> bool" where
  "entities_kept s s' \<longleftrightarrow>
     (\<forall>n e. n \<noteq> '':default-netns'' \<and> try_get (running_config s) n = Some e \<longrightarrow>
        try_get (running_config s') n = Some e)"

lemma entities_kept_same: "running_config s' = running_config s \<Longrightarrow> entities_kept s s'"
  by (simp add: entities_kept_def)

lemma committed_inv:
  assumes "txns_inv s" "wf_parser parse"
    and "apply_operations parse ops (config_copy (running_config s)) = Ret (0, None, copy)"
  shows "txns_inv (committed i copy s) \<and> entities_kept s (committed i copy s)"
proof -
  have ok: "applied ops (config_copy (running_config s)) copy"
    using apply_operations_status[OF assms(3) _ assms(2)] assms(1)
    by (simp add: valid_config_copy txns_inv_def)
  have "try_get copy n = Some e"
    if "n \<noteq> '':default-netns''" "try_get (running_config s) n = Some e" for n e
  proof -
    have "added_name oper \<noteq> Some n" if "oper \<in> set ops" for oper
      using ok that \<open>n \<noteq> _\<close> \<open>try_get _ n = _\<close> unfolding applied_def by fastforce
    then have "Some n \<notin> added_name ` set ops"
      by force
    then show ?thesis
      using ok that by (simp add: applied_def)
  qed
  then have "entities_kept s (committed i copy s)"
    by (simp add: entities_kept_def committed_def)
  moreover have "txns_inv (committed i copy s)"
    using assms(1) ok by (auto simp: txns_inv_def committed_def applied_def config_assign_def split: if_splits)
  ultimately show ?thesis by simp
qed

lemma txn_step_inv:
  assumes "txn_step parse s s'" "txns_inv s" "wf_parser parse"
  shows "txns_inv s' \<and> entities_kept s s'"
  using assms(1)
proof cases
  case (step_list bus ou)
  then show ?thesis
    using assms(2) by (auto simp: method_list_def entities_kept_def dest!: co_return_Ret)
next
  case (step_new bus read "from" vtable rand n ou)
  from step_new(2) show ?thesis
    by (cases rule: method_new_cases)
      (use assms(2) step_new(1) in \<open>auto simp: txns_inv_def entities_kept_def split: if_splits\<close>)
next
  case (step_commit bus read i "from" ou)
  have "valid_config (configuration (running_config s))"
    using assms(2) by (simp add: txns_inv_def)
  from step_commit(2) this assms(3) show ?thesis
    by (cases rule: method_commit_cases)
      (use assms(2,3) step_commit(1) committed_inv in \<open>auto simp: entities_kept_def\<close>)
next
  case (step_discard bus read i "from" ou)
  from step_discard(2) show ?thesis
    by (cases rule: method_discard_cases)
      (use assms(2) step_discard(1) in \<open>auto simp: txns_inv_def entities_kept_def split: if_splits\<close>)
next
  case (step_object i t path bus ou "from" msg)
  have "txn_id (state ou) = txn_id t \<and> object_path (state ou) = object_path t"
    using step_object(4)
    by (auto simp: method_serialize_def method_set_def method_delete_def dest!: co_return_Ret
        elim!: method_add_cases)
  then show ?thesis
    using assms(2) step_object by (auto simp: txns_inv_def entities_kept_def split: if_splits)
qed

section \<open>Properties\<close>

text \<open>
  C2: commit is atomic. Whatever sd-bus returns, either nothing at all changes (the running
  configuration and every transaction, the requested one included) and the caller gets exactly one
  error reply, or the caller is the owner or root, every operation of the transaction was
  applied to a copy with status 0, the copy is the new running configuration and exactly this
  transaction is removed.
\<close>

theorem commit_atomic:
  assumes "method_commit parse bus read i from s = Ret ou"
    and "valid_config (configuration (running_config s))" "wf_parser parse"
  shows "(state ou = s \<and> error_reply ou) \<or>
    (\<exists>t copy. map_of (txns s) i = Some t \<and> may_modify (sender_uid from) t \<and>
       apply_operations parse (operations t) (config_copy (running_config s)) = Ret (0, None, copy) \<and>
       state ou = \<lparr>running_config = config_assign (running_config s) copy,
                     txns = map_erase i (txns s)\<rparr> \<and>
       length (sent ou) = 1)"
  using assms by (cases rule: method_commit_cases) (auto simp: committed_def)

text \<open>
  C12: in every state that D-Bus calls can reach, in any order and with any failure of sd-bus, the
  running configuration is valid, each transaction is stored under its own id and object path,
  and an entity once committed is still there, unchanged.
\<close>

theorem reachable_valid:
  assumes "txn_steps parse s s'" "txns_inv s" "wf_parser parse"
  shows "txns_inv s' \<and> entities_kept s s'"
  using assms(1)
proof (induction rule: rtranclp_induct)
  case (step y z)
  then show ?case
    using txn_step_inv[OF step(2) _ assms(3)] by (auto simp: entities_kept_def)
qed (simp add: assms(2) entities_kept_def)

text \<open>
  C18: a caller that is neither the owner nor root changes nothing, whichever of \<open>Add\<close>, \<open>Commit\<close>
  and \<open>Discard\<close> it calls, and is told so by \<open>EACCES\<close>.
\<close>

theorem access_denied:
  assumes "map_of (txns s) i = Some t" "\<not> may_modify (sender_uid from) t"
    and "0 \<le> read" "0 \<le> query_sender_creds from" "0 \<le> creds_get_uid from"
    and "0 \<le> reply_method_errno bus"
  shows "\<exists>text1 text2.
     method_commit parse bus read i from s =
       Ret \<lparr>sent = [MethodErrno (- EACCES) (Some (''info.griwes.nonsense.AccessDenied'', text1))],
            ret_error = None, state = s\<rparr> \<and>
     method_discard bus read i from s =
       Ret \<lparr>sent = [MethodErrno (- EACCES) (Some (''info.griwes.nonsense.AccessDenied'', text2))],
            ret_error = None, state = s\<rparr> \<and>
     method_add bus from msg t =
       Ret \<lparr>sent = [MethodErrno (- EACCES) (Some (''info.griwes.nonsense.AccessDenied'', text2))],
            ret_error = None, state = t\<rparr>"
  using assms
  by (auto simp: method_commit_def method_discard_def method_add_def may_modify_def reply_defs
      co_return_status errno_defs)

text \<open>
  C32: \<open>New\<close> never disturbs a live transaction: the id it hands out was unused and so was the
  object path; the new transaction is empty and belongs to the caller.
\<close>

theorem new_is_fresh:
  assumes "method_new bus read from vtable rand n s = Some (Ret ou)" "txns_inv s"
    and "sent ou = [MethodReturn [U64 i, ObjectPath path]]"
  shows "map_of (txns s) i = None \<and>
    (\<forall>j t. map_of (txns s) j = Some t \<longrightarrow> object_path t \<noteq> path \<and> map_of (txns (state ou)) j = Some t) \<and>
    map_of (txns (state ou)) i =
      Some \<lparr>txn_id = i, object_path = path, owner = sender_uid from, operations = []\<rparr> \<and>
    running_config (state ou) = running_config s"
  using assms(1)
  by (cases rule: method_new_cases)
    (use assms(2,3) in \<open>auto simp: error_reply_def txns_inv_def split: if_splits\<close>)

text \<open>
  C33: \<open>New\<close> answers: if the engine's next values differ from each other, drawing stops after at most
  one draw more than there are live transactions.
\<close>

theorem new_returns:
  assumes "inj_on rand {n..n + length (txns s)}"
  shows "\<exists>i k r. draw_id rand (txns s) n = Some (i, k) \<and> k \<le> n + length (txns s) + 1 \<and>
    method_new bus read from vtable rand n s = Some r"
proof -
  obtain d where d: "d \<le> length (txns s)" "map_of (txns s) (rand (n + d)) = None"
    using draws_pigeonhole[OF assms] by (metis atLeastAtMost_iff le_add_diff_inverse le_diff_conv add.commute)
  from draw_id_unused[where rand = rand, OF d(2)] d(1) show ?thesis
    by (force simp: method_new_def)
qed

text \<open>
  \<open>Add\<close> by the owner or root appends exactly the operation of the message, with its
  parameters in order; the first negative status of the reading calls is replied instead and
  then the transaction is unchanged.
\<close>

theorem add_appends_or_fails:
  assumes "may_modify (sender_uid from) t" "0 \<le> query_sender_creds from" "0 \<le> creds_get_uid from"
    and "0 \<le> reply_method_errno bus" "0 \<le> reply_method_return bus"
  shows "method_add bus from msg t =
    (case read_add msg of
       Inl status \<Rightarrow> Ret \<lparr>sent = [MethodErrno status None], ret_error = None, state = t\<rparr>
     | Inr ps \<Rightarrow> Ret \<lparr>sent = [MethodReturn []], ret_error = None,
         state = t\<lparr>operations := operations t @ [add_op (add_name msg) ps]\<rparr>\<rparr>)"
proof -
  have neg: "st < 0" if "read_add msg = Inl st" for st
    using that by (auto simp: read_add_def split: if_splits sum.splits dest: read_items_Inl)
  show ?thesis
    unfolding method_add_def method_add_body using assms
    by (auto simp: may_modify_def co_yield_error co_return_reply_def co_return_status reply_defs
        split: sum.splits dest: neg)
qed

text \<open>
  No method of a transaction or of the manager leaves its caller without an answer or answers
  twice: a handler that ends has sent exactly one reply.
\<close>

theorem methods_reply_once:
  assumes "txns_inv s" "wf_parser parse"
  shows "(\<forall>ou. method_commit parse bus read i from s = Ret ou \<longrightarrow> length (sent ou) = 1) \<and>
    (\<forall>ou. method_discard bus read i from s = Ret ou \<longrightarrow> length (sent ou) = 1) \<and>
    (\<forall>ou. method_new bus read from vtable rand n s = Some (Ret ou) \<longrightarrow> length (sent ou) = 1) \<and>
    (\<forall>ou. method_list bus s = Ret ou \<longrightarrow> length (sent ou) = 1) \<and>
    (\<forall>ou. method_add bus from msg t = Ret ou \<longrightarrow> length (sent ou) = 1)"
proof (intro conjI allI impI)
  fix ou assume "method_commit parse bus read i from s = Ret ou"
  moreover have "valid_config (configuration (running_config s))"
    using assms(1) by (simp add: txns_inv_def)
  ultimately show "length (sent ou) = 1"
    using assms(2) by (cases rule: method_commit_cases) (auto simp: error_reply_def)
next
  fix ou assume "method_list bus s = Ret ou"
  then show "length (sent ou) = 1"
    by (auto simp: method_list_def errno_defs error_reply_def reply_defs dest!: co_return_error)
qed (auto simp: error_reply_def elim!: method_discard_cases method_new_cases method_add_cases)

section \<open>Witnesses\<close>

definition sample_bus :: bus where
  "sample_bus = \<lparr>reply_method_error = 0, reply_method_errno = 0, reply_method_return = 1\<rparr>"

definition sample_sender :: "uid \<Rightarrow> sender" where
  "sample_sender u = \<lparr>query_sender_creds = 0, creds_get_uid = 0, sender_uid = u\<rparr>"

definition sample_message :: add_message where
  "sample_message =
     \<lparr>name_status = 1, add_name = ''test'', array_status = 1,
      items = [(1, ''network.role'', ''client'', 1), (1, ''network.uplink'', ''root'', 1)],
      end_status = 0, exit_status = 1\<rparr>"

definition sample_transaction :: transaction where
  "sample_transaction =
     \<lparr>txn_id = 7, object_path = transaction_path 7, owner = 1000,
      operations = [add_op ''test'' sample_params]\<rparr>"

definition sample_state :: transactions where
  "sample_state = \<lparr>running_config = sample_config, txns = [(7, sample_transaction)]\<rparr>"

lemma sample_parse_wf_parser: "wf_parser sample_parse"
  using sample_parse_wf by (auto simp: wf_parser_def)

lemma sample_state_inv: "txns_inv sample_state"
  using sample_config_valid
  by (auto simp: txns_inv_def sample_state_def sample_transaction_def split: if_splits)

theorem commit_atomic_witness:
  "\<exists>ou. method_commit sample_parse sample_bus 1 7 (sample_sender 1000) sample_state = Ret ou \<and>
     txns (state ou) = [] \<and>
     (\<exists>copy. apply_operations sample_parse (operations sample_transaction) (config_copy sample_config) =
        Ret (0, None, copy) \<and> running_config (state ou) = config_assign sample_config copy)"
proof -
  let ?run = "method_commit sample_parse sample_bus 1 7 (sample_sender 1000) sample_state"
  have ok: "case ?run of Ret ou \<Rightarrow> sent ou = [MethodReturn []] | _ \<Rightarrow> False"
    by code_simp
  then obtain ou where ou: "?run = Ret ou" "sent ou = [MethodReturn []]"
    by (auto split: res.splits)
  from commit_atomic[OF ou(1) _ sample_parse_wf_parser] ou sample_config_valid show ?thesis
    by (auto simp: error_reply_def sample_state_def)
qed

theorem access_denied_witness:
  "\<not> may_modify (sender_uid (sample_sender 1001)) sample_transaction \<and>
   (\<exists>description. method_discard sample_bus 1 7 (sample_sender 1001) sample_state =
     Ret \<lparr>sent = [MethodErrno (- EACCES) (Some (''info.griwes.nonsense.AccessDenied'', description))],
          ret_error = None, state = sample_state\<rparr>)"
proof -
  have "\<not> may_modify (sender_uid (sample_sender 1001)) sample_transaction"
    by code_simp
  with access_denied[of sample_state 7 sample_transaction "sample_sender 1001" 1 sample_bus] show ?thesis
    by (auto simp: sample_state_def sample_sender_def sample_bus_def)
qed

theorem new_is_fresh_witness:
  "\<exists>ou. method_new sample_bus 1 (sample_sender 1001) 0 of_nat 7 sample_state = Some (Ret ou) \<and>
     sent ou = [MethodReturn [U64 8, ObjectPath (transaction_path 8)]] \<and>
     map_of (txns (state ou)) 7 = Some sample_transaction"
proof -
  let ?run = "method_new sample_bus 1 (sample_sender 1001) 0 of_nat 7 sample_state"
  have ok: "case ?run of Some (Ret ou) \<Rightarrow> sent ou = [MethodReturn [U64 8, ObjectPath (transaction_path 8)]]
      | _ \<Rightarrow> False"
    by code_simp
  then obtain ou where ou: "?run = Some (Ret ou)"
      "sent ou = [MethodReturn [U64 8, ObjectPath (transaction_path 8)]]"
    by (cases "the ?run") (auto split: option.splits)
  from new_is_fresh[OF ou(1) sample_state_inv ou(2)] ou show ?thesis
    by (auto simp: sample_state_def)
qed

theorem new_returns_witness:
  "inj_on (of_nat :: nat \<Rightarrow> 64 word) {7..8} \<and>
   (\<exists>r. method_new sample_bus 1 (sample_sender 1001) 0 of_nat 7 sample_state = Some r)"
proof -
  have inj: "inj_on (of_nat :: nat \<Rightarrow> 64 word) {7..8}"
    by (auto simp: inj_on_def le_Suc_eq numeral_eq_Suc)
  then show ?thesis
    using new_returns[of of_nat 7 sample_state sample_bus 1 "sample_sender 1001" 0]
    by (auto simp: sample_state_def)
qed

theorem add_appends_or_fails_witness:
  "\<exists>ou. method_add sample_bus (sample_sender 0) sample_message sample_transaction = Ret ou \<and>
     operations (state ou) = [add_op ''test'' sample_params, add_op ''test''
       [\<lparr>parameter = ''network.role'', param_value = ''client''\<rparr>,
        \<lparr>parameter = ''network.uplink'', param_value = ''root''\<rparr>]]"
  using add_appends_or_fails[of "sample_sender 0" sample_transaction sample_bus sample_message]
  by (simp add: may_modify_def sample_sender_def sample_bus_def sample_message_def sample_transaction_def
      read_add_def)

theorem methods_reply_once_witness:
  "\<exists>ou. method_commit sample_parse sample_bus 1 9 (sample_sender 1000) sample_state = Ret ou \<and>
     length (sent ou) = 1"
proof -
  let ?run = "method_commit sample_parse sample_bus 1 9 (sample_sender 1000) sample_state"
  have "case ?run of Ret ou \<Rightarrow> True | _ \<Rightarrow> False"
    by code_simp
  then obtain ou where "?run = Ret ou"
    by (auto split: res.splits)
  then show ?thesis
    using methods_reply_once[OF sample_state_inv sample_parse_wf_parser] by blast
qed

text \<open>Another transaction is opened, filled and committed while one is pending.\<close>

theorem reachable_valid_witness:
  "\<exists>s. txn_steps sample_parse sample_state s \<and> txns_inv s \<and>
     map_of (txns s) 7 = Some sample_transaction \<and> map_of (txns s) 8 = None \<and>
     try_get (running_config s) ''test'' \<noteq> None \<and>
     try_get (running_config s) ''root'' = try_get sample_config ''root''"
proof -
  define new where "new = method_new sample_bus 1 (sample_sender 1001) 0 of_nat 7 sample_state"
  define s1 where "s1 = (case new of Some (Ret ou) \<Rightarrow> state ou | _ \<Rightarrow> sample_state)"
  define t1 where "t1 = (case map_of (txns s1) 8 of Some t \<Rightarrow> t | None \<Rightarrow> sample_transaction)"
  define add where "add = method_add sample_bus (sample_sender 1001) sample_message t1"
  define s2 where "s2 = (case add of Ret ou \<Rightarrow> s1\<lparr>txns := map_set 8 (state ou) (txns s1)\<rparr> | _ \<Rightarrow> s1)"
  define commit where "commit = method_commit sample_parse sample_bus 1 8 (sample_sender 1001) s2"
  define s3 where "s3 = (case commit of Ret ou \<Rightarrow> state ou | _ \<Rightarrow> s2)"
  note defs = new_def s1_def t1_def add_def s2_def commit_def s3_def
  have "case new of Some (Ret ou) \<Rightarrow> True | _ \<Rightarrow> False"
    unfolding defs by code_simp
  then have "txn_step sample_parse sample_state s1"
    by (auto simp: s1_def new_def intro: step_new split: option.splits res.splits)
  moreover have "case add of Ret ou \<Rightarrow> True | _ \<Rightarrow> False" "map_of (txns s1) 8 = Some t1"
    unfolding defs by code_simp+
  then have "txn_step sample_parse s1 s2"
    by (auto simp: s2_def add_def intro: step_object split: res.splits)
  moreover have "case commit of Ret ou \<Rightarrow> True | _ \<Rightarrow> False"
    unfolding defs by code_simp
  then have "txn_step sample_parse s2 s3"
    by (auto simp: s3_def commit_def intro: step_commit split: res.splits)
  ultimately have steps: "txn_steps sample_parse sample_state s3"
    by (meson converse_rtranclp_into_rtranclp r_into_rtranclp)
  have "map_of (txns s3) 7 = Some sample_transaction" "map_of (txns s3) 8 = None"
      "try_get (running_config s3) ''test'' \<noteq> None"
    unfolding defs by code_simp+
  moreover have "try_get sample_config ''root'' \<noteq> None"
    by code_simp
  ultimately show ?thesis
    using steps reachable_valid[OF steps sample_state_inv sample_parse_wf_parser]
    by (auto simp: entities_kept_def sample_state_def)
qed

end
