(* ===== verification/Entity_Value.thy ===== *)
theory Entity_Value
  imports Config_Properties
begin

text \<open>
  The value of an entity that \<open>add\<close> creates: its parameters, set one after the other in an
  empty object, and the role of its network component, which validation stores.
\<close>

definition role_of :: "object \<Rightarrow> network_role option" where
  "role_of m = (case map_of m ''role'' of Some (JString r) \<Rightarrow> map_of known_network_roles r | _ \<Rightarrow> None)"

definition with_role :: "json \<Rightarrow> json" where
  "with_role j =
     (case json_find ''network'' j of
        Some (JObject m) \<Rightarrow>
          (case role_of m of
             Some r \<Rightarrow> json_put [''network''] (JObject (map_set '':role'' (json_of_role r) m)) j
           | None \<Rightarrow> j)
      | _ \<Rightarrow> j)"

definition entity_value :: "(string \<Rightarrow> json option) \<Rightarrow> parameter_value list \<Rightarrow> json option" where
  "entity_value parse ps = map_option with_role (build parse ps (JObject []))"

section \<open>What validation writes into an entity\<close>

definition fields_kept :: "object \<Rightarrow> object \<Rightarrow> bool" where
  "fields_kept m m' \<longleftrightarrow>
     (\<forall>k. k \<noteq> '':role'' \<longrightarrow> map_of m' k = map_of m k \<or>
        (k \<in> {''role'', ''uplink''} \<and> map_of m k = None \<and> map_of m' k = Some JNull))"

definition object_kept :: "object \<Rightarrow> object \<Rightarrow> bool" where
  "object_kept e e' \<longleftrightarrow> (\<forall>k. k \<noteq> ''network'' \<longrightarrow> map_of e' k = map_of e k) \<and>
     (\<forall>m. map_of e ''network'' = Some (JObject m) \<longrightarrow>
        (\<exists>m'. map_of e' ''network'' = Some (JObject m') \<and> fields_kept m m'))"

definition entity_kept :: "json \<Rightarrow> json \<Rightarrow> bool" where
  "entity_kept s s' \<longleftrightarrow>
     (\<forall>n e. n \<noteq> '':default-netns'' \<and> json_find n s = Some (JObject e) \<longrightarrow>
        (\<exists>e'. json_find n s' = Some (JObject e') \<and> object_kept e e'))"

lemma fields_kept_refl [simp]: "fields_kept m m"
  by (simp add: fields_kept_def)

lemma fields_kept_trans: "fields_kept m m1 \<Longrightarrow> fields_kept m1 m2 \<Longrightarrow> fields_kept m m2"
  unfolding fields_kept_def by (metis option.distinct(1))

lemma object_kept_refl [simp]: "object_kept e e"
  by (simp add: object_kept_def)

lemma object_kept_trans: "object_kept e e1 \<Longrightarrow> object_kept e1 e2 \<Longrightarrow> object_kept e e2"
  unfolding object_kept_def using fields_kept_trans by fastforce

lemma entity_kept_trans:
  assumes "entity_kept s t" "entity_kept t u"
  shows "entity_kept s u"
  unfolding entity_kept_def
proof (intro allI impI, elim conjE)
  fix n e assume n: "n \<noteq> '':default-netns''" "json_find n s = Some (JObject e)"
  obtain e1 where e1: "json_find n t = Some (JObject e1)" "object_kept e e1"
    using assms(1) n by (auto simp: entity_kept_def)
  obtain e2 where "json_find n u = Some (JObject e2)" "object_kept e1 e2"
    using assms(2) n(1) e1(1) by (auto simp: entity_kept_def)
  then show "\<exists>e'. json_find n u = Some (JObject e') \<and> object_kept e e'"
    using object_kept_trans e1(2) by blast
qed

lemma entity_kept_refl: "entity_kept s s"
  by (auto simp: entity_kept_def)

lemma entity_kept_put:
  assumes "\<And>m. json_at [n, ''network''] s = Some (JObject m) \<Longrightarrow>
      \<exists>m'. json_put ks v (JObject m) = JObject m' \<and> fields_kept m m'"
  shows "entity_kept s (json_put (n # ''network'' # ks) v s)"
  unfolding entity_kept_def
proof (intro allI impI, elim conjE)
  fix x e assume e: "x \<noteq> '':default-netns''" "json_find x s = Some (JObject e)"
  show "\<exists>e'. json_find x (json_put (n # ''network'' # ks) v s) = Some (JObject e') \<and> object_kept e e'"
  proof (cases "x = n")
    case False
    then show ?thesis
      using e(2) by (auto simp del: json_put.simps)
  next
    case True
    then have "json_find x (json_put (n # ''network'' # ks) v s) = Some (json_put (''network'' # ks) v (JObject e))"
      using e(2) by (simp del: json_put.simps)
    then show ?thesis
      using assms e(2) True by (auto simp: object_kept_def split: option.splits)
  qed
qed

lemma fields_kept_slot: "k \<in> {''role'', '':role'', ''uplink''} \<Longrightarrow> map_of m k = None \<Longrightarrow> fields_kept m (map_set k JNull m)"
  by (auto simp: fields_kept_def)

lemma entity_kept_slot:
  assumes "k \<in> {''role'', '':role'', ''uplink''}"
  shows "entity_kept s (snd (ref_subscript [n, ''network''] k s))"
proof (cases "json_at [n, ''network''] s")
  case (Some c)
  show ?thesis
  proof (cases "json_subscript k c")
    case (Ret x)
    obtain c' v where x: "x = (c', v)"
      by (cases x)
    have "entity_kept s (json_put [n, ''network''] c' s)"
      using Ret x Some fields_kept_slot[OF assms] by (intro entity_kept_put) (auto split: option.splits)
    then show ?thesis
      using Some Ret x by (simp add: ref_subscript_def del: json_at.simps json_put.simps)
  qed (simp_all add: ref_subscript_def Some entity_kept_refl del: json_at.simps)
qed (simp add: ref_subscript_def entity_kept_refl del: json_at.simps)

lemma entity_kept_role: "entity_kept s (json_put [n, ''network'', '':role''] v s)"
  by (rule entity_kept_put) (auto simp: fields_kept_def split: option.splits)

interpretation kept_rel: validation_relation name entity_kept for name
proof unfold_locales
  show "entity_kept s (snd (ref_subscript [] '':default-netns'' s))" for s
    by (cases s) (auto simp: entity_kept_def ref_subscript_def split: option.splits)
  show "entity_kept s (json_put ['':default-netns''] (JString name) s)"
    if "json_find '':default-netns'' s = Some JNull" for s
    by (auto simp: entity_kept_def simp del: json_put.simps)
qed (auto intro: entity_kept_trans entity_kept_refl entity_kept_slot entity_kept_role)

section \<open>The value that is added\<close>

lemma validated_role:
  assumes "validate_network name s = (Ret (), s')" "json_at [name, ''network''] s = Some c"
  obtains m r where "c = JObject m" "map_of m ''role'' = Some (JString r)"
proof -
  obtain v t role where v: "ref_subscript [name, ''network''] ''role'' s = (Ret v, t)" "get_ref_string v = Ret role"
    using assms(1) by (auto simp: validate_network_def simp del: json_at.simps json_put.simps split: option.splits)
  then have "v = JString role"
    by (cases v) auto
  then show thesis
    using v(1) assms(2) that
    by (cases c) (auto simp: ref_subscript_def simp del: json_at.simps split: option.splits)
qed

lemma validated_value:
  assumes "validate_entity name s = (Ret (), s')" "wf_json s" "is_object s" "name \<noteq> '':default-netns''"
    and "json_find name s = Some (JObject e)"
  shows "json_find name s' = Some (with_role (JObject e))"
proof -
  have "entity_kept s s'"
    using kept_rel.entity_rel[of s name] assms(1) by simp
  then obtain e' where kept: "json_find name s' = Some (JObject e')" "object_kept e e'"
    using assms(4,5) unfolding entity_kept_def by blast
  note e' = kept(1) kept(2)[unfolded object_kept_def, THEN conjunct1, rule_format]
    kept(2)[unfolded object_kept_def, THEN conjunct2, rule_format]
  have wf: "wf_json (JObject e)" "wf_json (JObject e')"
    using wf_json_find[OF assms(2,5)] wf_json_find[OF _ e'(1)] frame_rel.entity_rel[of name s] assms(1-3)
    by (auto simp: cfg_frame_def)
  have "same_shape s s'"
    using shape_rel.entity_rel[of s name] assms(1) by simp
  then have keys: "set (map fst e') = set (map fst e)"
    using assms(5) e'(1) unfolding same_shape_def
    by (elim allE[of _ name] allE[of _ "JObject e"]) simp
  have valid: "valid_entity s' name"
    by (rule validate_entity_success[OF assms(1-3)])
  have types: "validate_components name (items_keys (JObject e)) s = (Ret (), s')" "distinct (items_keys (JObject e))"
    using assms(1,5) om.distinct_keys wf(1) by (auto simp: validate_entity_def)
  from validate_components_success[OF types] show ?thesis
  proof (elim disjE conjE)
    assume "items_keys (JObject e) = []"
    then have "e = []" "e' = []"
      using keys by auto
    then show ?thesis
      using e'(1) by (simp add: with_role_def)
  next
    assume single: "items_keys (JObject e) = [''network'']" "validate_network name s = (Ret (), s')"
    then obtain c where c: "e = [(''network'', c)]"
      by auto
    then have "json_at [name, ''network''] s = Some c"
      using assms(5) by simp
    from validated_role[OF single(2) this] obtain m role where
        m: "c = JObject m" "map_of m ''role'' = Some (JString role)" .
    obtain m' where m': "map_of e' ''network'' = Some (JObject m')" "fields_kept m m'"
      using e'(3)[of m] c m(1) by auto
    have net: "valid_network s' name m'"
      using valid e'(1) m'(1) by (simp add: valid_entity_def)
    have fields: "map_of m' k = map_of m k" if "k \<noteq> '':role''" for k
    proof -
      have "map_of m' ''uplink'' \<noteq> Some JNull"
        using net by (auto simp: valid_network_def uplink_ok_def split: option.splits json.splits)
      then show ?thesis
        using m'(2) m(2) that unfolding fields_kept_def by fastforce
    qed
    obtain r where r: "map_of known_network_roles role = Some r" "map_of m' '':role'' = Some (json_of_role r)"
      using net fields[of "''role''"] m(2) by (auto simp: valid_network_def split: option.splits)
    have wm: "wf_json (JObject m)" "wf_json (JObject m')"
      using wf wf_json_find[of "JObject e'" "''network''"] m'(1) c m(1) by auto
    have wm1: "wf_json (JObject (map_set '':role'' (json_of_role r) m))"
      by (rule wf_json_map_set[OF wm(1)]) (simp add: json_of_role_def)
    have m1: "m' = map_set '':role'' (json_of_role r) m"
      by (rule wf_json_ext[OF wm(2) wm1]) (use fields r(2) in simp)
    have "e' = [(''network'', JObject m')]"
      by (rule wf_json_ext[OF wf(2)]) (use wm(2) m'(1) e'(2) c in auto)
    then show ?thesis
      using e'(1) c m r(1) m1 by (simp add: with_role_def role_of_def)
  qed
qed

lemma build_object: "build parse ps (JObject e) = Some j \<Longrightarrow> is_object j"
proof (induction ps arbitrary: e)
  case (Cons p ps)
  from Cons.prems obtain j1 where j1: "set_parameter (parameter p) (param_json parse (param_value p)) 0 (JObject e) = ParamSet j1"
      "build parse ps j1 = Some j"
    by (auto split: param_result.splits)
  obtain e1 where "j1 = JObject e1"
    using set_parameter_object[OF j1(1)] by (elim is_objectE)
  then show ?case
    using Cons.IH j1(2) by blast
qed auto

lemma set_parameters_build:
  "set_parameters parse name ps self = Ret (None, self') \<Longrightarrow> json_find name (configuration self) = Some j \<Longrightarrow>
     \<exists>j'. build parse ps j = Some j' \<and> json_find name (configuration self') = Some j'"
proof (induction ps arbitrary: self j)
  case (Cons p ps)
  then obtain j1 where j1: "set_parameter (parameter p) (param_json parse (param_value p)) 0 j = ParamSet j1"
    by (auto split: param_result.splits res.splits)
  let ?self = "self\<lparr>configuration := json_put [name] j1 (configuration self)\<rparr>"
  have "json_find name (configuration ?self) = Some j1"
    using Cons.prems(2) by (cases "configuration self") auto
  moreover have "set_parameters parse name ps ?self = Ret (None, self')"
    using Cons.prems j1 by simp
  ultimately show ?case
    using Cons.IH j1 by simp
qed simp

text \<open>A successful \<open>add\<close> stores exactly the value of its parameters.\<close>

lemma config_add_value:
  assumes "config_add parse name ps c = Ret (r, c')" "error_code r = 0" "valid_config (configuration c)"
    and "\<And>t j. parse t = Some j \<Longrightarrow> wf_json j" "name \<noteq> '':default-netns''"
  shows "json_find name (configuration c') = entity_value parse ps" "entity_value parse ps \<noteq> None"
proof -
  have wf: "wf_json (configuration c)" "is_object (configuration c)"
    using assms(3) by (auto simp: valid_config_def)
  have new: "mutable c" "json_find name (configuration c) = None"
    by (rule config_add_cases[OF assms(1) wf assms(4)]; use assms(2) in \<open>simp add: errno_defs add_failed_def\<close>)+
  obtain m where m: "configuration c = JObject m" "map_of m name = None"
    using new(2) wf(2) by (auto elim!: is_objectE)
  let ?c0 = "c\<lparr>configuration := JObject (map_set name (JObject []) m)\<rparr>"
  have c0: "only_entity name c ?c0"
    using wf m wf_json_map_set[of m "JObject []" name] by (auto simp: only_entity_def)
  obtain c1 where run: "set_parameters parse name ps ?c0 = Ret (None, c1)"
    using assms(1,2) new(1) m set_parameters_error[of parse name ps ?c0]
    by (auto simp: config_add_def json_count_def errno_defs split: res.splits option.splits)
  obtain q cfg where q: "validate_entity name (configuration c1) = (q, cfg)"
    by fastforce
  have v: "validate_entity name (configuration c1) = (Ret (), configuration c')"
    using assms(1,2) new(1) m run q
    by (cases q) (auto simp: config_add_def json_count_def errno_defs split: res.splits)
  obtain j where j: "build parse ps (JObject []) = Some j" "json_find name (configuration c1) = Some j"
    using set_parameters_build[OF run, of "JObject []"] by auto
  obtain e where e: "j = JObject e"
    using build_object[OF j(1)] by auto
  have "wf_json (configuration c1)" "is_object (configuration c1)"
    using set_parameters_frame[OF run _ _ assms(4)] c0 by (auto simp: only_entity_def)
  from validated_value[OF v this assms(5)] j(2) e
  show "json_find name (configuration c') = entity_value parse ps" "entity_value parse ps \<noteq> None"
    using j(1) by (simp_all add: entity_value_def)
qed

end
