(* ===== verification/Transactions_Spec.thy ===== *)
theory Transactions_Spec
  imports Transactions_Properties Entity_Value
begin

text \<open>
  What the transaction manager promises, without paths, replies, credentials and JSON trees: a map of
  entities and, for every open transaction, its owner and a log of operations. The specification
  is a partial function from an event to the next state; every D-Bus call is one event, which its
  arguments, its caller and its reply determine.
\<close>

section \<open>Simulation\<close>

fun run_of :: "('l \<Rightarrow> 'c \<Rightarrow> 'c \<Rightarrow> bool) \<Rightarrow> 'l list \<Rightarrow> 'c \<Rightarrow> 'c \<Rightarrow> bool" where
  "run_of step [] s s' \<longleftrightarrow> s' = s"
| "run_of step (l # ls) s s' \<longleftrightarrow> (\<exists>t. step l s t \<and> run_of step ls t s')"

fun spec_run :: "('e \<Rightarrow> 'a \<Rightarrow> 'a option) \<Rightarrow> 'e list \<Rightarrow> 'a \<Rightarrow> 'a option" where
  "spec_run spec [] a = Some a"
| "spec_run spec (e # es) a = (case spec e a of None \<Rightarrow> None | Some b \<Rightarrow> spec_run spec es b)"

locale simulation =
  fixes step :: "'l \<Rightarrow> 'c \<Rightarrow> 'c \<Rightarrow> bool" and spec :: "'e \<Rightarrow> 'a \<Rightarrow> 'a option"
    and fits :: "'l \<Rightarrow> 'e \<Rightarrow> bool" and inv :: "'c \<Rightarrow> bool" and abs_of :: "'c \<Rightarrow> 'a"
  assumes inv_step: "inv s \<Longrightarrow> step l s s' \<Longrightarrow> inv s'"
    and sim_step: "inv s \<Longrightarrow> step l s s' \<Longrightarrow> \<exists>e. fits l e \<and> spec e (abs_of s) = Some (abs_of s')"
begin

lemma sim_run:
  "run_of step ls s s' \<Longrightarrow> inv s \<Longrightarrow>
     \<exists>es. list_all2 fits ls es \<and> spec_run spec es (abs_of s) = Some (abs_of s')"
proof (induction ls arbitrary: s)
  case (Cons l ls)
  then obtain t where t: "step l s t" "run_of step ls t s'"
    by auto
  obtain e where e: "fits l e" "spec e (abs_of s) = Some (abs_of t)"
    using sim_step[OF Cons.prems(2) t(1)] by blast
  obtain es where "list_all2 fits ls es" "spec_run spec es (abs_of t) = Some (abs_of s')"
    using Cons.IH[OF t(2) inv_step[OF Cons.prems(2) t(1)]] by blast
  with e have "list_all2 fits (l # ls) (e # es) \<and> spec_run spec (e # es) (abs_of s) = Some (abs_of s')"
    by simp
  then show ?case
    by blast
qed simp

end

section \<open>The specification\<close>

record spec =
  entities :: "string \<Rightarrow> json option"
  logs :: "64 word \<Rightarrow> (uid \<times> operation list) option"

datatype event =
    Nothing
  | Opened uid "64 word"
  | Logged uid "64 word" string "parameter_value list"
  | Discarded uid "64 word"
  | Committed uid "64 word"

text \<open>
  An operation creates an entity that was not there, with the value of its parameters. The key
  \<open>:default-netns\<close> is not an entity.
\<close>

fun create :: "(string \<Rightarrow> json option) \<Rightarrow> operation \<Rightarrow> (string \<Rightarrow> json option) \<Rightarrow>
    (string \<Rightarrow> json option) option" where
  "create parse (add_op n ps) es =
     (if n = '':default-netns'' then Some es
      else if es n \<noteq> None then None
      else map_option (\<lambda>v. es(n \<mapsto> v)) (entity_value parse ps))"
| "create parse (set_op n ps) es = None"
| "create parse (delete_op n) es = None"

text \<open>A log is used by its owner or by root.\<close>

definition log_of :: "uid \<Rightarrow> 64 word \<Rightarrow> spec \<Rightarrow> (uid \<times> operation list) option" where
  "log_of u i a = (case logs a i of
     Some (w, ops) \<Rightarrow> if u = w \<or> u = 0 then Some (w, ops) else None | None \<Rightarrow> None)"

fun spec_event :: "(string \<Rightarrow> json option) \<Rightarrow> event \<Rightarrow> spec \<Rightarrow> spec option" where
  "spec_event parse Nothing a = Some a"
| "spec_event parse (Opened u i) a =
     (if logs a i = None then Some (a\<lparr>logs := (logs a)(i \<mapsto> (u, []))\<rparr>) else None)"
| "spec_event parse (Logged u i n ps) a =
     map_option (\<lambda>(w, ops). a\<lparr>logs := (logs a)(i \<mapsto> (w, ops @ [add_op n ps]))\<rparr>) (log_of u i a)"
| "spec_event parse (Discarded u i) a =
     map_option (\<lambda>_. a\<lparr>logs := (logs a)(i := None)\<rparr>) (log_of u i a)"
| "spec_event parse (Committed u i) a =
     (case log_of u i a of
        None \<Rightarrow> None
      | Some (w, ops) \<Rightarrow>
          map_option (\<lambda>es. \<lparr>entities = es, logs = (logs a)(i := None)\<rparr>)
            (spec_run (create parse) ops (entities a)))"

section \<open>Calls\<close>

text \<open>
  A call as its caller makes it: \<open>Add\<close> names the object of the transaction,
  \<open>Commit\<close> and \<open>Discard\<close> its id. \<open>Unwritten\<close> stands for
  \<open>Serialize\<close>, \<open>Set\<close> and \<open>Delete\<close>, which only answer
  \<open>ENOSYS\<close>.
\<close>

datatype call =
    CallList
  | CallNew uid
  | CallCommit uid "64 word"
  | CallDiscard uid "64 word"
  | CallAdd uid string add_message
  | Unwritten string

inductive txn_call :: "(string \<Rightarrow> json option) \<Rightarrow> bus \<times> call \<times> reply list \<Rightarrow>
    transactions \<Rightarrow> transactions \<Rightarrow> bool" for parse where
  call_list: "method_list bus s = Ret ou \<Longrightarrow> txn_call parse (bus, CallList, sent ou) s (state ou)"
| call_new: "method_new bus read from vtable rand n s = Some (Ret ou) \<Longrightarrow>
    txn_call parse (bus, CallNew (sender_uid from), sent ou) s (state ou)"
| call_commit: "method_commit parse bus read i from s = Ret ou \<Longrightarrow>
    txn_call parse (bus, CallCommit (sender_uid from) i, sent ou) s (state ou)"
| call_discard: "method_discard bus read i from s = Ret ou \<Longrightarrow>
    txn_call parse (bus, CallDiscard (sender_uid from) i, sent ou) s (state ou)"
| call_add: "map_of (txns s) i = Some t \<Longrightarrow> object_path t = path \<Longrightarrow> method_add bus from msg t = Ret ou \<Longrightarrow>
    txn_call parse (bus, CallAdd (sender_uid from) path msg, sent ou) s
      (s\<lparr>txns := map_set i (state ou) (txns s)\<rparr>)"
| call_unwritten: "map_of (txns s) i = Some t \<Longrightarrow> object_path t = path \<Longrightarrow>
    method_serialize bus t = Ret ou \<or> method_set bus t = Ret ou \<or> method_delete bus t = Ret ou \<Longrightarrow>
    txn_call parse (bus, Unwritten path, sent ou) s (s\<lparr>txns := map_set i (state ou) (txns s)\<rparr>)"

lemma txn_call_step: "txn_call parse l s s' \<Longrightarrow> txn_step parse s s'"
  by (cases rule: txn_call.cases) (auto intro: txn_step.intros)

text \<open>Every step of the manager is such a call, so runs of calls are all its behaviours.\<close>

lemma txn_step_call: "txn_step parse s s' \<Longrightarrow> \<exists>l. txn_call parse l s s'"
  by (cases rule: txn_step.cases) (blast intro: txn_call.intros)+

lemma txn_steps_run: "txn_steps parse s s' \<longleftrightarrow> (\<exists>ls. run_of (txn_call parse) ls s s')"
proof
  show "txn_steps parse s s' \<Longrightarrow> \<exists>ls. run_of (txn_call parse) ls s s'"
  proof (induction rule: converse_rtranclp_induct)
    case base
    show ?case
      by (rule exI[of _ "[]"]) simp
  next
    case (step y z)
    then show ?case
      using txn_step_call by (metis run_of.simps(2))
  qed
  have "run_of (txn_call parse) ls s s' \<Longrightarrow> txn_steps parse s s'" for ls
    by (induction ls arbitrary: s) (auto intro: converse_rtranclp_into_rtranclp dest: txn_call_step)
  then show "\<exists>ls. run_of (txn_call parse) ls s s' \<Longrightarrow> txn_steps parse s s'"
    by blast
qed

text \<open>
  The event of a call. A success is answered with the results of the call, or with the status of
  sending them; everything else is an error reply and changes nothing.
\<close>

definition answered :: "bus \<Rightarrow> bus_value list \<Rightarrow> reply list" where
  "answered bus results =
     [if reply_method_return bus < 0 then MethodErrno (reply_method_return bus) None else MethodReturn results]"

definition refused :: "reply list \<Rightarrow> bool" where
  "refused rs \<longleftrightarrow> (\<exists>code err. code < 0 \<and> rs = [MethodErrno code err])"

fun succeeded :: "call \<Rightarrow> event \<Rightarrow> bus_value list option" where
  "succeeded (CallNew u) (Opened u' i) = (if u' = u then Some [U64 i, ObjectPath (transaction_path i)] else None)"
| "succeeded (CallCommit u i) (Committed u' i') = (if (u', i') = (u, i) then Some [] else None)"
| "succeeded (CallDiscard u i) (Discarded u' i') = (if (u', i') = (u, i) then Some [] else None)"
| "succeeded (CallAdd u path msg) (Logged u' i n ps) =
     (if u' = u \<and> path = transaction_path i \<and> n = add_name msg \<and> read_add msg = Inr ps then Some [] else None)"
| "succeeded c e = None"

fun fits :: "bus \<times> call \<times> reply list \<Rightarrow> event \<Rightarrow> bool" where
  "fits (bus, c, rs) e \<longleftrightarrow>
     (e = Nothing \<and> refused rs) \<or> (\<exists>results. succeeded c e = Some results \<and> rs = answered bus results)"

lemma error_refused: "error_reply ou \<Longrightarrow> refused (sent ou)"
  by (simp add: error_reply_def refused_def)

section \<open>The abstraction\<close>

definition entities_of :: "config \<Rightarrow> string \<Rightarrow> json option" where
  "entities_of c n = (if n = '':default-netns'' then None else json_find n (configuration c))"

definition spec_of :: "transactions \<Rightarrow> spec" where
  "spec_of s = \<lparr>entities = entities_of (running_config s),
     logs = \<lambda>i. map_option (\<lambda>t. (owner t, operations t)) (map_of (txns s) i)\<rparr>"

lemma spec_of_set:
  "spec_of (s\<lparr>txns := map_set i t (txns s)\<rparr>) =
     (spec_of s)\<lparr>logs := (logs (spec_of s))(i \<mapsto> (owner t, operations t))\<rparr>"
  by (auto simp: spec_of_def fun_eq_iff)

lemma spec_of_erase:
  "map_wf (txns s) \<Longrightarrow> spec_of (s\<lparr>txns := map_erase i (txns s)\<rparr>) = (spec_of s)\<lparr>logs := (logs (spec_of s))(i := None)\<rparr>"
  by (auto simp: spec_of_def fun_eq_iff)

lemma log_of_txn:
  "map_of (txns s) i = Some t \<Longrightarrow> may_modify u t \<Longrightarrow> log_of u i (spec_of s) = Some (owner t, operations t)"
  by (auto simp: log_of_def spec_of_def may_modify_def)

lemma spec_of_same: "map_of (txns s) i = Some t \<Longrightarrow> spec_of (s\<lparr>txns := map_set i t (txns s)\<rparr>) = spec_of s"
  by (auto simp: spec_of_def fun_eq_iff)

section \<open>Committing\<close>

lemma apply_operation_creates:
  assumes "apply_operation parse oper c = Ret (0, err, c')" "valid_config (configuration c)" "wf_parser parse"
  shows "create parse oper (entities_of c) = Some (entities_of c')"
proof -
  have ok: "applied [oper] c c'"
    by (rule apply_operation_ok[OF assms])
  obtain n ps r where op: "oper = add_op n ps" "try_get c n = None"
      and run: "config_add parse n ps c = Ret (r, c')" "\<not> error_code r < 0"
    using assms(1) by (cases oper) (auto simp: apply_operation_def errno_defs split: if_splits)
  have code: "error_code r = 0"
    using config_add_code[OF run(1) assms(2,3)] run(2) by simp
  have frame: "entities_of c' k = entities_of c k" if "k \<noteq> n" for k
    using ok op(1) that by (auto simp: applied_def entities_of_def try_get_find)
  show ?thesis
  proof (cases "n = '':default-netns''")
    case True
    then have "entities_of c' = entities_of c"
      using frame by (auto simp: entities_of_def fun_eq_iff)
    then show ?thesis
      using op(1) True by simp
  next
    case False
    have v: "json_find n (configuration c') = entity_value parse ps" "entity_value parse ps \<noteq> None"
      using config_add_value[OF run(1) code assms(2) _ False] wf_parserD[OF assms(3)] by blast+
    have "((entities_of c)(n := entity_value parse ps)) k = entities_of c' k" for k
      using frame[of k] v(1) False by (cases "k = n") (simp_all add: entities_of_def)
    then have "(entities_of c)(n := entity_value parse ps) = entities_of c'"
      by (rule ext)
    then show ?thesis
      using op False v(2) by (auto simp: entities_of_def try_get_find)
  qed
qed

lemma apply_operations_create:
  assumes "apply_operations parse ops c = Ret (0, err, c')" "valid_config (configuration c)" "wf_parser parse"
  shows "spec_run (create parse) ops (entities_of c) = Some (entities_of c')"
  using assms(1,2)
proof (induction ops arbitrary: c)
  case (Cons oper ops)
  obtain er c1 where one: "apply_operation parse oper c = Ret (0, er, c1)"
      and rest: "apply_operations parse ops c1 = Ret (0, err, c')"
    using Cons.prems(1) by (auto split: if_splits)
  have "valid_config (configuration c1)"
    using apply_operation_ok(2)[OF one Cons.prems(2) assms(3)] by (simp add: applied_def)
  then show ?case
    using Cons.IH[OF rest] apply_operation_creates[OF one Cons.prems(2) assms(3)] by simp
qed simp

lemma entities_of_copy [simp]:
  "entities_of (config_copy c) = entities_of c" "entities_of (config_assign c c') = entities_of c'"
  by (simp_all add: entities_of_def config_copy_def config_assign_def fun_eq_iff)

lemma committed_spec:
  assumes "txns_inv s" "wf_parser parse" "map_of (txns s) i = Some t" "may_modify u t"
    and "apply_operations parse (operations t) (config_copy (running_config s)) = Ret (0, None, copy)"
  shows "spec_event parse (Committed u i) (spec_of s) = Some (spec_of (committed i copy s))"
proof -
  have "spec_run (create parse) (operations t) (entities_of (running_config s)) = Some (entities_of copy)"
    using apply_operations_create[OF assms(5) _ assms(2)] assms(1)
    by (simp add: valid_config_copy txns_inv_def)
  moreover have "spec_of (committed i copy s) =
      \<lparr>entities = entities_of copy, logs = (logs (spec_of s))(i := None)\<rparr>"
    using assms(1) by (auto simp: spec_of_def committed_def txns_inv_def fun_eq_iff)
  ultimately show ?thesis
    using log_of_txn[OF assms(3,4)] by (simp add: spec_of_def)
qed

section \<open>Every call is one event\<close>

lemma txn_call_refines:
  assumes "txn_call parse l s s'" "txns_inv s" "wf_parser parse"
  shows "\<exists>e. fits l e \<and> spec_event parse e (spec_of s) = Some (spec_of s')"
proof -
  have unchanged: ?thesis if "l = (bus, c, rs)" "refused rs" "spec_of s' = spec_of s" for bus c rs
    using that by (intro exI[of _ Nothing]) simp
  have event: ?thesis
    if "l = (bus, c, answered bus results)" "succeeded c e = Some results"
      "spec_event parse e (spec_of s) = Some (spec_of s')" for bus c results e
    using that by (intro exI[of _ e]) simp
  from assms(1) show ?thesis
  proof cases
    case (call_list bus ou)
    have "error_reply ou" "state ou = s"
      using call_list(3) by (auto simp: method_list_def reply_defs errno_defs dest!: co_return_error)
    then show ?thesis
      using call_list(2) by (intro unchanged[OF call_list(1)]) (simp_all add: error_refused)
  next
    case (call_new bus read "from" vtable rand n ou)
    from call_new(3) show ?thesis
    proof (cases rule: method_new_cases)
      case failed
      then show ?thesis
        using call_new(2) by (intro unchanged[OF call_new(1)]) (simp_all add: error_refused)
    next
      case (created i t)
      have fresh: "logs (spec_of s) i = None"
        using created(1) by (simp add: spec_of_def)
      show ?thesis
        by (rule event[of bus "CallNew (sender_uid from)" "[U64 i, ObjectPath (transaction_path i)]" "Opened (sender_uid from) i"])
          (use call_new(1,2) created(2-4) fresh in \<open>simp_all add: answered_def spec_of_set\<close>)
    qed
  next
    case (call_commit bus read i "from" ou)
    have valid: "valid_config (configuration (running_config s))"
      using assms(2) by (simp add: txns_inv_def)
    from call_commit(3) valid assms(3) show ?thesis
    proof (cases rule: method_commit_cases)
      case failed
      then show ?thesis
        using call_commit(2) by (intro unchanged[OF call_commit(1)]) (simp_all add: error_refused)
    next
      case (committed t copy)
      note ev = committed_spec[OF assms(2,3) committed(1-3)]
      show ?thesis
        by (rule event[of bus "CallCommit (sender_uid from) i" "[]" "Committed (sender_uid from) i"])
          (use call_commit(1,2) committed(4,5) ev in \<open>simp_all add: answered_def\<close>)
    qed
  next
    case (call_discard bus read i "from" ou)
    from call_discard(3) show ?thesis
    proof (cases rule: method_discard_cases)
      case failed
      then show ?thesis
        using call_discard(2) by (intro unchanged[OF call_discard(1)]) (simp_all add: error_refused)
    next
      case (discarded t)
      show ?thesis
        by (rule event[of bus "CallDiscard (sender_uid from) i" "[]" "Discarded (sender_uid from) i"])
          (use call_discard(1,2) discarded(3,4) log_of_txn[OF discarded(1,2)] assms(2) in \<open>simp_all add: answered_def spec_of_erase txns_inv_def\<close>)
    qed
  next
    case (call_add i t path bus "from" msg ou)
    have path: "path = transaction_path i"
      using assms(2) call_add(3,4) by (simp add: txns_inv_def)
    from call_add(5) show ?thesis
    proof (cases rule: method_add_cases)
      case failed
      then show ?thesis
        using call_add(2,3) by (intro unchanged[OF call_add(1)]) (simp_all add: error_refused spec_of_same)
    next
      case (added ps)
      show ?thesis
        by (rule event[of bus "CallAdd (sender_uid from) path msg" "[]" "Logged (sender_uid from) i (add_name msg) ps"])
          (use call_add(1,2) added(2-4) log_of_txn[OF call_add(3) added(1)] path in \<open>simp_all add: answered_def spec_of_set\<close>)
    qed
  next
    case (call_unwritten i t path bus ou)
    have "error_reply ou" "state ou = t"
      using call_unwritten(5)
      by (auto simp: method_serialize_def method_set_def method_delete_def reply_defs errno_defs
          dest!: co_return_error)
    then show ?thesis
      using call_unwritten(2,3) by (intro unchanged[OF call_unwritten(1)]) (simp_all add: error_refused spec_of_same)
  qed
qed

interpretation txn_sim: simulation "\<lambda>l s s'. wf_parser parse \<and> txn_call parse l s s'" "spec_event parse" fits
    txns_inv spec_of for parse
  using txn_call_refines txn_step_inv txn_call_step by unfold_locales blast+

lemma run_of_wf: "wf_parser parse \<Longrightarrow> run_of (\<lambda>l s s'. wf_parser parse \<and> txn_call parse l s s') = run_of (txn_call parse)"
  by simp

text \<open>
  C5: the transaction manager refines a deterministic specification over a map of entities and, for
  every open transaction, its owner and its log. Every D-Bus call is one event of the specification,
  fixed by the call, its caller and its reply, and the specification computes the state after the calls
  from these events. A call that is refused gets exactly one error reply and changes nothing. A
  \<open>New\<close> that succeeds opens an empty log of the caller under an id that is not in use and
  answers that id and its path; an \<open>Add\<close> on a transaction's object appends exactly the
  operation of its message to that transaction's log; a \<open>Discard\<close> drops the log; a
  \<open>Commit\<close> applies exactly that log, each operation creating an entity that was not there
  with the value of its parameters, all other entities and logs as they are, and removes the log; all
  three only for the owner or root. (The internal key \<open>:default-netns\<close> does not count as an entity.)
\<close>

theorem transactions_refine_spec:
  assumes "run_of (txn_call parse) calls s s'" "txns_inv s" "wf_parser parse"
  shows "\<exists>events. list_all2 fits calls events \<and>
    spec_run (spec_event parse) events (spec_of s) = Some (spec_of s')"
  using txn_sim.sim_run[of parse calls s s'] assms by (simp add: run_of_wf)

text \<open>The pending transaction is committed by its owner: the new entity has the value of its parameters.\<close>

theorem transactions_refine_spec_witness:
  "\<exists>calls s events. run_of (txn_call sample_parse) calls sample_state s \<and> list_all2 fits calls events \<and>
     spec_run (spec_event sample_parse) events (spec_of sample_state) = Some (spec_of s) \<and>
     events = [Committed 1000 7] \<and> logs (spec_of s) 7 = None \<and>
     entities (spec_of sample_state) ''test'' = None \<and> entities (spec_of s) ''test'' \<noteq> None"
proof -
  let ?run = "method_commit sample_parse sample_bus 1 7 (sample_sender 1000) sample_state"
  have "case ?run of Ret ou \<Rightarrow> sent ou = [MethodReturn []] \<and> map_of (txns (state ou)) 7 = None \<and>
      json_find ''test'' (configuration (running_config (state ou))) \<noteq> None | _ \<Rightarrow> False"
    by code_simp
  then obtain ou where ou: "?run = Ret ou" "sent ou = [MethodReturn []]" "map_of (txns (state ou)) 7 = None"
      "json_find ''test'' (configuration (running_config (state ou))) \<noteq> None"
    by (auto split: res.splits)
  let ?calls = "[(sample_bus, CallCommit 1000 7, [MethodReturn []])]"
  have run: "run_of (txn_call sample_parse) ?calls sample_state (state ou)"
    using call_commit[OF ou(1)] ou(2) by (simp add: sample_sender_def)
  obtain events where events: "list_all2 fits ?calls events"
      "spec_run (spec_event sample_parse) events (spec_of sample_state) = Some (spec_of (state ou))"
    using transactions_refine_spec[OF run sample_state_inv sample_parse_wf_parser] by blast
  obtain e where e: "events = [e]" "fits (sample_bus, CallCommit 1000 7, [MethodReturn []]) e"
    using events(1) by (auto simp: list_all2_Cons1)
  have "e = Committed 1000 7"
    using e(2) by (cases e) (auto simp: refused_def split: if_splits)
  then show ?thesis
    using run events e(1) ou(3,4)
    by (intro exI[of _ ?calls] exI[of _ "state ou"] exI[of _ events])
      (auto simp: spec_of_def entities_of_def sample_state_def sample_config_def)
qed

lemma txn_steps_inv: "txn_steps parse s s' \<Longrightarrow> txns_inv s \<Longrightarrow> wf_parser parse \<Longrightarrow> txns_inv s'"
  by (induction rule: rtranclp_induct) (auto dest: txn_step_inv)

end
