(* ===== verification/Json_Dump.thy ===== *)
theory Json_Dump
  imports Json
begin

text \<open>
  The serializer of \<open>vendor/json.hpp\<close> as \<open>component.dump()\<close> calls it: compact output, bytes that are not ASCII
  are copied, and text that is not UTF-8 is an error. A floating-point number is printed by the
  function \<open>to_chars\<close>, an argument.
\<close>

section \<open>UTF-8\<close>

definition UTF8_ACCEPT :: nat where
  "UTF8_ACCEPT = 0"

definition UTF8_REJECT :: nat where
  "UTF8_REJECT = 1"

text \<open>The table of the decoder: the classes of the 256 bytes, then the next state for each state and class.\<close>

definition utf8_classes :: "nat list" where
  "utf8_classes =
     replicate 128 0 @ replicate 16 1 @ replicate 16 9 @ replicate 32 7 @ [8, 8] @ replicate 30 2 @
     [10] @ replicate 12 3 @ [4, 3, 3] @
     [11, 6, 6, 6, 5] @ replicate 11 8"

definition utf8_states :: "nat list" where
  "utf8_states =
     [0, 1, 2, 3, 5, 8, 7, 1, 1, 1, 4, 6, 1, 1, 1, 1,
      1, 1, 1, 1, 1, 1, 1, 1, 1, 1, 1, 1, 1, 1, 1, 1, 1, 0, 1, 1, 1, 1, 1, 0, 1, 0, 1, 1, 1, 1, 1, 1,
      1, 2, 1, 1, 1, 1, 1, 2, 1, 2, 1, 1, 1, 1, 1, 1, 1, 1, 1, 1, 1, 1, 1, 2, 1, 1, 1, 1, 1, 1, 1, 1,
      1, 2, 1, 1, 1, 1, 1, 1, 1, 2, 1, 1, 1, 1, 1, 1, 1, 1, 1, 1, 1, 1, 1, 3, 1, 3, 1, 1, 1, 1, 1, 1,
      1, 3, 1, 1, 1, 1, 1, 3, 1, 3, 1, 1, 1, 1, 1, 1, 1, 3, 1, 1, 1, 1, 1, 1, 1, 1, 1, 1, 1, 1, 1, 1]"

definition utf8d :: "nat list" where
  "utf8d = utf8_classes @ utf8_states"

definition decode :: "nat \<Rightarrow> 32 word \<Rightarrow> nat \<Rightarrow> nat \<times> 32 word" where
  "decode state codep byte =
     (let type = utf8d ! byte;
          codep' = (if state \<noteq> UTF8_ACCEPT then (of_nat byte AND 0x3F) OR push_bit 6 codep
                    else drop_bit type 0xFF AND of_nat byte)
      in (utf8d ! (256 + state * 16 + type), codep'))"

section \<open>Strings\<close>

definition backslash :: char where
  "backslash = CHR 0x5C"

definition quote :: char where
  "quote = CHR 0x22"

definition escape_code :: "32 word \<Rightarrow> char \<Rightarrow> string" where
  "escape_code codepoint c =
     (if codepoint = 0x08 then [backslash, CHR ''b'']
      else if codepoint = 0x09 then [backslash, CHR ''t'']
      else if codepoint = 0x0A then [backslash, CHR ''n'']
      else if codepoint = 0x0C then [backslash, CHR ''f'']
      else if codepoint = 0x0D then [backslash, CHR ''r'']
      else if codepoint = 0x22 then [backslash, quote]
      else if codepoint = 0x5C then [backslash, backslash]
      else if codepoint \<le> 0x1F then [backslash, CHR ''u''] @ pad_zero 4 (show_hex (unat codepoint))
      else [c])"

text \<open>The hexadecimal digits of a byte as \<open>%.2X\<close> prints them.\<close>

definition upper_digit :: "nat \<Rightarrow> char" where
  "upper_digit d = (if d < 10 then char_of (48 + d) else char_of (55 + d))"

text \<open>
  The two digits of a byte in a message. The program appends its whole array of three characters, so that a
  zero byte follows them there.
\<close>

definition show_byte :: "nat \<Rightarrow> string" where
  "show_byte b = [upper_digit (b div 16), upper_digit (b mod 16)]"

text \<open>The loop keeps what was written to the output and the buffer of 512 bytes, which must not overflow.\<close>

definition put_bytes :: "string \<Rightarrow> string \<Rightarrow> string res" where
  "put_bytes buf t = (if length buf + length t \<le> 512 then Ret (buf @ t) else Abort)"

fun dump_escaped_loop :: "nat \<Rightarrow> nat \<Rightarrow> 32 word \<Rightarrow> string \<Rightarrow> string \<Rightarrow> string \<Rightarrow> (nat \<times> string \<times> string) res" where
  "dump_escaped_loop i state codep written buf [] = Ret (state, written, buf)"
| "dump_escaped_loop i state codep written buf (c # s) =
     (let byte = of_char c; (state', codep') = decode state codep byte
      in if state' = UTF8_ACCEPT then
           bind_res (put_bytes buf (escape_code codep' c)) (\<lambda>buf'.
             if 512 - length buf' < 13 then dump_escaped_loop (i + 1) state' codep' (written @ buf') [] s
             else dump_escaped_loop (i + 1) state' codep' written buf' s)
         else if state' = UTF8_REJECT then
           Throw (TypeError 316 (''invalid UTF-8 byte at index '' @ show_dec i @ '': 0x'' @ show_byte byte))
         else bind_res (put_bytes buf [c]) (\<lambda>buf'. dump_escaped_loop (i + 1) state' codep' written buf' s))"

definition dump_escaped :: "string \<Rightarrow> string res" where
  "dump_escaped s =
     bind_res (dump_escaped_loop 0 UTF8_ACCEPT 0 [] [] s) (\<lambda>(state, written, buf).
       if state = UTF8_ACCEPT then Ret (written @ buf)
       else Throw (TypeError 316 (''incomplete UTF-8 string; last byte: 0x'' @ show_byte (of_char (last s)))))"

section \<open>Integers\<close>

fun count_digits_from :: "nat \<Rightarrow> nat \<Rightarrow> nat" where
  "count_digits_from n_digits x =
     (if x < 10 then n_digits
      else if x < 100 then n_digits + 1
      else if x < 1000 then n_digits + 2
      else if x < 10000 then n_digits + 3
      else count_digits_from (n_digits + 4) (x div 10000))"

declare count_digits_from.simps [simp del]

definition count_digits :: "nat \<Rightarrow> nat" where
  "count_digits x = count_digits_from 1 x"

definition digits_to_99 :: "(char \<times> char) list" where
  "digits_to_99 = map (\<lambda>d. (digit_char (d div 10), digit_char (d mod 10))) [0..<100]"

text \<open>Two digits are written in front of the pointer into the number buffer, from the end.\<close>

definition put_two :: "nat \<Rightarrow> nat \<Rightarrow> string \<Rightarrow> string" where
  "put_two d p buf = buf[p - 1 := snd (digits_to_99 ! d), p - 2 := fst (digits_to_99 ! d)]"

fun fill_digits :: "nat \<Rightarrow> nat \<Rightarrow> string \<Rightarrow> string" where
  "fill_digits abs_value p buf =
     (if abs_value \<ge> 100 then fill_digits (abs_value div 100) (p - 2) (put_two (abs_value mod 100) p buf)
      else if abs_value \<ge> 10 then put_two abs_value p buf
      else buf[p - 1 := char_of (48 + abs_value)])"

declare fill_digits.simps [simp del]

definition number_buffer_size :: nat where
  "number_buffer_size = 64"

definition remove_sign :: "64 word \<Rightarrow> 64 word" where
  "remove_sign x = - (x + 1) + 1"

definition dump_integer :: "bool \<Rightarrow> 64 word \<Rightarrow> string res" where
  "dump_integer is_signed x =
     (if x = 0 then Ret ''0''
      else let number_buffer = replicate number_buffer_size (CHR 0x00);
               is_negative = (is_signed \<and> \<not> 0 \<le> sint x);
               buf = (if is_negative then number_buffer[0 := CHR ''-''] else number_buffer);
               abs_value = unat (if is_negative then remove_sign x else x);
               n_chars = (if is_negative then 1 else 0) + count_digits abs_value
           in if n_chars < number_buffer_size - 1
              then Ret (take n_chars (fill_digits abs_value n_chars buf)) else Abort)"

section \<open>Values\<close>

definition is_finite :: "64 word \<Rightarrow> bool" where
  "is_finite x = (take_bit 11 (drop_bit 52 x) \<noteq> 2047)"

definition dump_float :: "(64 word \<Rightarrow> string) \<Rightarrow> 64 word \<Rightarrow> string" where
  "dump_float to_chars x = (if is_finite x then to_chars x else ''null'')"

definition dump_string :: "string \<Rightarrow> string res" where
  "dump_string s = bind_res (dump_escaped s) (\<lambda>t. Ret ([quote] @ t @ [quote]))"

fun dump :: "(64 word \<Rightarrow> string) \<Rightarrow> json \<Rightarrow> string res"
  and dump_elements :: "(64 word \<Rightarrow> string) \<Rightarrow> json list \<Rightarrow> string res"
  and dump_members :: "(64 word \<Rightarrow> string) \<Rightarrow> object \<Rightarrow> string res" where
  "dump to_chars (JObject m) =
     (if m = [] then Ret ''{}'' else bind_res (dump_members to_chars m) (\<lambda>t. Ret (''{'' @ t @ ''}'')))"
| "dump to_chars (JArray xs) =
     (if xs = [] then Ret ''[]'' else bind_res (dump_elements to_chars xs) (\<lambda>t. Ret (''['' @ t @ '']'')))"
| "dump to_chars (JString s) = dump_string s"
| "dump to_chars (JBool b) = Ret (if b then ''true'' else ''false'')"
| "dump to_chars (JInt i) = dump_integer True i"
| "dump to_chars (JUInt i) = dump_integer False i"
| "dump to_chars (JFloat f) = Ret (dump_float to_chars f)"
| "dump to_chars JNull = Ret ''null''"
| "dump_elements to_chars [] = Ret []"
| "dump_elements to_chars (x # xs) =
     bind_res (dump to_chars x) (\<lambda>t.
       if xs = [] then Ret t else bind_res (dump_elements to_chars xs) (\<lambda>ts. Ret (t @ '','' @ ts)))"
| "dump_members to_chars [] = Ret []"
| "dump_members to_chars ((k, v) # m) =
     bind_res (dump_string k) (\<lambda>kt.
     bind_res (dump to_chars v) (\<lambda>t.
       if m = [] then Ret (kt @ '':'' @ t)
       else bind_res (dump_members to_chars m) (\<lambda>ts. Ret (kt @ '':'' @ t @ '','' @ ts))))"

end
