(* ===== verification/Json_Utf8.thy ===== *)
theory Json_Utf8
  imports Json_Dump
begin

text \<open>
  What the serializer prints for a string: the table-driven decoder accepts exactly the byte sequences
  given by ranges, each byte is copied or escaped on its own, and the buffer does not overflow.
\<close>

section \<open>What a string is printed as\<close>

text \<open>
  UTF-8 as ranges: the ranges of the bytes that follow a first byte, and well-formed text, in which \<open>rs\<close> are
  the ranges of the bytes still to come.
\<close>

definition utf8_ranges :: "nat \<Rightarrow> (nat \<times> nat) list option" where
  "utf8_ranges b =
     (if b < 0x80 then Some []
      else if b < 0xC2 then None
      else if b \<le> 0xDF then Some [(0x80, 0xBF)]
      else if b = 0xE0 then Some [(0xA0, 0xBF), (0x80, 0xBF)]
      else if b = 0xED then Some [(0x80, 0x9F), (0x80, 0xBF)]
      else if b \<le> 0xEF then Some [(0x80, 0xBF), (0x80, 0xBF)]
      else if b = 0xF0 then Some [(0x90, 0xBF), (0x80, 0xBF), (0x80, 0xBF)]
      else if b \<le> 0xF3 then Some [(0x80, 0xBF), (0x80, 0xBF), (0x80, 0xBF)]
      else if b = 0xF4 then Some [(0x80, 0x8F), (0x80, 0xBF), (0x80, 0xBF)]
      else None)"

fun utf8_rest :: "(nat \<times> nat) list \<Rightarrow> string \<Rightarrow> bool" where
  "utf8_rest [] [] \<longleftrightarrow> True"
| "utf8_rest [] (c # s) \<longleftrightarrow> (case utf8_ranges (of_char c) of None \<Rightarrow> False | Some rs \<Rightarrow> utf8_rest rs s)"
| "utf8_rest (r # rs) [] \<longleftrightarrow> False"
| "utf8_rest (r # rs) (c # s) \<longleftrightarrow> fst r \<le> of_char c \<and> of_char c \<le> snd r \<and> utf8_rest rs s"

definition utf8 :: "string \<Rightarrow> bool" where
  "utf8 s = utf8_rest [] s"

text \<open>A state of the decoder stands for the ranges to come.\<close>

inductive awaits :: "nat \<Rightarrow> (nat \<times> nat) list \<Rightarrow> bool" where
  awaits_0: "awaits 0 []"
| awaits_2: "awaits 2 [(0x80, 0xBF)]"
| awaits_3: "awaits 3 [(0x80, 0xBF), (0x80, 0xBF)]"
| awaits_4: "awaits 4 [(0xA0, 0xBF), (0x80, 0xBF)]"
| awaits_5: "awaits 5 [(0x80, 0x9F), (0x80, 0xBF)]"
| awaits_6: "awaits 6 [(0x90, 0xBF), (0x80, 0xBF), (0x80, 0xBF)]"
| awaits_7: "awaits 7 [(0x80, 0xBF), (0x80, 0xBF), (0x80, 0xBF)]"
| awaits_8: "awaits 8 [(0x80, 0x8F), (0x80, 0xBF), (0x80, 0xBF)]"

definition byte_class :: "nat \<Rightarrow> nat" where
  "byte_class b =
     (if b < 0x80 then 0 else if b < 0x90 then 1 else if b < 0xA0 then 9 else if b < 0xC0 then 7
      else if b < 0xC2 then 8 else if b < 0xE0 then 2 else if b = 0xE0 then 10 else if b = 0xED then 4
      else if b < 0xF0 then 3 else if b = 0xF0 then 11 else if b < 0xF4 then 6 else if b = 0xF4 then 5 else 8)"

lemma utf8_classes_eq: "utf8_classes = map byte_class [0..<256]"
  by code_simp

lemma utf8_class: "b < 256 \<Longrightarrow> utf8d ! b = byte_class b"
  by (simp add: utf8d_def nth_append utf8_classes_eq)

lemma utf8_state: "utf8d ! (256 + k) = utf8_states ! k"
  by (simp add: utf8d_def nth_append utf8_classes_eq)

lemma decode_first:
  assumes "b < 256"
  shows "case utf8_ranges b of None \<Rightarrow> fst (decode 0 cp b) = UTF8_REJECT | Some rs \<Rightarrow> awaits (fst (decode 0 cp b)) rs"
  using assms
  by (auto simp: decode_def Let_def utf8_class utf8_state utf8_states_def utf8_ranges_def UTF8_REJECT_def byte_class_def
      awaits.intros[simplified])

lemma fst_decode: "b < 256 \<Longrightarrow> fst (decode st cp b) = utf8_states ! (st * 16 + byte_class b)"
  using utf8_state[of "st * 16 + byte_class b"] by (simp add: decode_def Let_def utf8_class add.assoc)

lemma decode_next:
  assumes "awaits st ((lo, hi) # rs)" "b < 256"
  shows "if lo \<le> b \<and> b \<le> hi then awaits (fst (decode st cp b)) rs else fst (decode st cp b) = UTF8_REJECT"
  using assms
  by (cases rule: awaits.cases)
    (auto simp: fst_decode utf8_states_def UTF8_REJECT_def byte_class_def awaits.intros[simplified])

lemma awaits_states: "awaits st [] \<longleftrightarrow> st = UTF8_ACCEPT" "awaits st rs \<Longrightarrow> st \<noteq> UTF8_REJECT"
    "awaits 0 rs \<longleftrightarrow> rs = []"
  by (auto simp: UTF8_ACCEPT_def UTF8_REJECT_def awaits.simps)

text \<open>A code point of more than one byte is not below 128, so it is never escaped.\<close>

definition code_range :: "nat \<Rightarrow> nat \<Rightarrow> bool" where
  "code_range st v =
     (if st = 2 then 2 \<le> v \<and> v < 2 ^ 17
      else if st = 3 then 1 \<le> v \<and> v < 2 ^ 10
      else if st \<in> {5, 7, 8} then 1 \<le> v \<and> v < 2 ^ 4
      else if st \<in> {4, 6} then v < 2 ^ 4
      else st = 0)"

lemma low_bits: "(mask k :: 32 word) AND of_nat b = of_nat (b mod 2 ^ k)"
  unfolding and.commute[of "mask k"] take_bit_eq_mask[symmetric] take_bit_of_nat take_bit_nat_def ..

lemma low_bits_numeral:
  "(3 :: 32 word) AND of_nat b = of_nat (b mod 4)" "(7 :: 32 word) AND of_nat b = of_nat (b mod 8)"
  "(0x1F :: 32 word) AND of_nat b = of_nat (b mod 32)" "(0x3F :: 32 word) AND of_nat b = of_nat (b mod 64)"
  "(0xF :: 32 word) AND of_nat b = of_nat (b mod 16)" "(0xFF :: 32 word) AND of_nat b = of_nat (b mod 256)"
  using low_bits[of 2 b] low_bits[of 3 b] low_bits[of 4 b] low_bits[of 5 b] low_bits[of 6 b] low_bits[of 8 b]
  by (simp_all add: mask_eq_exp_minus_1)

lemma mod_in_block:
  fixes b :: nat
  assumes "k * n \<le> b" "b < k * n + n"
  shows "b mod n = b - k * n"
proof -
  obtain d where "b = k * n + d"
    using assms(1) le_Suc_ex by blast
  then show ?thesis
    using assms(2) by simp
qed

lemma snd_decode: "b < 256 \<Longrightarrow> snd (decode 0 cp b) = drop_bit (byte_class b) 0xFF AND of_nat b"
  by (simp add: decode_def UTF8_ACCEPT_def utf8_class Let_def)

lemma code_first:
  assumes "b < 256" "utf8_ranges b = Some (r # rs)"
  shows "code_range (fst (decode 0 cp b)) (unat (snd (decode 0 cp b)))"
proof -
  have rem: "0xC0 \<le> b \<Longrightarrow> b mod 64 = b - 0xC0" "0xE0 \<le> b \<Longrightarrow> b mod 32 = b - 0xE0"
      "0xF0 \<le> b \<Longrightarrow> b < 0xF4 \<Longrightarrow> b mod 4 = b - 0xF0"
    using assms(1) mod_in_block[of 3 64 b] mod_in_block[of 7 32 b] mod_in_block[of 60 4 b] by simp_all
  note eval = fst_decode snd_decode low_bits_numeral rem utf8_states_def code_range_def unat_of_nat
  consider "0xC2 \<le> b" "b \<le> 0xDF" | "b = 0xE0" | "b = 0xED" | "0xE1 \<le> b" "b \<le> 0xEF" "b \<noteq> 0xED"
    | "b = 0xF0" | "0xF1 \<le> b" "b \<le> 0xF3" | "b = 0xF4"
    using assms(2) by (auto simp: utf8_ranges_def split: if_splits)
  then show ?thesis
  proof cases
    case 1
    then show ?thesis
      using assms(1) by (simp add: eval byte_class_def del: of_nat_diff) arith
  next
    case 4
    then have "byte_class b = 3"
      by (simp add: byte_class_def)
    then show ?thesis
      using 4 assms(1) by (simp add: eval del: of_nat_diff) arith
  next
    case 6
    then have "byte_class b = 6"
      by (simp add: byte_class_def)
    then show ?thesis
      using 6 assms(1) by (simp add: eval del: of_nat_diff) arith
  qed (simp_all add: fst_decode snd_decode utf8_states_def code_range_def byte_class_def)
qed

lemma code_ascii:
  assumes "b < 0x80"
  shows "snd (decode 0 cp b) = of_nat b"
  using assms
  by (simp add: low_bits_numeral decode_def utf8_class byte_class_def UTF8_ACCEPT_def)

lemma code_next:
  assumes "st \<noteq> 0" "unat cp < 2 ^ 20" "b < 256"
  shows "unat (snd (decode st cp b)) = 64 * unat cp + b mod 64"
proof -
  have low: "(of_nat b AND 0x3F :: 32 word) = take_bit 6 (of_nat b)"
    by (simp add: take_bit_eq_mask mask_numeral)
  have "snd (decode st cp b) = take_bit 6 (of_nat b) OR push_bit 6 cp"
    using assms(1) by (simp add: decode_def UTF8_ACCEPT_def low)
  also have "\<dots> = take_bit 6 (of_nat b) + push_bit 6 cp"
    by (rule disjunctive_add[symmetric]) (auto simp: bit_simps)
  also have "\<dots> = of_nat (b mod 64 + 64 * unat cp)"
    by (simp add: take_bit_of_nat take_bit_nat_def push_bit_eq_mult)
  finally have "unat (snd (decode st cp b)) = unat (of_nat (b mod 64 + 64 * unat cp) :: 32 word)"
    by simp
  also have "\<dots> = (b mod 64 + 64 * unat cp) mod 2 ^ 32"
    unfolding unat_of_nat by simp
  finally show ?thesis
    using assms(2) by simp
qed

lemma code_kept:
  assumes "awaits st ((lo, hi) # rs)" "code_range st (unat cp)" "lo \<le> b" "b \<le> hi" "b < 256"
  shows "if rs = [] then 128 \<le> unat (snd (decode st cp b))
    else code_range (fst (decode st cp b)) (unat (snd (decode st cp b)))"
proof -
  have "unat cp < 2 ^ 20"
    using assms(1,2) by (cases rule: awaits.cases) (auto simp: code_range_def)
  moreover have "st \<noteq> 0"
    using assms(1) by (cases rule: awaits.cases) auto
  ultimately have code: "unat (snd (decode st cp b)) = 64 * unat cp + b mod 64"
    using code_next assms(5) by blast
  have low: "0xA0 \<le> b \<Longrightarrow> b \<le> 0xBF \<Longrightarrow> 0x20 \<le> b mod 64" "0x90 \<le> b \<Longrightarrow> b \<le> 0xBF \<Longrightarrow> 0x10 \<le> b mod 64"
      "b mod 64 < 64"
    using mod_in_block[of 2 64 b] by auto
  have "awaits (fst (decode st cp b)) rs"
    using decode_next[OF assms(1,5), of cp] assms(3,4) by simp
  then have state: "rs = [(0x80, 0xBF)] \<Longrightarrow> fst (decode st cp b) = 2"
      "rs = [(0x80, 0xBF), (0x80, 0xBF)] \<Longrightarrow> fst (decode st cp b) = 3"
    by (auto simp: awaits.simps)
  from assms(1) show ?thesis
    by (cases rule: awaits.cases) (use assms(2-4) code low state in \<open>auto simp: code_range_def\<close>)
qed

definition escape_byte :: "char \<Rightarrow> string" where
  "escape_byte c = (if of_char c < (0x80 :: nat) then escape_code (of_nat (of_char c)) c else [c])"

lemma escape_code_high: "128 \<le> unat cp \<Longrightarrow> escape_code cp c = [c]"
  by (auto simp: escape_code_def word_le_nat_alt)

lemma length_escape_code: "length (escape_code cp c) \<le> 6"
proof -
  have "length (pad_zero 4 (show_hex (unat cp))) = 4" if "cp \<le> 0x1F"
    using that by (intro length_pad_hex) (auto simp: word_le_nat_alt)
  then show ?thesis
    by (auto simp: escape_code_def)
qed

definition room :: "(nat \<times> nat) list \<Rightarrow> string \<Rightarrow> bool" where
  "room rs buf \<longleftrightarrow> length buf \<le> (if rs = [] then 499 else 503 - length rs)"

lemma awaits_length: "awaits st rs \<Longrightarrow> length rs \<le> 3"
  by (cases rule: awaits.cases) auto

lemma awaits_high: "awaits st ((lo, hi) # rs) \<Longrightarrow> lo \<le> b \<Longrightarrow> 0x80 \<le> b"
  by (cases rule: awaits.cases) auto

text \<open>One byte that is not rejected.\<close>

lemma byte_less: "of_char c < (256 :: nat)"
  by (simp add: of_char_def)

lemma decode_step:
  assumes "awaits st rs" "rs \<noteq> [] \<Longrightarrow> code_range st (unat cp)" "room rs buf"
    and d: "decode st cp (of_char c) = (st', cp')" "st' \<noteq> UTF8_REJECT"
  obtains rs' where "awaits st' rs'" "\<And>s. utf8_rest rs (c # s) \<longleftrightarrow> utf8_rest rs' s"
    "rs' \<noteq> [] \<Longrightarrow> code_range st' (unat cp')" "rs' \<noteq> [] \<Longrightarrow> room rs' (buf @ [c])"
    "escape_byte c = (if rs' = [] then escape_code cp' c else [c])"
proof -
  note byte = byte_less[of c]
  show thesis
  proof (cases rs)
    case Nil
    have st: "st = 0"
      using assms(1) Nil by (simp add: awaits_states UTF8_ACCEPT_def)
    then obtain rs' where rs': "utf8_ranges (of_char c) = Some rs'"
      using decode_first[OF byte, of cp] d by (auto split: option.splits)
    have aw: "awaits st' rs'"
      using decode_first[OF byte, of cp] rs' d st by simp
    have code: "code_range st' (unat cp')" if "rs' \<noteq> []"
      using code_first[OF byte, of _ _ cp] rs' that d st by (cases rs') auto
    have "escape_byte c = (if rs' = [] then escape_code cp' c else [c])"
      using rs' code_ascii[of "of_char c" cp] d st
      by (auto simp: escape_byte_def utf8_ranges_def split: if_splits)
    moreover have "room rs' (buf @ [c])" if "rs' \<noteq> []"
      using assms(3) Nil awaits_length[OF aw] that by (simp add: room_def)
    ultimately show thesis
      using that[OF aw _ code] rs' Nil by simp
  next
    case (Cons r rs')
    obtain lo hi where r: "r = (lo, hi)"
      by fastforce
    note aw1 = assms(1)[unfolded Cons r]
    have range: "lo \<le> of_char c" "of_char c \<le> hi" and aw: "awaits st' rs'"
      using decode_next[OF aw1 byte, of cp] d by (auto split: if_splits)
    have code: "if rs' = [] then 128 \<le> unat cp' else code_range st' (unat cp')"
      using code_kept[OF aw1 _ range byte, of cp] assms(2) Cons d by (auto split: if_splits)
    have "escape_byte c = [c]"
      using awaits_high[OF aw1 range(1)] by (simp add: escape_byte_def)
    then have "escape_byte c = (if rs' = [] then escape_code cp' c else [c])"
      using code escape_code_high by simp
    moreover have "room rs' (buf @ [c])" if "rs' \<noteq> []"
      using assms(3) Cons that awaits_length[OF aw1] by (simp add: room_def)
    ultimately show thesis
      using that[OF aw] code range Cons r by auto
  qed
qed

lemma decode_reject:
  assumes "awaits st rs" "fst (decode st cp (of_char c)) = UTF8_REJECT"
  shows "\<not> utf8_rest rs (c # s)"
proof (cases rs)
  case Nil
  then have "st = 0"
    using assms(1) by (simp add: awaits_states UTF8_ACCEPT_def)
  then show ?thesis
    using assms(2) decode_first[of "of_char c" cp] byte_less Nil awaits_states(2)
    by (cases "utf8_ranges (of_char c)") fastforce+
next
  case (Cons r rs')
  then show ?thesis
    using assms decode_next[OF _ byte_less[of c], of st "fst r" "snd r" rs' cp] awaits_states(2)
    by (fastforce split: if_splits)
qed

definition loop_outcome :: "(nat \<times> string \<times> string) res \<Rightarrow> bool \<Rightarrow> string \<Rightarrow> bool" where
  "loop_outcome r ok t \<longleftrightarrow>
     (case r of Ret (st, w, b) \<Rightarrow> ok = (st = UTF8_ACCEPT) \<and> (ok \<longrightarrow> w @ b = t)
      | Throw e \<Rightarrow> \<not> ok \<and> (\<exists>m. e = TypeError 316 m)
      | Abort \<Rightarrow> False)"

lemma dump_escaped_loop_outcome:
  assumes "awaits st rs" "rs \<noteq> [] \<Longrightarrow> code_range st (unat cp)" "room rs buf"
  shows "loop_outcome (dump_escaped_loop i st cp written buf s) (utf8_rest rs s)
    (written @ buf @ concat (map escape_byte s))"
  using assms
proof (induction s arbitrary: i st rs cp written buf)
  case Nil
  then show ?case
    by (cases rs) (auto simp: loop_outcome_def awaits_states(1)[symmetric] awaits.simps)
next
  case (Cons c s)
  obtain st' cp' where d: "decode st cp (of_char c) = (st', cp')"
    by fastforce
  show ?case
  proof (cases "st' = UTF8_REJECT")
    case True
    then show ?thesis
      using decode_reject[OF Cons.prems(1), of cp c s] d
      by (simp add: loop_outcome_def UTF8_REJECT_def UTF8_ACCEPT_def)
  next
    case False
    obtain rs' where step: "awaits st' rs'" "\<And>s. utf8_rest rs (c # s) \<longleftrightarrow> utf8_rest rs' s"
        "rs' \<noteq> [] \<Longrightarrow> code_range st' (unat cp')" "rs' \<noteq> [] \<Longrightarrow> room rs' (buf @ [c])"
        "escape_byte c = (if rs' = [] then escape_code cp' c else [c])"
      using decode_step[OF Cons.prems d False] by blast
    show ?thesis
    proof (cases "rs' = []")
      case True
      then have st': "st' = UTF8_ACCEPT"
        using step(1) by (simp add: awaits_states)
      have "length buf \<le> 502"
        using Cons.prems(3) awaits_length[OF Cons.prems(1)] by (cases rs) (auto simp: room_def)
      then have put: "put_bytes buf (escape_code cp' c) = Ret (buf @ escape_code cp' c)"
        using length_escape_code[of cp' c] by (simp add: put_bytes_def)
      show ?thesis
        using Cons.IH[OF step(1), of cp' "buf @ escape_code cp' c" "i + 1" written] step(2,5) True d st' put
          Cons.IH[OF step(1), of cp' "[]" "i + 1" "written @ buf @ escape_code cp' c"]
        by (auto simp: room_def)
    next
      case False
      then have "st' \<noteq> UTF8_ACCEPT"
        using step(1) by (auto simp: UTF8_ACCEPT_def awaits.simps)
      moreover have "put_bytes buf [c] = Ret (buf @ [c])"
        using step(4)[OF False] by (simp add: put_bytes_def room_def split: if_splits)
      ultimately show ?thesis
        using Cons.IH[OF step(1) _ step(4)[OF False], of cp' "i + 1" written] step(2,3,5) d
          \<open>st' \<noteq> UTF8_REJECT\<close> False by simp
    qed
  qed
qed

lemma dump_escaped_cases:
  obtains (printed) "utf8 s" "dump_escaped s = Ret (concat (map escape_byte s))"
  | (invalid) m where "\<not> utf8 s" "dump_escaped s = Throw (TypeError 316 m)"
  using dump_escaped_loop_outcome[of UTF8_ACCEPT "[]" 0 "[]" 0 "[]" s]
  by (auto simp: dump_escaped_def loop_outcome_def utf8_def awaits_states room_def split: res.splits if_splits)

lemma dump_string_Ret:
  "dump_string s = Ret t \<longleftrightarrow> utf8 s \<and> t = [quote] @ concat (map escape_byte s) @ [quote]"
  by (rule dump_escaped_cases[of s]) (auto simp: dump_string_def)

end
