(* ===== verification/Json_Decimal.thy ===== *)
theory Json_Decimal
  imports Json_Dump
begin

text \<open>
  What the serializer prints for an integer: counting digits by ten thousands and writing them in
  pairs from the end of a buffer gives the decimal digits, and the buffer is large enough.
\<close>

section \<open>What an integer is printed as\<close>

lemma digits_base_step: "10 \<le> x \<Longrightarrow> digits_base 10 x = digits_base 10 (x div 10) @ [x mod 10]"
  by (subst digits_base.simps) simp

lemma show_dec_two:
  assumes "100 \<le> x"
  shows "show_dec x = show_dec (x div 100) @ [digit_char (x mod 100 div 10), digit_char (x mod 10)]"
proof -
  have "x div 10 mod 10 = x mod 100 div 10" "x div 10 div 10 = x div 100"
    using mod_mult2_eq[of x 10 10] div_mult2_eq[of x 10 10] by simp_all
  then show ?thesis
    using assms digits_base_step[of x] digits_base_step[of "x div 10"] by (simp add: show_dec_def)
qed

lemma show_dec_digit:
  "x < 10 \<Longrightarrow> show_dec x = [char_of (48 + x)]"
  "10 \<le> x \<Longrightarrow> x < 100 \<Longrightarrow> show_dec x = [digit_char (x div 10), digit_char (x mod 10)]"
  by (simp_all add: show_dec_def digits_base.simps[of 10 x] digits_base.simps[of 10 "x div 10"] digit_char_def)

lemma count_digits_length: "count_digits x = length (show_dec x)"
proof -
  have "count_digits_from n x + 1 = n + length (show_dec x)" for n
  proof (induction n x rule: count_digits_from.induct)
    case (1 n x)
    have len: "length (show_dec y) = Suc (length (show_dec (y div 10)))" if "10 \<le> y" for y
      using digits_base_step[OF that] by (simp add: show_dec_def)
    have one: "length (show_dec y) = 1" if "y < 10" for y
      using that by (simp add: show_dec_digit)
    have "x div 10 div 10 = x div 100" "x div 100 div 10 = x div 1000" "x div 1000 div 10 = x div 10000"
      by (simp_all add: div_mult2_eq[symmetric])
    then show ?case
      using 1 len[of x] len[of "x div 10"] len[of "x div 100"] len[of "x div 1000"]
        one[of x] one[of "x div 10"] one[of "x div 100"] one[of "x div 1000"]
      by (auto simp: count_digits_from.simps[of n x] less_eq_div_iff_mult_less_eq div_less_iff_less_mult)
  qed
  from this[of 1] show ?thesis
    by (simp add: count_digits_def)
qed

lemma put_two_split:
  assumes "d < 100" "2 \<le> p" "p \<le> length buf"
  shows "put_two d p buf = take (p - 2) buf @ [digit_char (d div 10), digit_char (d mod 10)] @ drop p buf"
proof -
  obtain a x y b where "buf = a @ x # y # b" "p = length a + 2"
  proof -
    have "buf = take (p - 2) buf @ buf ! (p - 2) # buf ! (p - 1) # drop p buf"
      using assms(2,3) id_take_nth_drop[of "p - 2" buf] Cons_nth_drop_Suc[of "p - 1" buf] by (simp add: numeral_2_eq_2 Suc_diff_Suc)
    then show thesis
      using that assms(2,3) by (metis length_take min.absorb2 le_add_diff_inverse2 diff_le_self order_trans)
  qed
  then show ?thesis
    using assms(1) by (simp add: put_two_def digits_to_99_def list_update_append)
qed

lemma fill_digits_split:
  assumes "length (show_dec x) \<le> p" "p \<le> length buf"
  shows "fill_digits x p buf = take (p - length (show_dec x)) buf @ show_dec x @ drop p buf"
  using assms
proof (induction x p buf rule: fill_digits.induct)
  case (1 x p buf)
  consider "x < 10" | "10 \<le> x" "x < 100" | "100 \<le> x"
    by linarith
  then show ?case
  proof cases
    case 1
    then show ?thesis
      using "1.prems" upd_conv_take_nth_drop[of "p - 1" buf]
      by (simp add: fill_digits.simps[of x p buf] show_dec_digit)
  next
    case 2
    then show ?thesis
      using "1.prems" put_two_split[of x p buf]
      by (simp add: fill_digits.simps[of x p buf] show_dec_digit numeral_2_eq_2)
  next
    case 3
    let ?n = "length (show_dec (x div 100))"
    have p: "?n + 2 \<le> p"
      using "1.prems"(1) show_dec_two[OF 3] by simp
    have two: "put_two (x mod 100) p buf =
        take (p - 2) buf @ [digit_char (x mod 100 div 10), digit_char (x mod 10)] @ drop p buf"
      using put_two_split[of "x mod 100" p buf] "1.prems"(2) p mod_mod_cancel[of 10 100 x] by simp
    have "p \<le> length (put_two (x mod 100) p buf)"
      using "1.prems"(2) by (simp add: put_two_def)
    then have "fill_digits x p buf = take (p - 2 - ?n) (put_two (x mod 100) p buf) @ show_dec (x div 100) @
        drop (p - 2) (put_two (x mod 100) p buf)"
      using "1.IH"[OF 3] p 3 by (simp add: fill_digits.simps[of x p buf])
    moreover have "take (p - 2 - ?n) (put_two (x mod 100) p buf) = take (p - (?n + 2)) buf"
      using "1.prems"(2) p unfolding two by (simp add: min_absorb1)
    moreover have "drop (p - 2) (put_two (x mod 100) p buf) =
        [digit_char (x mod 100 div 10), digit_char (x mod 10)] @ drop p buf"
      using "1.prems"(2) p unfolding two by simp
    ultimately show ?thesis
      by (simp only: show_dec_two[OF 3] length_append append_assoc) simp
  qed
qed

text \<open>The table and the buffer compute the decimal digits, and the buffer of 64 characters is large enough.\<close>

lemma sint_eq_64:
  fixes x :: "64 word"
  shows "sint x = uint x - 2 ^ 64 * of_bool (bit (uint x) 63)"
  by (simp add: sint_uint signed_take_bit_eq_take_bit_minus take_bit_int_eq_self uint_lt2p[of x, simplified])

lemma sint_cases:
  fixes x :: "64 word"
  obtains (nonneg) "0 \<le> sint x" "sint x = int (unat x)"
  | (negative) "sint x < 0" "sint x = - int (unat (- x))"
proof (cases "bit (uint x) 63")
  case True
  then have x: "sint x = uint x - 2 ^ 64" "x \<noteq> 0"
    using sint_eq_64[of x] by auto
  have "uint (- x) = (- uint x) mod 2 ^ 64"
    using uint_word_ariths(4)[of x] by simp
  also have "\<dots> = 2 ^ 64 - uint x"
    using uint_lt2p[of x] x(2) by (simp add: zmod_zminus1_eq_if uint_0_iff)
  finally have "uint (- x) = 2 ^ 64 - uint x" .
  then show thesis
    using negative x uint_lt2p[of x] by simp
next
  case False
  then have "sint x = uint x"
    using sint_eq_64[of x] by simp
  then show thesis
    using nonneg by simp
qed

lemma length_show_dec_64: "n < 2 ^ 64 \<Longrightarrow> length (show_dec n) \<le> 20"
  using length_digits_base[of 10 20 n] by (simp add: show_dec_def)

definition int_text :: "int \<Rightarrow> string" where
  "int_text i = (if i < 0 then [CHR ''-''] else []) @ show_dec (nat \<bar>i\<bar>)"

lemma fill_digits_taken:
  assumes "q + length (show_dec x) = p" "p \<le> length buf"
  shows "take p (fill_digits x p buf) = take q buf @ show_dec x"
  using fill_digits_split[of x p buf] assms by auto

lemma dump_integer_text: "dump_integer is_signed x = Ret (int_text (if is_signed then sint x else uint x))"
proof (cases "x = 0")
  case True
  then show ?thesis
    by (simp add: dump_integer_def int_text_def)
next
  case False
  let ?buf = "replicate 64 (CHR 0x00)"
  have len: "length (show_dec (unat y)) \<le> 20" for y :: "64 word"
    using unsigned_less[of y, where ?'a = nat] by (intro length_show_dec_64) simp
  show ?thesis
  proof (cases "is_signed \<and> sint x < 0")
    case True
    let ?t = "show_dec (unat (- x))"
    have val: "nat \<bar>sint x\<bar> = unat (- x)"
      using True by (cases x rule: sint_cases) auto
    have "take (1 + length ?t) (fill_digits (unat (- x)) (1 + length ?t) (?buf[0 := CHR ''-''])) = CHR ''-'' # ?t"
      using fill_digits_taken[of 1 "unat (- x)" "1 + length ?t" "?buf[0 := CHR ''-'']"] len[of "- x"]
      by (simp add: take_update_swap)
    then show ?thesis
      using True False len[of "- x"] val
      by (simp add: dump_integer_def number_buffer_size_def remove_sign_def count_digits_length int_text_def)
  next
    case nonneg: False
    let ?t = "show_dec (unat x)"
    have val: "(if is_signed then sint x else uint x) = int (unat x)"
      using nonneg by (cases x rule: sint_cases) auto
    have "take (length ?t) (fill_digits (unat x) (length ?t) ?buf) = ?t"
      using fill_digits_taken[of 0 "unat x" "length ?t" ?buf] len[of x] by simp
    moreover have "\<not> (is_signed \<and> \<not> 0 \<le> sint x)"
      using nonneg by auto
    ultimately show ?thesis
      using False len[of x] unfolding val
      by (cases is_signed) (simp_all add: dump_integer_def number_buffer_size_def count_digits_length int_text_def)
  qed
qed

end
