(* ===== verification/Json_Lexer.thy ===== *)
theory Json_Lexer
  imports Json_Utf8 Json_Decimal
begin

text \<open>
  The scanner of \<open>vendor/json.hpp\<close>: tokens and their values. A scanning function takes the input that is left
  and returns a token and what is left then; a character that is read again (\<open>unget\<close>) stays in the
  input. Positions and the text read last, which only describe errors, are not kept. Conversion of a
  decimal number to a double is the C library's \<open>strtod\<close>, an argument; the decimal point of the locale
  is the dot, as no locale is set.
\<close>

datatype token_type =
    Literal_true
  | Literal_false
  | Literal_null
  | Value_string string
  | Value_unsigned "64 word"
  | Value_integer "64 word"
  | Value_float "64 word" string
  | Begin_array
  | Begin_object
  | End_array
  | End_object
  | Name_separator
  | Value_separator
  | Parse_error string
  | End_of_input

section \<open>Strings\<close>

text \<open>Four hexadecimal digits after \<open>\u\<close>, each shifted by its factor.\<close>

fun get_codepoint :: "nat list \<Rightarrow> nat \<Rightarrow> string \<Rightarrow> (nat \<times> string) option" where
  "get_codepoint [] codepoint s = Some (codepoint, s)"
| "get_codepoint (factor # fs) codepoint [] = None"
| "get_codepoint (factor # fs) codepoint (c # s) =
     (case digit_value c of
        None \<Rightarrow> None
      | Some d \<Rightarrow> get_codepoint fs (codepoint + push_bit factor d) s)"

definition hex_factors :: "nat list" where
  "hex_factors = [12, 8, 4, 0]"

text \<open>The bytes of a code point.\<close>

definition codepoint_bytes :: "nat \<Rightarrow> string" where
  "codepoint_bytes codepoint =
     map char_of
       (if codepoint < 0x80 then [codepoint]
        else if codepoint \<le> 0x7FF then [0xC0 OR drop_bit 6 codepoint, 0x80 OR (codepoint AND 0x3F)]
        else if codepoint \<le> 0xFFFF then
          [0xE0 OR drop_bit 12 codepoint, 0x80 OR (drop_bit 6 codepoint AND 0x3F), 0x80 OR (codepoint AND 0x3F)]
        else
          [0xF0 OR drop_bit 18 codepoint, 0x80 OR (drop_bit 12 codepoint AND 0x3F),
           0x80 OR (drop_bit 6 codepoint AND 0x3F), 0x80 OR (codepoint AND 0x3F)])"

text \<open>What one round of the loop over the characters of a string does: it ends, adds bytes and goes on with
  the rest of the input, or fails.\<close>

datatype string_step = Closing | Appended string string | Invalid string

definition surrogate_error :: string where
  "surrogate_error = ''invalid string: surrogate U+DC00..U+DFFF must be followed by U+DC00..U+DFFF''"

definition hex_error :: string where
  "hex_error = ''invalid string: '' @ [CHR 0x27, backslash] @ ''u'' @ [CHR 0x27] @ '' must be followed by 4 hex digits''"

definition scan_unicode :: "string \<Rightarrow> string_step" where
  "scan_unicode s =
     (case get_codepoint hex_factors 0 s of
        None \<Rightarrow> Invalid hex_error
      | Some (codepoint1, s1) \<Rightarrow>
          if 0xD800 \<le> codepoint1 \<and> codepoint1 \<le> 0xDBFF then
            (case s1 of
               c1 # c2 # s2 \<Rightarrow>
                 if c1 = backslash \<and> c2 = CHR ''u'' then
                   (case get_codepoint hex_factors 0 s2 of
                      None \<Rightarrow> Invalid hex_error
                    | Some (codepoint2, s3) \<Rightarrow>
                        if 0xDC00 \<le> codepoint2 \<and> codepoint2 \<le> 0xDFFF
                        then Appended (codepoint_bytes (push_bit 10 codepoint1 + codepoint2 - 0x35FDC00)) s3
                        else Invalid surrogate_error)
                 else Invalid surrogate_error
             | _ \<Rightarrow> Invalid surrogate_error)
          else if 0xDC00 \<le> codepoint1 \<and> codepoint1 \<le> 0xDFFF then
            Invalid ''invalid string: surrogate U+DC00..U+DFFF must follow U+D800..U+DBFF''
          else Appended (codepoint_bytes codepoint1) s1)"

definition scan_escape :: "string \<Rightarrow> string_step" where
  "scan_escape s =
     (case s of
        [] \<Rightarrow> Invalid ''invalid string: forbidden character after backslash''
      | c # s' \<Rightarrow>
          if c = quote \<or> c = backslash \<or> c = CHR ''/'' then Appended [c] s'
          else if c = CHR ''b'' then Appended [CHR 0x08] s'
          else if c = CHR ''f'' then Appended [CHR 0x0C] s'
          else if c = CHR ''n'' then Appended [CHR 0x0A] s'
          else if c = CHR ''r'' then Appended [CHR 0x0D] s'
          else if c = CHR ''t'' then Appended [CHR 0x09] s'
          else if c = CHR ''u'' then scan_unicode s'
          else Invalid ''invalid string: forbidden character after backslash'')"

fun next_byte_in_range :: "(nat \<times> nat) list \<Rightarrow> string \<Rightarrow> string \<Rightarrow> string_step" where
  "next_byte_in_range [] buf s = Appended buf s"
| "next_byte_in_range (r # rs) buf [] = Invalid ''invalid string: ill-formed UTF-8 byte''"
| "next_byte_in_range (r # rs) buf (c # s) =
     (if fst r \<le> of_char c \<and> of_char c \<le> snd r then next_byte_in_range rs (buf @ [c]) s
      else Invalid ''invalid string: ill-formed UTF-8 byte'')"

text \<open>The names of the control characters, and how each must be escaped.\<close>

definition control_names :: "string list" where
  "control_names =
     [''NUL'', ''SOH'', ''STX'', ''ETX'', ''EOT'', ''ENQ'', ''ACK'', ''BEL'', ''BS'', ''HT'', ''LF'', ''VT'', ''FF'', ''CR'', ''SO'', ''SI'',
      ''DLE'', ''DC1'', ''DC2'', ''DC3'', ''DC4'', ''NAK'', ''SYN'', ''ETB'', ''CAN'', ''EM'', ''SUB'', ''ESC'', ''FS'', ''GS'', ''RS'', ''US'']"

definition control_error :: "nat \<Rightarrow> string" where
  "control_error b =
     ''invalid string: control character U+00'' @ show_byte b @ '' ('' @ control_names ! b @ '') must be escaped to '' @
     [backslash] @ ''u00'' @ show_byte b @
     (case map_of [(0x08, ''b''), (0x09, ''t''), (0x0A, ''n''), (0x0C, ''f''), (0x0D, ''r'')] b of
        None \<Rightarrow> [] | Some t \<Rightarrow> '' or '' @ [backslash] @ t)"

definition scan_char :: "char \<Rightarrow> string \<Rightarrow> string_step" where
  "scan_char c s =
     (if c = quote then Closing
      else if c = backslash then scan_escape s
      else if of_char c \<le> (0x1F :: nat) then Invalid (control_error (of_char c))
      else case utf8_ranges (of_char c) of
             None \<Rightarrow> Invalid ''invalid string: ill-formed UTF-8 byte''
           | Some rs \<Rightarrow> next_byte_in_range rs [c] s)"

lemma get_codepoint_length: "get_codepoint fs cp s = Some (cp', s') \<Longrightarrow> length s' \<le> length s"
  by (induction fs cp s rule: get_codepoint.induct) (auto split: option.splits)

lemma next_byte_length: "next_byte_in_range rs buf s = Appended bs s' \<Longrightarrow> length s' \<le> length s"
  by (induction rs buf s rule: next_byte_in_range.induct) (auto split: if_splits)

lemma scan_char_length: "scan_char c s = Appended bs s' \<Longrightarrow> length s' \<le> length s"
  by (auto simp: scan_char_def scan_escape_def scan_unicode_def
      split: if_splits list.splits option.splits dest!: get_codepoint_length next_byte_length)

function scan_string :: "string \<Rightarrow> string \<Rightarrow> token_type \<times> string" where
  "scan_string buf [] = (Parse_error ''invalid string: missing closing quote'', [])"
| "scan_string buf (c # s) =
     (case scan_char c s of
        Closing \<Rightarrow> (Value_string buf, s)
      | Appended bs s' \<Rightarrow> scan_string (buf @ bs) s'
      | Invalid m \<Rightarrow> (Parse_error m, s))"
  by pat_completeness auto
termination
  by (relation "measure (\<lambda>(buf, s). length s)") (auto dest: scan_char_length)

section \<open>Numbers\<close>

text \<open>The states of the automaton are the labels of the code.\<close>

datatype number_state = Minus | Zero | Any1 | Decimal1 | Decimal2 | Exponent | Sign | Any2

datatype number_type = Unsigned | Integer | Float

definition is_digit :: "char \<Rightarrow> bool" where
  "is_digit c = (48 \<le> (of_char c :: nat) \<and> (of_char c :: nat) \<le> 57)"

definition is_exponent :: "char \<Rightarrow> bool" where
  "is_exponent c = (c = CHR ''e'' \<or> c = CHR ''E'')"

text \<open>One character in a state: the next state and number type, the end of the number, or an error.\<close>

datatype number_step = Goto number_state number_type | Done | Wrong string

fun number_next :: "number_state \<Rightarrow> number_type \<Rightarrow> char option \<Rightarrow> number_step" where
  "number_next Minus t (Some c) =
     (if c = CHR ''0'' then Goto Zero Integer else if is_digit c then Goto Any1 Integer
      else Wrong (''invalid number; expected digit after '' @ [CHR 0x27] @ ''-'' @ [CHR 0x27]))"
| "number_next Minus t None = Wrong (''invalid number; expected digit after '' @ [CHR 0x27] @ ''-'' @ [CHR 0x27])"
| "number_next Zero t (Some c) =
     (if c = CHR ''.'' then Goto Decimal1 Float else if is_exponent c then Goto Exponent Float else Done)"
| "number_next Zero t None = Done"
| "number_next Any1 t (Some c) =
     (if is_digit c then Goto Any1 t else if c = CHR ''.'' then Goto Decimal1 Float
      else if is_exponent c then Goto Exponent Float else Done)"
| "number_next Any1 t None = Done"
| "number_next Decimal1 t (Some c) =
     (if is_digit c then Goto Decimal2 t
      else Wrong (''invalid number; expected digit after '' @ [CHR 0x27] @ ''.'' @ [CHR 0x27]))"
| "number_next Decimal1 t None = Wrong (''invalid number; expected digit after '' @ [CHR 0x27] @ ''.'' @ [CHR 0x27])"
| "number_next Decimal2 t (Some c) =
     (if is_digit c then Goto Decimal2 t else if is_exponent c then Goto Exponent Float else Done)"
| "number_next Decimal2 t None = Done"
| "number_next Exponent t (Some c) =
     (if c = CHR ''+'' \<or> c = CHR ''-'' then Goto Sign t else if is_digit c then Goto Any2 t
      else Wrong (''invalid number; expected '' @ [CHR 0x27] @ ''+'' @ [CHR 0x27] @ '', '' @ [CHR 0x27] @ ''-'' @ [CHR 0x27] @
        '', or digit after exponent''))"
| "number_next Exponent t None =
     Wrong (''invalid number; expected '' @ [CHR 0x27] @ ''+'' @ [CHR 0x27] @ '', '' @ [CHR 0x27] @ ''-'' @ [CHR 0x27] @
        '', or digit after exponent'')"
| "number_next Sign t (Some c) =
     (if is_digit c then Goto Any2 t else Wrong ''invalid number; expected digit after exponent sign'')"
| "number_next Sign t None = Wrong ''invalid number; expected digit after exponent sign''"
| "number_next Any2 t (Some c) = (if is_digit c then Goto Any2 t else Done)"
| "number_next Any2 t None = Done"

text \<open>The end of a number: the type and the text read, or the error.\<close>

fun scan_number_from :: "number_state \<Rightarrow> number_type \<Rightarrow> string \<Rightarrow> string \<Rightarrow> (string + number_type \<times> string) \<times> string" where
  "scan_number_from st t buf [] =
     (case number_next st t None of Wrong m \<Rightarrow> (Inl m, []) | _ \<Rightarrow> (Inr (t, buf), []))"
| "scan_number_from st t buf (c # s) =
     (case number_next st t (Some c) of
        Goto st' t' \<Rightarrow> scan_number_from st' t' (buf @ [c]) s
      | Done \<Rightarrow> (Inr (t, buf), c # s)
      | Wrong m \<Rightarrow> (Inl m, s))"

definition dec_value :: "string \<Rightarrow> int" where
  "dec_value s = foldl (\<lambda>acc c. acc * 10 + (of_char c - 48)) 0 s"

text \<open>\<open>strtoull\<close> and \<open>strtoll\<close> on a scanned number; out of range is \<open>ERANGE\<close>.\<close>

definition strtoull :: "string \<Rightarrow> 64 word option" where
  "strtoull s = (if dec_value s < 2 ^ 64 then Some (of_int (dec_value s)) else None)"

definition strtoll :: "string \<Rightarrow> 64 word option" where
  "strtoll s =
     (let v = - dec_value (tl s) in if - (2 ^ 63) \<le> v then Some (of_int v) else None)"

definition scan_number :: "(string \<Rightarrow> 64 word) \<Rightarrow> char \<Rightarrow> string \<Rightarrow> token_type \<times> string" where
  "scan_number strtod c s =
     (case scan_number_from (if c = CHR ''-'' then Minus else if c = CHR ''0'' then Zero else Any1) Unsigned [c] s of
        (Inl m, s') \<Rightarrow> (Parse_error m, s')
      | (Inr (t, buf), s') \<Rightarrow>
          (let int_value = (case t of Unsigned \<Rightarrow> map_option Value_unsigned (strtoull buf)
                            | Integer \<Rightarrow> map_option Value_integer (strtoll buf)
                            | Float \<Rightarrow> None)
           in (case int_value of Some tok \<Rightarrow> tok | None \<Rightarrow> Value_float (strtod buf) buf, s')))"

section \<open>Tokens\<close>

fun scan_literal :: "string \<Rightarrow> token_type \<Rightarrow> string \<Rightarrow> token_type \<times> string" where
  "scan_literal [] t s = (t, s)"
| "scan_literal (l # ls) t [] = (Parse_error ''invalid literal'', [])"
| "scan_literal (l # ls) t (c # s) = (if c = l then scan_literal ls t s else (Parse_error ''invalid literal'', s))"

definition is_blank :: "char \<Rightarrow> bool" where
  "is_blank c = (c = CHR '' '' \<or> c = CHR 0x09 \<or> c = CHR 0x0A \<or> c = CHR 0x0D)"

fun scan :: "(string \<Rightarrow> 64 word) \<Rightarrow> string \<Rightarrow> token_type \<times> string" where
  "scan strtod [] = (End_of_input, [])"
| "scan strtod (c # s) =
     (if is_blank c then scan strtod s
      else if c = CHR ''['' then (Begin_array, s)
      else if c = CHR '']'' then (End_array, s)
      else if c = CHR ''{'' then (Begin_object, s)
      else if c = CHR ''}'' then (End_object, s)
      else if c = CHR '':'' then (Name_separator, s)
      else if c = CHR '','' then (Value_separator, s)
      else if c = CHR ''t'' then scan_literal ''rue'' Literal_true s
      else if c = CHR ''f'' then scan_literal ''alse'' Literal_false s
      else if c = CHR ''n'' then scan_literal ''ull'' Literal_null s
      else if c = quote then scan_string [] s
      else if c = CHR ''-'' \<or> is_digit c then scan_number strtod c s
      else if c = CHR 0x00 then (End_of_input, s)
      else (Parse_error ''invalid literal'', s))"

text \<open>The first token: a byte order mark is skipped.\<close>

definition scan_first :: "(string \<Rightarrow> 64 word) \<Rightarrow> string \<Rightarrow> token_type \<times> string" where
  "scan_first strtod s =
     (case s of
        c # s' \<Rightarrow>
          if of_char c = (0xEF :: nat) then
            (if map of_char (take 2 s') = [0xBB, 0xBF :: nat] then scan strtod (drop 2 s')
             else (Parse_error ''invalid BOM; must be 0xEF 0xBB 0xBF if given'', s'))
          else scan strtod s
      | [] \<Rightarrow> scan strtod s)"

end
