(* ===== verification/Json_Lexer_Properties.thy ===== *)
theory Json_Lexer_Properties
  imports Json_Lexer
begin

text \<open>
  What the scanner does: it consumes its input, reads back what the serializer prints for strings and
  numbers, and returns only well-formed UTF-8.
\<close>

named_theorems scan_simps \<open>evaluation of the scanner\<close>

section \<open>Consumption\<close>

lemma scan_string_length: "scan_string buf s = (t, s') \<Longrightarrow> length s' \<le> length s"
proof (induction buf s rule: scan_string.induct)
  case (2 buf c s)
  then show ?case
    by (auto split: string_step.splits dest: scan_char_length)
qed simp

lemma scan_number_from_length: "scan_number_from st t buf s = (r, s') \<Longrightarrow> length s' \<le> length s"
  by (induction st t buf s rule: scan_number_from.induct) (auto split: number_step.splits)

lemma scan_number_length: "scan_number strtod c s = (t, s') \<Longrightarrow> length s' \<le> length s"
  by (auto simp: scan_number_def Let_def split: prod.splits sum.splits dest: scan_number_from_length)

lemma scan_literal_length: "scan_literal ls t s = (t', s') \<Longrightarrow> length s' \<le> length s"
  by (induction ls t s rule: scan_literal.induct) (auto split: if_splits)

lemma scan_length: "scan strtod s = (t, s') \<Longrightarrow> length s' \<le> length s - 1"
proof (induction s)
  case (Cons c s)
  show ?case
  proof (cases "is_blank c")
    case True
    then show ?thesis
      using Cons by auto
  next
    case False
    then show ?thesis
      using Cons.prems scan_string_length[of "[]" s t s'] scan_number_length[of strtod c s t s']
        scan_literal_length[of "''rue''" Literal_true s t s'] scan_literal_length[of "''alse''" Literal_false s t s']
        scan_literal_length[of "''ull''" Literal_null s t s']
      by (simp split: if_splits)
  qed
qed simp

section \<open>Strings\<close>

lemma utf8_rest_append: "utf8_rest rs s \<Longrightarrow> utf8_rest rs (s @ t) \<longleftrightarrow> utf8 t"
  by (induction rs s rule: utf8_rest.induct) (auto simp: utf8_def split: option.splits)

lemma utf8_append: "utf8 s \<Longrightarrow> utf8 t \<Longrightarrow> utf8 (s @ t)"
  using utf8_rest_append[of "[]" s t] by (simp add: utf8_def)

lemma utf8_Nil [simp]: "utf8 []"
  by (simp add: utf8_def)

lemma next_byte_utf8:
  "next_byte_in_range rs buf s = Appended bs s' \<Longrightarrow> \<exists>t. bs = buf @ t \<and> utf8_rest rs t"
  by (induction rs buf s rule: next_byte_in_range.induct) (fastforce split: if_splits)+

lemma or_low:
  fixes x :: nat
  assumes "x < 2 ^ k"
  shows "n * 2 ^ k OR x = n * 2 ^ k + x"
proof -
  have "\<not> bit x i" if "k \<le> i" for i
    using assms that by (metis bit_take_bit_iff take_bit_nat_eq_self not_le)
  then have "push_bit k n + x = push_bit k n OR x"
    by (intro disjunctive_add) (auto simp: bit_push_bit_iff)
  then show ?thesis
    by (simp add: push_bit_eq_mult)
qed

lemma low_six: "(cp AND 0x3F) = cp mod 64" for cp :: nat
  using take_bit_eq_mask[of 6 cp] by (simp add: mask_eq_exp_minus_1 take_bit_nat_def)

lemmas codepoint_arith = low_six drop_bit_eq_div or_low[of _ 6 2, simplified] or_low[of _ 6 3, simplified]
  or_low[of _ 4 14, simplified] or_low[of _ 3 30, simplified]

lemma digit_value_less: "digit_value c = Some d \<Longrightarrow> d < 16"
  by (auto simp: digit_value_def Let_def split: if_splits)

lemma get_codepoint_less:
  assumes "get_codepoint hex_factors 0 s = Some (cp, s')"
  shows "cp < 0x10000"
proof -
  have "get_codepoint fs cp0 s = Some (cp, s') \<Longrightarrow> cp \<le> cp0 + 15 * sum_list (map ((^) 2) fs)" for fs cp0
  proof (induction fs cp0 s rule: get_codepoint.induct)
    case (3 factor fs codepoint c s)
    then obtain d where d: "digit_value c = Some d"
        "cp \<le> codepoint + push_bit factor d + 15 * sum_list (map ((^) 2) fs)"
      by (auto split: option.splits)
    moreover have "push_bit factor d \<le> 15 * 2 ^ factor"
      using digit_value_less[OF d(1)] by (simp add: push_bit_eq_mult)
    ultimately show ?case
      by simp
  qed auto
  from this[OF assms] show ?thesis
    by (simp add: hex_factors_def)
qed

lemma utf8_rest_bytes:
  "b < 256 \<Longrightarrow> utf8_rest [] (char_of b # s) \<longleftrightarrow> (case utf8_ranges b of None \<Rightarrow> False | Some rs \<Rightarrow> utf8_rest rs s)"
  "b < 256 \<Longrightarrow> utf8_rest (r # rs) (char_of b # s) \<longleftrightarrow> fst r \<le> b \<and> b \<le> snd r \<and> utf8_rest rs s"
  by (simp_all add: of_char_of)

lemma codepoint_bytes_utf8:
  assumes "cp < 0xD800 \<or> 0xDFFF < cp" "cp \<le> 0x10FFFF"
  shows "utf8 (codepoint_bytes cp)"
proof -
  have div: "cp div 64 div 64 = cp div 4096" "cp div 4096 div 64 = cp div 262144"
    by (simp_all add: div_mult2_eq[symmetric])
  have mod64: "y mod 64 \<le> 63" for y :: nat
    using mod_less_divisor[of 64 y] by linarith
  consider "cp < 0x80" | "0x80 \<le> cp" "cp \<le> 0x7FF" | "0x800 \<le> cp" "cp \<le> 0xFFFF" | "0x10000 \<le> cp"
    by linarith
  then show ?thesis
  proof cases
    case 1
    then show ?thesis
      by (simp add: codepoint_bytes_def utf8_def utf8_ranges_def of_char_of)
  next
    case 2
    then have "2 \<le> cp div 64" "cp div 64 < 32"
      by linarith+
    then show ?thesis
      using 2 by (simp add: codepoint_bytes_def utf8_def codepoint_arith utf8_rest_bytes utf8_ranges_def del: utf8_rest.simps(2,4))
  next
    case 3
    let ?a = "cp div 4096" and ?b = "cp div 64 mod 64"
    have range: "?a < 16" "?a = 0 \<Longrightarrow> 0x20 \<le> ?b" "?a = 0xD \<Longrightarrow> ?b < 0x20"
    proof -
      show "?a < 16"
        using 3 by linarith
      have "cp div 64 = ?a * 64 + ?b"
        using div(1) by (metis div_mult_mod_eq)
      moreover have "0x20 \<le> cp div 64"
        using 3 by linarith
      ultimately show "?a = 0 \<Longrightarrow> 0x20 \<le> ?b"
        by simp
      show "?b < 0x20" if "?a = 0xD"
      proof -
        have "cp < 0xD800"
          using assms(1) that by linarith
        then have "cp div 64 < 0x360"
          by linarith
        then show ?thesis
          using \<open>cp div 64 = ?a * 64 + ?b\<close> that by linarith
      qed
    qed
    have "(0xE0 OR ?a) = 0xE0 + ?a"
      using range(1) codepoint_arith(5)[of ?a] by simp
    moreover have "cp div 64 \<le> 63" if "?a = 0"
      using that by linarith
    ultimately show ?thesis
      using 3 range mod64[of cp] mod64[of "cp div 64"]
      by (simp add: codepoint_bytes_def utf8_def low_six drop_bit_eq_div codepoint_arith(3) utf8_rest_bytes utf8_ranges_def
          del: utf8_rest.simps(2,4)) linarith
  next
    case 4
    let ?a = "cp div 262144" and ?b = "cp div 4096 mod 64"
    have split: "cp div 4096 = ?a * 64 + ?b"
      using div(2) by (metis div_mult_mod_eq)
    have range: "?a < 5" "?a = 0 \<Longrightarrow> 0x10 \<le> ?b" "?a = 4 \<Longrightarrow> ?b < 0x10"
      using 4 assms(2) split by linarith+
    have "(0xF0 OR ?a) = 0xF0 + ?a"
      using range(1) codepoint_arith(6)[of ?a] by simp
    moreover have "cp div 4096 \<le> 63" if "?a = 0"
      using that by linarith
    ultimately show ?thesis
      using 4 range mod64[of cp] mod64[of "cp div 64"] mod64[of "cp div 4096"]
      by (simp add: codepoint_bytes_def utf8_def low_six drop_bit_eq_div codepoint_arith(3) utf8_rest_bytes utf8_ranges_def
          del: utf8_rest.simps(2,4)) linarith
  qed
qed

lemma surrogate_pair:
  assumes "0xD800 \<le> a" "a \<le> 0xDBFF" "0xDC00 \<le> b" "b \<le> 0xDFFF"
  shows "0x10000 \<le> push_bit 10 a + b - 0x35FDC00" "push_bit 10 a + b - 0x35FDC00 \<le> (0x10FFFF :: nat)"
  using assms by (simp_all add: push_bit_eq_mult)

lemma scan_unicode_utf8: "scan_unicode s = Appended bs s' \<Longrightarrow> utf8 bs"
proof -
  assume "scan_unicode s = Appended bs s'"
  then consider cp s1 where "get_codepoint hex_factors 0 s = Some (cp, s1)" "\<not> (0xD800 \<le> cp \<and> cp \<le> 0xDFFF)" "bs = codepoint_bytes cp"
    | a b where "0xD800 \<le> a" "a \<le> 0xDBFF" "0xDC00 \<le> b" "b \<le> 0xDFFF" "bs = codepoint_bytes (push_bit 10 a + b - 0x35FDC00)"
    by (force simp: scan_unicode_def split: option.splits if_splits list.splits)
  then show "utf8 bs"
  proof cases
    case 1
    then show ?thesis
      using get_codepoint_less[OF 1(1)] by (auto intro!: codepoint_bytes_utf8)
  next
    case 2
    then show ?thesis
      using surrogate_pair[OF 2(1-4)] by (auto intro!: codepoint_bytes_utf8)
  qed
qed

lemma scan_char_utf8:
  assumes "scan_char c s = Appended bs s'"
  shows "utf8 bs"
proof (cases "c = backslash")
  case True
  then have "scan_escape s = Appended bs s'"
    using assms by (simp add: scan_char_def quote_def backslash_def)
  moreover have "utf8 [x]" if "of_char x < (0x80 :: nat)" for x
    using that by (simp add: utf8_def utf8_ranges_def)
  ultimately show ?thesis
    using scan_unicode_utf8
    by (auto simp: scan_escape_def quote_def backslash_def split: list.splits if_splits)
next
  case False
  then obtain rs where "utf8_ranges (of_char c) = Some rs" "next_byte_in_range rs [c] s = Appended bs s'"
    using assms by (auto simp: scan_char_def split: if_splits option.splits)
  then show ?thesis
    using next_byte_utf8[of rs "[c]" s bs s'] by (auto simp: utf8_def)
qed

lemma scan_string_utf8: "scan_string buf s = (Value_string t, s') \<Longrightarrow> utf8 buf \<Longrightarrow> utf8 t"
proof (induction buf s rule: scan_string.induct)
  case (2 buf c s)
  then show ?case
    by (auto split: string_step.splits dest: scan_char_utf8 utf8_append)
qed simp

text \<open>Reading back what was printed.\<close>

lemma get_codepoint_hex:
  assumes "length t = 4" "\<forall>c \<in> set t. digit_value c \<noteq> None"
  shows "get_codepoint hex_factors 0 (t @ s) = Some (hex_value t, s)"
proof -
  obtain a b c d where "t = [a, b, c, d]"
    using assms(1) by (auto simp: numeral_eq_Suc length_Suc_conv)
  then show ?thesis
    using assms(2) by (auto simp: hex_factors_def hex_value_def push_bit_eq_mult)
qed

lemma control_escape:
  assumes "n < 0x20"
  shows "get_codepoint hex_factors 0 (pad_zero 4 (show_hex n) @ s) = Some (n, s)"
proof -
  have "\<forall>c \<in> set (pad_zero 4 (show_hex n)). digit_value c \<noteq> None"
    using digits_base_less[of 16 n] by (auto simp: pad_zero_def show_hex_def)
  then show ?thesis
    using get_codepoint_hex[of "pad_zero 4 (show_hex n)" s] length_pad_hex[of n 4] assms by simp
qed

text \<open>One byte below 128 as it is printed.\<close>

lemma escape_byte_cases:
  assumes "of_char c < (0x80 :: nat)"
  obtains (short) e where "escape_byte c = [backslash, e]" "\<And>s. scan_escape (e # s) = Appended [c] s"
  | (long) "escape_byte c = [backslash, CHR ''u''] @ pad_zero 4 (show_hex (of_char c))" "of_char c < (0x20 :: nat)"
  | (plain) "escape_byte c = [c]" "0x20 \<le> (of_char c :: nat)" "c \<noteq> quote" "c \<noteq> backslash"
proof -
  let ?n = "of_char c :: nat"
  have un: "unat (of_nat ?n :: 32 word) = ?n"
    using assms by (simp add: unat_of_nat)
  have code: "escape_byte c =
     (if ?n = 0x08 then [backslash, CHR ''b''] else if ?n = 0x09 then [backslash, CHR ''t'']
      else if ?n = 0x0A then [backslash, CHR ''n''] else if ?n = 0x0C then [backslash, CHR ''f'']
      else if ?n = 0x0D then [backslash, CHR ''r''] else if ?n = 0x22 then [backslash, quote]
      else if ?n = 0x5C then [backslash, backslash]
      else if ?n \<le> 0x1F then [backslash, CHR ''u''] @ pad_zero 4 (show_hex ?n) else [c])"
    using assms un by (simp add: escape_byte_def escape_code_def word_unat_eq_iff word_le_nat_alt)
  have char: "?n = 0x08 \<Longrightarrow> c = CHR 0x08" "?n = 0x09 \<Longrightarrow> c = CHR 0x09" "?n = 0x0A \<Longrightarrow> c = CHR 0x0A"
      "?n = 0x0C \<Longrightarrow> c = CHR 0x0C" "?n = 0x0D \<Longrightarrow> c = CHR 0x0D" "?n = 0x22 \<Longrightarrow> c = CHR 0x22" "?n = 0x5C \<Longrightarrow> c = CHR 0x5C"
    by (rule of_char_eqI[where 'a = nat], simp)+
  show thesis
  proof (cases "?n \<in> {0x08, 0x09, 0x0A, 0x0C, 0x0D, 0x22, 0x5C}")
    case True
    then show thesis
      using short code
      by (auto simp: scan_escape_def backslash_def quote_def dest: char)
  next
    case False
    then have "c \<noteq> quote" "c \<noteq> backslash"
      by (auto simp: quote_def backslash_def)
    then show thesis
      using False code long plain by (cases "?n \<le> 0x1F") auto
  qed
qed

lemma scan_char_ascii:
  assumes "of_char c < (0x80 :: nat)"
  shows "\<exists>e es. escape_byte c = e # es \<and> scan_char e (es @ s) = Appended [c] s"
  using assms
proof (cases rule: escape_byte_cases)
  case (short e)
  then show ?thesis
    by (simp add: scan_char_def quote_def backslash_def)
next
  case long
  moreover have "codepoint_bytes (of_char c) = [c]"
    using assms by (simp add: codepoint_bytes_def)
  ultimately show ?thesis
    using control_escape[of "of_char c" s]
    by (simp add: scan_char_def scan_escape_def scan_unicode_def quote_def backslash_def)
next
  case plain
  then show ?thesis
    using assms by (simp add: scan_char_def utf8_ranges_def)
qed

lemma next_byte_read:
  assumes "utf8_rest rs s"
  obtains s1 s2 where "s = s1 @ s2" "utf8 s2" "\<And>buf t. next_byte_in_range rs buf (s1 @ t) = Appended (buf @ s1) t"
    "\<forall>c \<in> set s1. \<exists>r \<in> set rs. fst r \<le> of_char c"
  using assms
proof (induction rs s arbitrary: thesis rule: utf8_rest.induct)
  case 1
  show ?case
    by (rule "1.prems"(1)[of "[]" "[]"]) simp_all
next
  case (2 c s)
  show ?case
    by (rule "2.prems"(1)[of "[]" "c # s"]) (use "2.prems"(2) in \<open>simp_all add: utf8_def\<close>)
next
  case (4 r rs c s)
  then have range: "utf8_rest rs s" "fst r \<le> of_char c" "of_char c \<le> snd r"
    by auto
  then obtain s1 s2 where IH: "s = s1 @ s2" "utf8 s2" "\<And>buf t. next_byte_in_range rs buf (s1 @ t) = Appended (buf @ s1) t"
      "\<forall>c \<in> set s1. \<exists>r \<in> set rs. fst r \<le> of_char c"
    using "4.IH" by blast
  show ?case
    by (rule "4.prems"(1)[of "c # s1" s2]) (use IH range in auto)
qed simp

lemma utf8_ranges_high: "utf8_ranges b = Some rs \<Longrightarrow> r \<in> set rs \<Longrightarrow> 0x80 \<le> fst r"
  by (auto simp: utf8_ranges_def split: if_splits)

lemma escape_high: "\<forall>c \<in> set s. 0x80 \<le> (of_char c :: nat) \<Longrightarrow> concat (map escape_byte s) = s"
  by (induction s) (auto simp: escape_byte_def)

text \<open>One code point of well-formed text.\<close>

lemma utf8_Cons:
  assumes "utf8 (c # s)"
  obtains s1 s2 where "s = s1 @ s2" "utf8 s2"
    "\<And>t. \<exists>e es. escape_byte c @ concat (map escape_byte s1) = e # es \<and> scan_char e (es @ t) = Appended (c # s1) t"
proof -
  obtain rs where rs: "utf8_ranges (of_char c) = Some rs" "utf8_rest rs s"
    using assms by (auto simp: utf8_def split: option.splits)
  show thesis
  proof (cases "rs = []")
    case True
    then have "of_char c < (0x80 :: nat)"
      using rs(1) by (auto simp: utf8_ranges_def split: if_splits)
    then show thesis
      using that[of "[]" s] scan_char_ascii[of c] rs(2) True by (auto simp: utf8_def)
  next
    case False
    then have c: "0x80 \<le> (of_char c :: nat)"
      using rs(1) by (auto simp: utf8_ranges_def split: if_splits)
    obtain s1 s2 where s: "s = s1 @ s2" "utf8 s2" "\<forall>c \<in> set s1. \<exists>r \<in> set rs. fst r \<le> of_char c"
        and read: "\<And>buf t. next_byte_in_range rs buf (s1 @ t) = Appended (buf @ s1) t"
      using next_byte_read[OF rs(2)] by metis
    have "concat (map escape_byte s1) = s1"
      using s(3) utf8_ranges_high[OF rs(1)] by (intro escape_high) (meson order_trans)
    moreover have "c \<noteq> quote" "c \<noteq> backslash"
      using c by (auto simp: quote_def backslash_def)
    ultimately show thesis
      using that[OF s(1,2)] read[of "[c]"] rs(1) c by (simp add: escape_byte_def scan_char_def)
  qed
qed

lemma scan_string_read:
  "utf8 s \<Longrightarrow> scan_string buf (concat (map escape_byte s) @ quote # t) = (Value_string (buf @ s), t)"
proof (induction s arbitrary: buf rule: length_induct)
  case (1 s)
  show ?case
  proof (cases s)
    case Nil
    then show ?thesis
      by (simp add: scan_char_def)
  next
    case (Cons c s')
    then obtain s1 s2 where s: "s' = s1 @ s2" "utf8 s2"
        and ch: "\<And>t. \<exists>e es. escape_byte c @ concat (map escape_byte s1) = e # es \<and> scan_char e (es @ t) = Appended (c # s1) t"
      using utf8_Cons[of c s'] "1.prems" by metis
    obtain e es where "escape_byte c @ concat (map escape_byte s1) = e # es"
        "scan_char e (es @ concat (map escape_byte s2) @ quote # t) = Appended (c # s1) (concat (map escape_byte s2) @ quote # t)"
      using ch by blast
    moreover have "length s2 < length s"
      using Cons s(1) by simp
    ultimately show ?thesis
      using "1.IH"[rule_format, of s2 "buf @ c # s1"] s Cons by (simp add: append_assoc[symmetric] del: append_assoc)
  qed
qed

section \<open>Numbers\<close>

text \<open>Characters that cannot go on a number; every value is followed by one of them or by the end.\<close>

definition ends_number :: "string \<Rightarrow> bool" where
  "ends_number s = (case s of [] \<Rightarrow> True | c # _ \<Rightarrow> \<not> is_digit c \<and> c \<noteq> CHR ''.'' \<and> \<not> is_exponent c)"

lemma scan_number_digits:
  assumes "\<forall>c \<in> set ds. is_digit c" "ends_number s"
  shows "scan_number_from Any1 t buf (ds @ s) = (Inr (t, buf @ ds), s)"
  using assms
proof (induction ds arbitrary: buf)
  case Nil
  then show ?case
    by (cases s) (auto simp: ends_number_def)
qed auto

lemma is_digit_char: "d < 10 \<Longrightarrow> is_digit (digit_char d)"
  by (simp add: is_digit_def digit_char_def)

lemma digits_of_show_dec: "\<forall>c \<in> set (show_dec n). is_digit c"
  using digits_base_less[of 10 n] by (auto simp: show_dec_def is_digit_char)

lemma dec_value_show_dec [simp]: "dec_value (show_dec n) = int n"
proof -
  have digit: "of_char (digit_char d) - 48 = int d" if "d < 10" for d
  proof -
    have "(of_char (digit_char d) :: nat) = 48 + d"
      using that by (simp add: digit_char_def)
    then have "(of_char (digit_char d) :: int) = int (48 + d)"
      using of_nat_of_char[of "digit_char d", where ?'a = int] by metis
    then show ?thesis
      by simp
  qed
  have "foldl (\<lambda>acc c. acc * 10 + (of_char c - 48)) (int a) (map digit_char ds) = int (foldl (\<lambda>acc d. acc * 10 + d) a ds)"
    if "\<forall>d \<in> set ds. d < 10" for a ds
    using that
  proof (induction ds arbitrary: a)
    case (Cons d ds)
    then show ?case
      using Cons.IH[of "a * 10 + d"] digit[of d] by simp
  qed simp
  from this[of "digits_base 10 n" 0] show ?thesis
    using digits_base_less[of 10 n] value_digits_base[of 10 n] by (simp add: dec_value_def show_dec_def)
qed

lemma hd_digits: "0 < n \<Longrightarrow> hd (digits_base 10 n) \<noteq> 0"
proof (induction n rule: less_induct)
  case (less n)
  then show ?case
    by (cases "n < 10") (simp_all add: digits_base.simps[of 10 n])
qed

lemma show_dec_first:
  assumes "0 < n"
  obtains c ds where "show_dec n = c # ds" "is_digit c" "c \<noteq> CHR ''0''"
proof -
  obtain d ds where d: "digits_base 10 n = d # ds"
    by (metis digits_base_nonempty list.exhaust)
  then have "d < 10" "d \<noteq> 0"
    using hd_digits[OF assms] digits_base_less[of 10 n] by auto
  moreover from this have "digit_char d \<noteq> CHR ''0''"
    using digit_value_char[of d] by force
  ultimately show thesis
    using that[of "digit_char d" "map digit_char ds"] d by (simp add: show_dec_def is_digit_char)
qed

lemma scan_number_unsigned:
  assumes "ends_number s" "show_dec (unat x) = c # ds"
  shows "scan_number strtod c (ds @ s) = (Value_unsigned x, s)"
proof -
  have start: "scan_number_from (if c = CHR ''-'' then Minus else if c = CHR ''0'' then Zero else Any1) Unsigned [c] (ds @ s) =
      (Inr (Unsigned, c # ds), s)"
  proof (cases "unat x = 0")
    case True
    then have "c = CHR ''0''" "ds = []"
      using assms(2) by auto
    then show ?thesis
      using assms(1) by (cases s) (auto simp: ends_number_def)
  next
    case False
    then have "is_digit c" "c \<noteq> CHR ''0''" "\<forall>c \<in> set ds. is_digit c"
      using show_dec_first[of "unat x"] digits_of_show_dec[of "unat x"] assms(2) by auto
    moreover have "c \<noteq> CHR ''-''"
      using \<open>is_digit c\<close> by (auto simp: is_digit_def)
    ultimately show ?thesis
      using scan_number_digits[of ds s Unsigned "[c]"] assms(1) by simp
  qed
  have "dec_value (c # ds) = int (unat x)"
    using assms(2) dec_value_show_dec by metis
  then have "strtoull (c # ds) = Some x"
    using uint_lt2p[of x] by (simp add: strtoull_def)
  then show ?thesis
    using start by (simp add: scan_number_def)
qed

lemma scan_number_negative:
  assumes "ends_number s" "sint x < 0"
  shows "scan_number strtod (CHR ''-'') (show_dec (nat \<bar>sint x\<bar>) @ s) = (Value_integer x, s)"
proof -
  let ?n = "nat \<bar>sint x\<bar>"
  obtain c ds where c: "show_dec ?n = c # ds" "is_digit c" "c \<noteq> CHR ''0''"
    using show_dec_first[of ?n] assms(2) by auto
  then have "scan_number_from Minus Unsigned ''-'' (show_dec ?n @ s) = (Inr (Integer, CHR ''-'' # show_dec ?n), s)"
    using scan_number_digits[of ds s Integer "[CHR ''-'', c]"] assms(1) digits_of_show_dec[of ?n] by simp
  moreover have "strtoll (CHR ''-'' # show_dec ?n) = Some x"
    using assms(2) sint_ge[of x] by (simp add: strtoll_def)
  ultimately show ?thesis
    by (simp add: scan_number_def)
qed

end
