(* ===== verification/Json_Parser.thy ===== *)
theory Json_Parser
  imports Json_Lexer_Properties
begin

text \<open>
  The parser of \<open>vendor/json.hpp\<close>: the loop over tokens with its stack of states (\<open>sax_parse_internal\<close>), and
  the consumer of its events that builds the value (\<open>json_sax_dom_parser\<close>). The stack of references
  into the value being built is a stack of the arrays and objects that are open; one is put into the
  one around it when it ends. An error is an exception value, which \<open>parse\<close> throws or turns into a
  discarded value.
\<close>

section \<open>Building the value\<close>

datatype frame = Array_frame "json list" | Object_frame object "string option"

record dom =
  root :: json
  ref_stack :: "frame list"

definition handle_value :: "json \<Rightarrow> dom \<Rightarrow> dom res" where
  "handle_value v d =
     (case ref_stack d of
        [] \<Rightarrow> Ret (d\<lparr>root := v\<rparr>)
      | Array_frame xs # fs \<Rightarrow> Ret (d\<lparr>ref_stack := Array_frame (xs @ [v]) # fs\<rparr>)
      | Object_frame m None # fs \<Rightarrow> Abort
      | Object_frame m (Some k) # fs \<Rightarrow> Ret (d\<lparr>ref_stack := Object_frame (map_set k v m) (Some k) # fs\<rparr>))"

definition start_object :: "dom \<Rightarrow> dom" where
  "start_object d = d\<lparr>ref_stack := Object_frame [] None # ref_stack d\<rparr>"

definition start_array :: "dom \<Rightarrow> dom" where
  "start_array d = d\<lparr>ref_stack := Array_frame [] # ref_stack d\<rparr>"

definition sax_key :: "string \<Rightarrow> dom \<Rightarrow> dom res" where
  "sax_key k d =
     (case ref_stack d of
        Object_frame m _ # fs \<Rightarrow>
          Ret (d\<lparr>ref_stack := Object_frame (if map_of m k = None then map_set k JNull m else m) (Some k) # fs\<rparr>)
      | _ \<Rightarrow> Abort)"

definition end_container :: "dom \<Rightarrow> dom res" where
  "end_container d =
     (case ref_stack d of
        [] \<Rightarrow> Abort
      | Array_frame xs # fs \<Rightarrow> handle_value (JArray xs) (d\<lparr>ref_stack := fs\<rparr>)
      | Object_frame m _ # fs \<Rightarrow> handle_value (JObject m) (d\<lparr>ref_stack := fs\<rparr>))"

section \<open>The loop over tokens\<close>

fun token_type_name :: "token_type \<Rightarrow> string" where
  "token_type_name Literal_true = ''true literal''"
| "token_type_name Literal_false = ''false literal''"
| "token_type_name Literal_null = ''null literal''"
| "token_type_name (Value_string s) = ''string literal''"
| "token_type_name (Value_unsigned n) = ''number literal''"
| "token_type_name (Value_integer n) = ''number literal''"
| "token_type_name (Value_float x s) = ''number literal''"
| "token_type_name Begin_array = [CHR 0x27] @ ''['' @ [CHR 0x27]"
| "token_type_name Begin_object = [CHR 0x27] @ ''{'' @ [CHR 0x27]"
| "token_type_name End_array = [CHR 0x27] @ '']'' @ [CHR 0x27]"
| "token_type_name End_object = [CHR 0x27] @ ''}'' @ [CHR 0x27]"
| "token_type_name Name_separator = [CHR 0x27] @ '':'' @ [CHR 0x27]"
| "token_type_name Value_separator = [CHR 0x27] @ '','' @ [CHR 0x27]"
| "token_type_name (Parse_error m) = ''<parse error>''"
| "token_type_name End_of_input = ''end of input''"

text \<open>Error 101, for an unexpected token; the position and the text read last are left out.\<close>

definition exception_message :: "token_type \<Rightarrow> string \<Rightarrow> string \<Rightarrow> string" where
  "exception_message last_token expected ctxt =
     ''syntax error while parsing '' @ ctxt @ '' - '' @
     (case last_token of Parse_error m \<Rightarrow> m | t \<Rightarrow> ''unexpected '' @ token_type_name t) @
     (if expected = [] then [] else ''; expected '' @ expected)"

definition unexpected :: "token_type \<Rightarrow> string \<Rightarrow> string \<Rightarrow> 'a res" where
  "unexpected last_token expected ctxt = Throw (ParseError 101 (exception_message last_token expected ctxt))"

definition literal_or_value :: string where
  "literal_or_value = [CHR 0x27] @ ''['' @ [CHR 0x27] @ '', '' @ [CHR 0x27] @ ''{'' @ [CHR 0x27] @ '', or a literal''"

text \<open>
  A round of the loop ends the parsing (\<open>Return\<close>) or goes on (\<open>Continue\<close>) with the last token, or with none
  where the code sets \<open>skip_to_state_evaluation\<close>; the switch over the token may also reach the
  evaluation of the states (\<open>Break\<close>). The states are true for an array and false for an object.
\<close>

datatype loop_step =
    Continue "token_type option" string "bool list" dom
  | Break string "bool list" dom
  | Return string dom

text \<open>A key, its separator and the token after it.\<close>

definition parse_key :: "(string \<Rightarrow> 64 word) \<Rightarrow> token_type \<Rightarrow> string \<Rightarrow> bool list \<Rightarrow> dom \<Rightarrow> loop_step res" where
  "parse_key strtod tok s states d =
     (case tok of
        Value_string k \<Rightarrow>
          bind_res (sax_key k d) (\<lambda>d1.
            case scan strtod s of
              (Name_separator, s2) \<Rightarrow>
                (case scan strtod s2 of (tok3, s3) \<Rightarrow> Ret (Continue (Some tok3) s3 states d1))
            | (tok2, s2) \<Rightarrow> unexpected tok2 (token_type_name Name_separator) ''object separator'')
      | _ \<Rightarrow> unexpected tok (token_type_name (Value_string [])) ''object key'')"

definition parse_scalar :: "json \<Rightarrow> string \<Rightarrow> bool list \<Rightarrow> dom \<Rightarrow> loop_step res" where
  "parse_scalar v s states d = bind_res (handle_value v d) (\<lambda>d1. Ret (Break s states d1))"

definition parse_token :: "(string \<Rightarrow> 64 word) \<Rightarrow> token_type \<Rightarrow> string \<Rightarrow> bool list \<Rightarrow> dom \<Rightarrow> loop_step res" where
  "parse_token strtod tok s states d =
     (case tok of
        Begin_object \<Rightarrow>
          (case scan strtod s of
             (End_object, s1) \<Rightarrow> bind_res (end_container (start_object d)) (\<lambda>d1. Ret (Break s1 states d1))
           | (tok1, s1) \<Rightarrow> parse_key strtod tok1 s1 (False # states) (start_object d))
      | Begin_array \<Rightarrow>
          (case scan strtod s of
             (End_array, s1) \<Rightarrow> bind_res (end_container (start_array d)) (\<lambda>d1. Ret (Break s1 states d1))
           | (tok1, s1) \<Rightarrow> Ret (Continue (Some tok1) s1 (True # states) (start_array d)))
      | Value_float x buf \<Rightarrow>
          if is_finite x then parse_scalar (JFloat x) s states d
          else Throw (OutOfRange (''[json.exception.out_of_range.406] number overflow parsing '' @ [CHR 0x27] @ buf @ [CHR 0x27]))
      | Literal_false \<Rightarrow> parse_scalar (JBool False) s states d
      | Literal_null \<Rightarrow> parse_scalar JNull s states d
      | Literal_true \<Rightarrow> parse_scalar (JBool True) s states d
      | Value_integer n \<Rightarrow> parse_scalar (JInt n) s states d
      | Value_string t \<Rightarrow> parse_scalar (JString t) s states d
      | Value_unsigned n \<Rightarrow> parse_scalar (JUInt n) s states d
      | Parse_error m \<Rightarrow> unexpected tok [] ''value''
      | _ \<Rightarrow> unexpected tok literal_or_value ''value'')"

definition evaluate_states :: "(string \<Rightarrow> 64 word) \<Rightarrow> string \<Rightarrow> bool list \<Rightarrow> dom \<Rightarrow> loop_step res" where
  "evaluate_states strtod s states d =
     (case states of
        [] \<Rightarrow> Ret (Return s d)
      | is_array # states' \<Rightarrow>
          if is_array then
            (case scan strtod s of
               (Value_separator, s1) \<Rightarrow> (case scan strtod s1 of (tok2, s2) \<Rightarrow> Ret (Continue (Some tok2) s2 states d))
             | (End_array, s1) \<Rightarrow> bind_res (end_container d) (\<lambda>d1. Ret (Continue None s1 states' d1))
             | (tok, s1) \<Rightarrow> unexpected tok (token_type_name End_array) ''array'')
          else
            (case scan strtod s of
               (Value_separator, s1) \<Rightarrow> (case scan strtod s1 of (tok2, s2) \<Rightarrow> parse_key strtod tok2 s2 states d)
             | (End_object, s1) \<Rightarrow> bind_res (end_container d) (\<lambda>d1. Ret (Continue None s1 states' d1))
             | (tok, s1) \<Rightarrow> unexpected tok (token_type_name End_object) ''object''))"

definition loop_round :: "(string \<Rightarrow> 64 word) \<Rightarrow> token_type option \<Rightarrow> string \<Rightarrow> bool list \<Rightarrow> dom \<Rightarrow> loop_step res" where
  "loop_round strtod last_token s states d =
     (case last_token of
        None \<Rightarrow> evaluate_states strtod s states d
      | Some tok \<Rightarrow>
          bind_res (parse_token strtod tok s states d) (\<lambda>r.
            case r of Break s1 states1 d1 \<Rightarrow> evaluate_states strtod s1 states1 d1 | _ \<Rightarrow> Ret r))"

text \<open>Every round takes input, except one that opens an array at the end of the input.\<close>

definition loop_measure :: "token_type option \<Rightarrow> string \<Rightarrow> nat" where
  "loop_measure last_token s = 2 * length s + (if last_token = Some Begin_array then 1 else 0)"

lemma scan_consumes: "scan strtod s = (t, s') \<Longrightarrow> t \<noteq> End_of_input \<Longrightarrow> length s' < length s"
  using scan_length[of strtod s t s'] by (cases s) auto

lemma parse_key_Ret:
  assumes "parse_key strtod tok s states d = Ret r"
  obtains k d1 s2 tok3 s3 where "tok = Value_string k" "sax_key k d = Ret d1" "scan strtod s = (Name_separator, s2)"
    "scan strtod s2 = (tok3, s3)" "r = Continue (Some tok3) s3 states d1"
proof -
  obtain k where k: "tok = Value_string k"
    using assms by (cases tok) (auto simp: parse_key_def unexpected_def)
  then obtain d1 where d1: "sax_key k d = Ret d1"
    using assms by (cases "sax_key k d") (auto simp: parse_key_def)
  obtain tok2 s2 where s2: "scan strtod s = (tok2, s2)"
    by fastforce
  have "tok2 = Name_separator"
    using assms k d1 s2 by (cases tok2) (auto simp: parse_key_def unexpected_def)
  then show thesis
    using assms that k d1 s2 by (cases "scan strtod s2") (auto simp: parse_key_def)
qed

lemma evaluate_states_Ret:
  assumes "evaluate_states strtod s states d = Ret r"
  obtains (finished) "states = []" "r = Return s d"
  | (element) st tok2 s1 s2 where "states = True # st" "scan strtod s = (Value_separator, s1)" "scan strtod s1 = (tok2, s2)"
      "r = Continue (Some tok2) s2 states d"
  | (member) st tok2 s1 s2 where "states = False # st" "scan strtod s = (Value_separator, s1)" "scan strtod s1 = (tok2, s2)"
      "parse_key strtod tok2 s2 states d = Ret r"
  | (close) a st tok s1 d1 where "states = a # st" "scan strtod s = (tok, s1)" "tok = (if a then End_array else End_object)"
      "end_container d = Ret d1" "r = Continue None s1 st d1"
proof (cases states)
  case Nil
  then show thesis
    using finished assms by (simp add: evaluate_states_def)
next
  case (Cons a st)
  obtain tok s1 where s1: "scan strtod s = (tok, s1)"
    by fastforce
  consider "tok = Value_separator" | "tok = (if a then End_array else End_object)"
    using assms Cons s1 by (cases a; cases tok) (auto simp: evaluate_states_def unexpected_def)
  then show thesis
  proof cases
    case 1
    then show thesis
      using assms Cons s1 element member
      by (cases a; cases "scan strtod s1") (auto simp: evaluate_states_def)
  next
    case 2
    then obtain d1 where d1: "end_container d = Ret d1"
      using assms Cons s1 by (cases a; cases "end_container d") (auto simp: evaluate_states_def)
    then show thesis
      using assms Cons s1 2 by (cases a) (auto simp: evaluate_states_def intro: close)
  qed
qed

lemma parse_token_Ret:
  assumes "parse_token strtod tok s states d = Ret r"
  obtains (empty_object) s1 d1 where "tok = Begin_object" "scan strtod s = (End_object, s1)"
      "end_container (start_object d) = Ret d1" "r = Break s1 states d1"
  | (object) tok1 s1 where "tok = Begin_object" "scan strtod s = (tok1, s1)"
      "parse_key strtod tok1 s1 (False # states) (start_object d) = Ret r"
  | (empty_array) s1 d1 where "tok = Begin_array" "scan strtod s = (End_array, s1)"
      "end_container (start_array d) = Ret d1" "r = Break s1 states d1"
  | (array) tok1 s1 where "tok = Begin_array" "scan strtod s = (tok1, s1)" "tok1 \<noteq> End_array"
      "r = Continue (Some tok1) s1 (True # states) (start_array d)"
  | (scalar) v d1 where "tok \<noteq> Begin_object" "tok \<noteq> Begin_array" "handle_value v d = Ret d1" "r = Break s states d1"
      "v \<in> {JBool True, JBool False, JNull} \<or> (\<exists>n. v = JInt n \<or> v = JUInt n \<or> v = JFloat n) \<or>
        (\<exists>t. tok = Value_string t \<and> v = JString t)"
proof -
  obtain tok1 s1 where s1: "scan strtod s = (tok1, s1)"
    by fastforce
  show thesis
  proof (cases tok)
    case Begin_object
    show thesis
    proof (cases "tok1 = End_object")
      case True
      then show thesis
        using assms Begin_object s1 empty_object
        by (cases "end_container (start_object d)") (auto simp: parse_token_def)
    next
      case False
      then have "parse_key strtod tok1 s1 (False # states) (start_object d) = Ret r"
        using assms Begin_object s1 by (cases tok1) (auto simp: parse_token_def)
      then show thesis
        using object Begin_object s1 by blast
    qed
  next
    case Begin_array
    show thesis
    proof (cases "tok1 = End_array")
      case True
      then show thesis
        using assms Begin_array s1 empty_array
        by (cases "end_container (start_array d)") (auto simp: parse_token_def)
    next
      case False
      then have "r = Continue (Some tok1) s1 (True # states) (start_array d)"
        using assms Begin_array s1 by (cases tok1) (auto simp: parse_token_def)
      then show thesis
        using array Begin_array s1 False by blast
    qed
  qed (use assms scalar in \<open>auto simp: parse_token_def parse_scalar_def unexpected_def split: if_splits\<close>)
qed

lemma parse_key_less:
  assumes "parse_key strtod tok s states d = Ret (Continue l s' st d')"
  shows "length s' < length s"
  using assms
proof (cases rule: parse_key_Ret)
  case (1 k d1 s2 tok3 s3)
  then show ?thesis
    using scan_consumes[OF 1(3)] scan_length[OF 1(4)] by simp
qed

lemma evaluate_less:
  assumes "evaluate_states strtod s states d = Ret (Continue l s' st d')"
  shows "length s' < length s"
  using assms
proof (cases rule: evaluate_states_Ret)
  case (element st tok2 s1 s2)
  then show ?thesis
    using scan_consumes[OF element(2)] scan_length[OF element(3)] by simp
next
  case (member st tok2 s1 s2)
  then show ?thesis
    using scan_consumes[OF member(2)] scan_length[OF member(3)] parse_key_less[OF member(4)] by simp
next
  case (close a st tok s1 d1)
  then show ?thesis
    using scan_consumes[OF close(2)] by (simp split: if_splits)
qed simp

lemma loop_round_Ret:
  assumes "loop_round strtod last_token s states d = Ret r"
  obtains (evaluate) s1 states1 d1 where "evaluate_states strtod s1 states1 d1 = Ret r"
      "last_token = None \<and> (s1, states1, d1) = (s, states, d) \<or>
       (\<exists>tok. last_token = Some tok \<and> parse_token strtod tok s states d = Ret (Break s1 states1 d1))"
  | (token) tok where "last_token = Some tok" "parse_token strtod tok s states d = Ret r" "\<And>s1 st1 d1. r \<noteq> Break s1 st1 d1"
proof (cases last_token)
  case None
  then show thesis
    using assms evaluate by (simp add: loop_round_def)
next
  case (Some tok)
  then obtain r1 where r1: "parse_token strtod tok s states d = Ret r1"
    using assms by (cases "parse_token strtod tok s states d") (auto simp: loop_round_def)
  then show thesis
    using assms evaluate token Some by (cases r1) (auto simp: loop_round_def)
qed

lemma parse_token_less:
  assumes "parse_token strtod tok s states d = Ret r"
  shows "case r of Continue l s' st d' \<Rightarrow> loop_measure l s' < loop_measure (Some tok) s
    | Break s' st d' \<Rightarrow> length s' \<le> length s | Return s' d' \<Rightarrow> False"
  using assms
proof (cases rule: parse_token_Ret)
  case (object tok1 s1)
  from object(3) obtain tok3 s3 d3 where "r = Continue (Some tok3) s3 (False # states) d3" "length s3 < length s1"
    using parse_key_less by (metis parse_key_Ret)
  then show ?thesis
    using scan_length[OF object(2)] by (auto simp: loop_measure_def)
next
  case (array tok1 s1)
  then show ?thesis
    using scan_length[OF array(2)] by (cases s) (auto simp: loop_measure_def)
next
  case (empty_object s1 d1)
  then show ?thesis
    using scan_length[OF empty_object(2)] by simp
next
  case (empty_array s1 d1)
  then show ?thesis
    using scan_length[OF empty_array(2)] by simp
qed simp

lemma loop_round_less:
  assumes "loop_round strtod last_token s states d = Ret (Continue l s' st d')"
  shows "loop_measure l s' < loop_measure last_token s"
  using assms
proof (cases rule: loop_round_Ret)
  case (evaluate s1 states1 d1)
  have "length s' < length s1"
    by (rule evaluate_less[OF evaluate(1)])
  moreover have "length s1 \<le> length s"
    using evaluate(2) parse_token_less by fastforce
  ultimately show ?thesis
    by (simp add: loop_measure_def)
next
  case (token tok)
  then show ?thesis
    using parse_token_less[OF token(2)] by simp
qed

function sax_parse_internal :: "(string \<Rightarrow> 64 word) \<Rightarrow> token_type option \<Rightarrow> string \<Rightarrow> bool list \<Rightarrow> dom \<Rightarrow> (dom \<times> string) res" where
  "sax_parse_internal strtod last_token s states d =
     (case loop_round strtod last_token s states d of
        Ret (Continue l s1 states1 d1) \<Rightarrow> sax_parse_internal strtod l s1 states1 d1
      | Ret (Return s1 d1) \<Rightarrow> Ret (d1, s1)
      | Ret (Break s1 states1 d1) \<Rightarrow> Abort
      | Throw e \<Rightarrow> Throw e
      | Abort \<Rightarrow> Abort)"
  by pat_completeness auto
termination
  by (relation "measure (\<lambda>(strtod, l, s, states, d). loop_measure l s)") (auto dest: loop_round_less)

declare sax_parse_internal.simps [simp del]

section \<open>Parsing a text\<close>

text \<open>\<open>json::parse(text)\<close>: the constructor of the parser reads the first token; in strict mode nothing may follow
  the value.\<close>

definition json_parse :: "(string \<Rightarrow> 64 word) \<Rightarrow> string \<Rightarrow> json res" where
  "json_parse strtod s =
     (case scan_first strtod s of
        (tok, s1) \<Rightarrow>
          bind_res (sax_parse_internal strtod (Some tok) s1 [] \<lparr>root = JNull, ref_stack = []\<rparr>) (\<lambda>(d, s2).
            case scan strtod s2 of
              (End_of_input, s3) \<Rightarrow> Ret (root d)
            | (tok2, s3) \<Rightarrow> unexpected tok2 (token_type_name End_of_input) ''value''))"

text \<open>\<open>json::parse(text, nullptr, false)\<close> returns a discarded value for an error.\<close>

definition json_parse_value :: "(string \<Rightarrow> 64 word) \<Rightarrow> string \<Rightarrow> json option" where
  "json_parse_value strtod s = (case json_parse strtod s of Ret j \<Rightarrow> Some j | _ \<Rightarrow> None)"

end
