(* ===== verification/Json_Text.thy ===== *)
theory Json_Text
  imports Json_Parser
begin

text \<open>
  JSON as text: what the serializer prints is read back as the same value, the parser always ends with a
  well-formed value or an error, and printed text has no zero bytes, so that it can be passed as a C
  string.
\<close>

section \<open>The parser builds well-formed values\<close>

text \<open>All strings of a value, keys included, are well-formed UTF-8.\<close>

fun utf8_json :: "json \<Rightarrow> bool" where
  "utf8_json (JString s) \<longleftrightarrow> utf8 s"
| "utf8_json (JArray xs) \<longleftrightarrow> (\<forall>x \<in> set xs. utf8_json x)"
| "utf8_json (JObject m) \<longleftrightarrow> (\<forall>kv \<in> set m. utf8 (fst kv) \<and> utf8_json (snd kv))"
| "utf8_json _ \<longleftrightarrow> True"

definition good_json :: "json \<Rightarrow> bool" where
  "good_json j \<longleftrightarrow> wf_json j \<and> utf8_json j"

fun good_frame :: "frame \<Rightarrow> bool" where
  "good_frame (Array_frame xs) \<longleftrightarrow> good_json (JArray xs)"
| "good_frame (Object_frame m k) \<longleftrightarrow> good_json (JObject m) \<and> (\<forall>k'. k = Some k' \<longrightarrow> utf8 k')"

definition good_dom :: "dom \<Rightarrow> bool" where
  "good_dom d \<longleftrightarrow> good_json (root d) \<and> (\<forall>f \<in> set (ref_stack d). good_frame f)"

text \<open>The states mirror the open containers, and between rounds every open object has a key.\<close>

fun frame_state :: "frame \<Rightarrow> bool" where
  "frame_state (Array_frame xs) = True"
| "frame_state (Object_frame m k) = False"

fun has_key :: "frame \<Rightarrow> bool" where
  "has_key (Object_frame m k) \<longleftrightarrow> k \<noteq> None"
| "has_key (Array_frame xs) \<longleftrightarrow> True"

definition parser_inv :: "bool list \<Rightarrow> dom \<Rightarrow> bool" where
  "parser_inv states d \<longleftrightarrow>
     good_dom d \<and> map frame_state (ref_stack d) = states \<and> (\<forall>f \<in> set (ref_stack d). has_key f)"

fun good_token :: "token_type \<Rightarrow> bool" where
  "good_token (Value_string s) \<longleftrightarrow> utf8 s"
| "good_token _ \<longleftrightarrow> True"

lemma good_map_set:
  assumes "good_json (JObject m)" "good_json v" "utf8 k"
  shows "good_json (JObject (map_set k v m))"
  using assms set_map_set_subset[of k v m] by (auto simp: good_json_def)

lemma scan_good: "scan strtod s = (t, s') \<Longrightarrow> good_token t"
proof (induction s)
  case (Cons c s)
  have lit: "good_token t" if "scan_literal ls l s = (t, s')" "good_token l" for ls l
    using that by (induction ls l s rule: scan_literal.induct) (auto split: if_splits)
  have num: "good_token t" if "scan_number strtod c s = (t, s')"
    using that by (auto simp: scan_number_def Let_def split: prod.splits sum.splits option.splits number_type.splits)
  have str: "good_token t" if "scan_string [] s = (t, s')"
    using that scan_string_utf8[of "[]" s _ s'] by (cases t) auto
  show ?case
    using Cons lit[of "''rue''" Literal_true] lit[of "''alse''" Literal_false] lit[of "''ull''" Literal_null] num str
    by (simp split: if_splits) auto
qed simp

lemma handle_value_inv:
  assumes "parser_inv states d" "good_json v"
  shows "\<exists>d'. handle_value v d = Ret d' \<and> parser_inv states d'"
proof (cases "ref_stack d")
  case Nil
  then show ?thesis
    using assms by (auto simp: handle_value_def parser_inv_def good_dom_def)
next
  case (Cons f fs)
  show ?thesis
  proof (cases f)
    case (Array_frame xs)
    then show ?thesis
      using assms Cons by (auto simp: handle_value_def parser_inv_def good_dom_def good_json_def)
  next
    case (Object_frame m k)
    then obtain k' where "k = Some k'" "utf8 k'"
      using assms(1) Cons by (auto simp: parser_inv_def good_dom_def)
    then show ?thesis
      using assms Cons Object_frame good_map_set[of m v k']
      by (auto simp: handle_value_def parser_inv_def good_dom_def)
  qed
qed

lemma end_container_inv:
  assumes "good_dom d" "ref_stack d = f # fs" "\<forall>f \<in> set fs. has_key f" "map frame_state fs = states"
  shows "\<exists>d'. end_container d = Ret d' \<and> parser_inv states d'"
proof -
  have inv: "parser_inv states (d\<lparr>ref_stack := fs\<rparr>)"
    using assms by (simp add: parser_inv_def good_dom_def)
  have f: "good_frame f"
    using assms(1,2) by (simp add: good_dom_def)
  show ?thesis
  proof (cases f)
    case (Array_frame xs)
    then show ?thesis
      using handle_value_inv[OF inv, of "JArray xs"] f assms(2) by (simp add: end_container_def)
  next
    case (Object_frame m k)
    then show ?thesis
      using handle_value_inv[OF inv, of "JObject m"] f assms(2) by (simp add: end_container_def)
  qed
qed

definition ok_step :: "loop_step res \<Rightarrow> bool" where
  "ok_step r \<longleftrightarrow>
     (case r of
        Ret (Continue l s states d) \<Rightarrow> parser_inv states d \<and> (\<forall>tok. l = Some tok \<longrightarrow> good_token tok)
      | Ret (Break s states d) \<Rightarrow> parser_inv states d
      | Ret (Return s d) \<Rightarrow> good_json (root d)
      | Throw e \<Rightarrow> True
      | Abort \<Rightarrow> False)"

lemma ok_unexpected [simp]: "ok_step (unexpected t e c)"
  by (simp add: ok_step_def unexpected_def)

lemma ok_parse_key:
  assumes "good_dom d" "ref_stack d = Object_frame m k # fs" "\<forall>f \<in> set fs. has_key f" "map frame_state fs = states"
    and "good_token tok"
  shows "ok_step (parse_key strtod tok s (False # states) d)"
proof (cases "\<exists>k. tok = Value_string k")
  case False
  then show ?thesis
    by (cases tok) (auto simp: parse_key_def)
next
  case True
  then obtain k' where tok: "tok = Value_string k'" "utf8 k'"
    using assms(5) by auto
  have "good_json (JObject m)"
    using assms(1,2) by (simp add: good_dom_def)
  then have "good_json (JObject (map_set k' JNull m))"
    using good_map_set[OF _ _ tok(2), of m JNull] by (simp add: good_json_def)
  then obtain d1 where d1: "sax_key k' d = Ret d1" "parser_inv (False # states) d1"
    using assms tok(2) by (auto simp: sax_key_def parser_inv_def good_dom_def)
  obtain t2 s2 t3 s3 where scans: "scan strtod s = (t2, s2)" "scan strtod s2 = (t3, s3)"
    by fastforce
  then show ?thesis
    using tok(1) d1 scan_good[OF scans(2)]
    by (cases t2) (auto simp: parse_key_def, simp_all add: ok_step_def unexpected_def)
qed

lemma ok_parse_scalar: "parser_inv states d \<Longrightarrow> good_json v \<Longrightarrow> ok_step (parse_scalar v s states d)"
  using handle_value_inv[of states d v] by (auto simp: parse_scalar_def ok_step_def)

lemma good_scalars [simp]: "good_json JNull" "good_json (JBool b)" "good_json (JInt i)" "good_json (JUInt i)"
    "good_json (JFloat x)" "good_json (JArray [])" "good_json (JObject [])" "good_json (JString s) \<longleftrightarrow> utf8 s"
  by (simp_all add: good_json_def)

lemma ok_parse_token:
  assumes "parser_inv states d" "good_token tok"
  shows "ok_step (parse_token strtod tok s states d)"
proof -
  have stack: "good_dom d" "\<forall>f \<in> set (ref_stack d). has_key f" "map frame_state (ref_stack d) = states"
    using assms(1) by (auto simp: parser_inv_def)
  obtain t1 s1 where s1: "scan strtod s = (t1, s1)"
    by fastforce
  have empty: "ok_step (bind_res (end_container (start_object d)) (\<lambda>d1. Ret (Break s1 states d1)))"
      "ok_step (bind_res (end_container (start_array d)) (\<lambda>d1. Ret (Break s1 states d1)))"
    using end_container_inv[of "start_object d" _ "ref_stack d" states]
      end_container_inv[of "start_array d" _ "ref_stack d" states] stack
    by (auto simp: start_object_def start_array_def good_dom_def ok_step_def)
  have key: "ok_step (parse_key strtod t1 s1 (False # states) (start_object d))"
    using ok_parse_key[of "start_object d" "[]" None "ref_stack d" states t1 strtod s1] scan_good[OF s1] stack
    by (auto simp: start_object_def good_dom_def)
  have arr: "ok_step (Ret (Continue (Some t1) s1 (True # states) (start_array d)))"
    using stack scan_good[OF s1] by (auto simp: ok_step_def parser_inv_def start_array_def good_dom_def)
  show ?thesis
  proof (cases tok)
    case Begin_object
    then show ?thesis
      using empty(1) key s1 by (cases t1) (simp_all add: parse_token_def)
  next
    case Begin_array
    then show ?thesis
      using empty(2) arr s1 by (cases t1) (simp_all add: parse_token_def)
  next
    case (Value_float x buf)
    then show ?thesis
      using ok_parse_scalar[OF assms(1), of "JFloat x" s] by (simp add: parse_token_def ok_step_def)
  qed (use ok_parse_scalar[OF assms(1)] assms(2) in \<open>simp_all add: parse_token_def\<close>)
qed

lemma ok_evaluate:
  assumes "parser_inv states d"
  shows "ok_step (evaluate_states strtod s states d)"
proof (cases states)
  case Nil
  then show ?thesis
    using assms by (simp add: evaluate_states_def ok_step_def parser_inv_def good_dom_def)
next
  case (Cons a st)
  then obtain f fs where f: "ref_stack d = f # fs" "frame_state f = a" "map frame_state fs = st" "\<forall>f \<in> set fs. has_key f" "good_dom d"
    using assms by (auto simp: parser_inv_def)
  obtain t1 s1 t2 s2 where scans: "scan strtod s = (t1, s1)" "scan strtod s1 = (t2, s2)"
    by fastforce
  have close: "ok_step (bind_res (end_container d) (\<lambda>d1. Ret (Continue None s1 st d1)))"
    using end_container_inv[OF f(5,1,4,3)] by (auto simp: ok_step_def)
  have elem: "ok_step (Ret (Continue (Some t2) s2 states d))"
    using assms scan_good[OF scans(2)] by (simp add: ok_step_def)
  show ?thesis
  proof (cases a)
    case True
    then show ?thesis
      using Cons close elem scans by (cases t1) (simp_all add: evaluate_states_def)
  next
    case False
    then obtain m k where "f = Object_frame m k"
      using f(2) by (cases f) auto
    then have "ok_step (parse_key strtod t2 s2 (False # st) d)"
      using ok_parse_key[of d m k fs st t2 strtod s2] f scan_good[OF scans(2)] by simp
    then show ?thesis
      using Cons close False scans by (cases t1) (simp_all add: evaluate_states_def)
  qed
qed

lemma ok_round:
  assumes "parser_inv states d" "\<And>tok. l = Some tok \<Longrightarrow> good_token tok"
  shows "ok_step (loop_round strtod l s states d)"
proof (cases l)
  case None
  then show ?thesis
    using ok_evaluate assms(1) by (simp add: loop_round_def)
next
  case (Some tok)
  have tok: "ok_step (parse_token strtod tok s states d)"
    using ok_parse_token assms Some by blast
  show ?thesis
  proof (cases "\<exists>s1 st1 d1. parse_token strtod tok s states d = Ret (Break s1 st1 d1)")
    case True
    then obtain s1 st1 d1 where b: "parse_token strtod tok s states d = Ret (Break s1 st1 d1)"
      by blast
    then have "parser_inv st1 d1"
      using tok by (simp add: ok_step_def)
    then show ?thesis
      using ok_evaluate Some b by (simp add: loop_round_def)
  next
    case False
    then have "loop_round strtod l s states d = parse_token strtod tok s states d"
      using Some by (cases "parse_token strtod tok s states d") (auto simp: loop_round_def split: loop_step.splits)
    then show ?thesis
      using tok by simp
  qed
qed

lemma round_no_break: "loop_round strtod l s states d \<noteq> Ret (Break s1 st1 d1)"
proof
  assume "loop_round strtod l s states d = Ret (Break s1 st1 d1)"
  then show False
    by (cases rule: loop_round_Ret) (auto elim!: evaluate_states_Ret parse_key_Ret)
qed

lemma parser_outcome:
  assumes "parser_inv states d" "\<And>tok. l = Some tok \<Longrightarrow> good_token tok"
  shows "case sax_parse_internal strtod l s states d of
    Ret r \<Rightarrow> good_json (root (fst r)) | Throw e \<Rightarrow> True | Abort \<Rightarrow> False"
  using assms
proof (induction strtod l s states d rule: sax_parse_internal.induct)
  case (1 strtod l s states d)
  have ok: "ok_step (loop_round strtod l s states d)"
    by (rule ok_round) (use "1.prems" in auto)
  show ?case
  proof (cases "loop_round strtod l s states d")
    case (Ret r)
    then show ?thesis
    proof (cases r)
      case (Continue l1 s1 st1 d1)
      then show ?thesis
        using "1.IH"[OF Ret Continue] ok Ret by (simp add: sax_parse_internal.simps[of strtod l s] ok_step_def)
    next
      case (Return s1 d1)
      then show ?thesis
        using ok Ret by (simp add: sax_parse_internal.simps[of strtod l s] ok_step_def)
    qed (use round_no_break Ret in blast)
  qed (use ok in \<open>simp_all add: sax_parse_internal.simps[of strtod l s] ok_step_def\<close>)
qed

lemma scan_first_good: "scan_first strtod s = (t, s') \<Longrightarrow> good_token t"
proof (cases s)
  case (Cons c s1)
  assume "scan_first strtod s = (t, s')"
  then show ?thesis
    using Cons scan_good[of strtod "drop 2 s1" t s'] scan_good[of strtod "c # s1" t s']
    by (simp add: scan_first_def split: if_splits del: scan.simps) auto
qed (simp add: scan_first_def)

lemma json_parse_outcome:
  "case json_parse strtod s of Ret j \<Rightarrow> good_json j | Throw e \<Rightarrow> True | Abort \<Rightarrow> False"
proof -
  obtain tok s1 where t: "scan_first strtod s = (tok, s1)"
    by fastforce
  let ?d = "\<lparr>root = JNull, ref_stack = []\<rparr>"
  have "parser_inv [] ?d"
    by (simp add: parser_inv_def good_dom_def)
  note out = parser_outcome[OF this, of "Some tok" strtod s1]
  show ?thesis
  proof (cases "sax_parse_internal strtod (Some tok) s1 [] ?d")
    case (Ret r)
    obtain tok2 s3 where "scan strtod (snd r) = (tok2, s3)"
      by fastforce
    then show ?thesis
      using out scan_first_good[OF t] t Ret
      by (cases tok2) (auto simp: json_parse_def unexpected_def split: prod.splits)
  qed (use out scan_first_good[OF t] t in \<open>auto simp: json_parse_def\<close>)
qed

end
