(* ===== verification/Json_Roundtrip.thy ===== *)
theory Json_Roundtrip
  imports Json_Text
begin

text \<open>
  What the serializer prints is read back by the parser as the same value. Each part of a printed value
  is considered in front of the rest of the text.
\<close>

section \<open>Tokens of printed text\<close>

lemma is_digit_not: "is_digit c \<Longrightarrow> \<not> is_blank c \<and> c \<notin> set ''[]{}:,tfn-.'' \<and> c \<noteq> quote"
  by (auto simp: is_digit_def is_blank_def quote_def)

lemma scan_minus: "scan strtod (CHR ''-'' # s) = scan_number strtod (CHR ''-'') s"
  by (simp add: is_blank_def quote_def)

lemma scan_digit: "is_digit c \<Longrightarrow> scan strtod (c # s) = scan_number strtod c s"
  using is_digit_not[of c] by simp

lemma scan_quote: "scan strtod (quote # s) = scan_string [] s"
  by (simp add: is_blank_def quote_def)

lemma scan_marks [simp]:
  "scan strtod (CHR '','' # s) = (Value_separator, s)" "scan strtod (CHR '':'' # s) = (Name_separator, s)"
  "scan strtod (CHR '']'' # s) = (End_array, s)" "scan strtod (CHR ''}'' # s) = (End_object, s)"
  "scan strtod (CHR ''['' # s) = (Begin_array, s)" "scan strtod (CHR ''{'' # s) = (Begin_object, s)"
  by (simp_all add: is_blank_def)

lemma ends_number_marks [simp]:
  "ends_number (CHR '','' # s)" "ends_number (CHR '']'' # s)" "ends_number (CHR ''}'' # s)" "ends_number []"
  by (simp_all add: ends_number_def is_digit_def is_exponent_def)

declare scan.simps(2) [simp del]

text \<open>A printed floating-point number that is read back: the text is a number with a point or an exponent, and
  \<open>strtod\<close> gives the value back.\<close>

definition float_reads :: "(64 word \<Rightarrow> string) \<Rightarrow> (string \<Rightarrow> 64 word) \<Rightarrow> 64 word \<Rightarrow> bool" where
  "float_reads to_chars strtod x \<longleftrightarrow>
     (case to_chars x of
        [] \<Rightarrow> False
      | c # s \<Rightarrow>
          (c = CHR ''-'' \<or> is_digit c) \<and>
          scan_number_from (if c = CHR ''-'' then Minus else if c = CHR ''0'' then Zero else Any1) Unsigned [c] s =
            (Inr (Float, to_chars x), []) \<and>
          strtod (to_chars x) = x)"

lemma scan_number_extend:
  assumes "scan_number_from st t buf s = (Inr (t', b), [])" "ends_number r"
  shows "scan_number_from st t buf (s @ r) = (Inr (t', b), r)"
  using assms(1)
proof (induction st t buf s rule: scan_number_from.induct)
  case (1 st t buf)
  show ?case
  proof (cases r)
    case Nil
    then show ?thesis
      using "1.prems" by simp
  next
    case (Cons c r')
    then show ?thesis
      using "1.prems" assms(2) by (cases st) (auto simp: ends_number_def)
  qed
next
  case (2 st t buf c s)
  then show ?case
    by (auto split: number_step.splits)
qed

lemma scan_float:
  assumes "float_reads to_chars strtod x" "ends_number s"
  shows "scan strtod (to_chars x @ s) = (Value_float x (to_chars x), s)"
proof -
  obtain c t where t: "to_chars x = c # t"
    using assms(1) by (auto simp: float_reads_def split: list.splits)
  have "scan_number strtod c (t @ s) = (Value_float x (to_chars x), s)"
    using assms(1) t scan_number_extend[OF _ assms(2), of _ Unsigned "[c]" t Float "to_chars x"]
    by (simp add: float_reads_def scan_number_def Let_def)
  then show ?thesis
    using assms(1) t scan_minus[of strtod "t @ s"] scan_digit[of c strtod "t @ s"]
    by (auto simp: float_reads_def)
qed

section \<open>Values\<close>

text \<open>Non-negative integers come back as unsigned, numbers that are not finite as \<open>null\<close>.\<close>

fun read_back :: "json \<Rightarrow> json" where
  "read_back (JInt i) = (if sint i < 0 then JInt i else JUInt i)"
| "read_back (JFloat x) = (if is_finite x then JFloat x else JNull)"
| "read_back (JArray xs) = JArray (map read_back xs)"
| "read_back (JObject m) = JObject (map (\<lambda>(k, v). (k, read_back v)) m)"
| "read_back j = j"

fun floats_read :: "(64 word \<Rightarrow> string) \<Rightarrow> (string \<Rightarrow> 64 word) \<Rightarrow> json \<Rightarrow> bool" where
  "floats_read to_chars strtod (JFloat x) \<longleftrightarrow> (is_finite x \<longrightarrow> float_reads to_chars strtod x)"
| "floats_read to_chars strtod (JArray xs) \<longleftrightarrow> (\<forall>x \<in> set xs. floats_read to_chars strtod x)"
| "floats_read to_chars strtod (JObject m) \<longleftrightarrow> (\<forall>kv \<in> set m. floats_read to_chars strtod (snd kv))"
| "floats_read to_chars strtod _ \<longleftrightarrow> True"

lemma sax_break:
  "parse_token strtod tok s states d = Ret (Break s1 st1 d1) \<Longrightarrow>
   sax_parse_internal strtod (Some tok) s states d = sax_parse_internal strtod None s1 st1 d1"
  by (simp add: sax_parse_internal.simps[of strtod "Some tok"] sax_parse_internal.simps[of strtod None] loop_round_def)

lemma sax_continue:
  "loop_round strtod l s states d = Ret (Continue l1 s1 st1 d1) \<Longrightarrow>
   sax_parse_internal strtod l s states d = sax_parse_internal strtod l1 s1 st1 d1"
  by (simp add: sax_parse_internal.simps[of strtod l])

definition reads :: "(string \<Rightarrow> 64 word) \<Rightarrow> string \<Rightarrow> json \<Rightarrow> bool" where
  "reads strtod t v \<longleftrightarrow>
     (\<forall>s. ends_number s \<longrightarrow>
        (\<exists>tok s1. scan strtod (t @ s) = (tok, s1) \<and> tok \<noteq> End_array \<and>
           (\<forall>states d d'. handle_value v d = Ret d' \<longrightarrow>
              sax_parse_internal strtod (Some tok) s1 states d = sax_parse_internal strtod None s states d')))"

lemma reads_scalar:
  assumes "\<And>s. ends_number s \<Longrightarrow> scan strtod (t @ s) = (tok, s)" "tok \<noteq> End_array"
    and "\<And>s states d. parse_token strtod tok s states d = parse_scalar v s states d"
  shows "reads strtod t v"
  unfolding reads_def using assms
  by (fastforce intro!: sax_break simp: parse_scalar_def)

lemma scan_unsigned:
  assumes "ends_number s"
  shows "scan strtod (show_dec (unat x) @ s) = (Value_unsigned x, s)"
proof -
  obtain c ds where c: "show_dec (unat x) = c # ds"
    by (cases "show_dec (unat x)") (auto simp: show_dec_def)
  then have "is_digit c"
    using digits_of_show_dec[of "unat x"] by simp
  then show ?thesis
    using scan_number_unsigned[OF assms c] c by (simp add: scan_digit)
qed

lemma reads_unsigned: "reads strtod (int_text (uint x)) (JUInt x)"
  by (rule reads_scalar[of _ _ "Value_unsigned x"]) (simp_all add: int_text_def scan_unsigned parse_token_def)

lemma reads_signed: "reads strtod (int_text (sint x)) (read_back (JInt x))"
proof (cases "sint x < 0")
  case True
  then show ?thesis
    using scan_number_negative[of _ x strtod]
    by (intro reads_scalar[of _ _ "Value_integer x"]) (simp_all add: int_text_def scan_minus parse_token_def)
next
  case False
  then have "sint x = uint x"
    by (cases x rule: sint_cases) auto
  then show ?thesis
    using False reads_unsigned[of strtod x] by simp
qed

lemma reads_string: "utf8 s \<Longrightarrow> reads strtod ([quote] @ concat (map escape_byte s) @ [quote]) (JString s)"
  by (rule reads_scalar[of _ _ "Value_string s"])
    (simp_all add: scan_quote scan_string_read[of s "[]", simplified] parse_token_def)

lemma reads_literal: "reads strtod ''null'' JNull" "reads strtod ''true'' (JBool True)" "reads strtod ''false'' (JBool False)"
  by (rule reads_scalar[of _ _ Literal_null] reads_scalar[of _ _ Literal_true] reads_scalar[of _ _ Literal_false];
      simp add: scan.simps(2) is_blank_def parse_token_def)+

lemma reads_float: "float_reads to_chars strtod x \<Longrightarrow> is_finite x \<Longrightarrow> reads strtod (to_chars x) (JFloat x)"
  by (rule reads_scalar[of _ _ "Value_float x (to_chars x)"]) (simp_all add: scan_float parse_token_def)

section \<open>Arrays and objects\<close>

lemma readsE:
  assumes "reads strtod t v" "ends_number s"
  obtains tok s1 where "scan strtod (t @ s) = (tok, s1)" "tok \<noteq> End_array"
    "\<And>states d d'. handle_value v d = Ret d' \<Longrightarrow>
      sax_parse_internal strtod (Some tok) s1 states d = sax_parse_internal strtod None s states d'"
  using assms unfolding reads_def by blast

definition array_reads :: "(string \<Rightarrow> 64 word) \<Rightarrow> string \<Rightarrow> json list \<Rightarrow> bool" where
  "array_reads strtod t ws \<longleftrightarrow>
     (\<forall>s. \<exists>tok s1. scan strtod (t @ CHR '']'' # s) = (tok, s1) \<and> tok \<noteq> End_array \<and>
        (\<forall>states d ys fs d'. ref_stack d = Array_frame ys # fs \<longrightarrow>
           handle_value (JArray (ys @ ws)) (d\<lparr>ref_stack := fs\<rparr>) = Ret d' \<longrightarrow>
           sax_parse_internal strtod (Some tok) s1 (True # states) d = sax_parse_internal strtod None s states d'))"

lemma array_last:
  assumes "reads strtod t w"
  shows "array_reads strtod t [w]"
  unfolding array_reads_def
proof
  fix s
  obtain tok s1 where tok: "scan strtod (t @ CHR '']'' # s) = (tok, s1)" "tok \<noteq> End_array"
      "\<And>states d d'. handle_value w d = Ret d' \<Longrightarrow>
        sax_parse_internal strtod (Some tok) s1 states d = sax_parse_internal strtod None (CHR '']'' # s) states d'"
    by (rule readsE[OF assms, of "CHR '']'' # s"]) auto
  have "sax_parse_internal strtod (Some tok) s1 (True # states) d = sax_parse_internal strtod None s states d'"
    if d: "ref_stack d = Array_frame ys # fs" "handle_value (JArray (ys @ [w])) (d\<lparr>ref_stack := fs\<rparr>) = Ret d'"
    for states d ys fs d'
  proof -
    let ?d = "d\<lparr>ref_stack := Array_frame (ys @ [w]) # fs\<rparr>"
    have "sax_parse_internal strtod (Some tok) s1 (True # states) d =
        sax_parse_internal strtod None (CHR '']'' # s) (True # states) ?d"
      by (rule tok(3)) (simp add: handle_value_def d(1))
    also have "\<dots> = sax_parse_internal strtod None s states d'"
      by (rule sax_continue) (use d in \<open>simp add: loop_round_def evaluate_states_def end_container_def\<close>)
    finally show ?thesis .
  qed
  then show "\<exists>tok s1. scan strtod (t @ CHR '']'' # s) = (tok, s1) \<and> tok \<noteq> End_array \<and>
      (\<forall>states d ys fs d'. ref_stack d = Array_frame ys # fs \<longrightarrow>
         handle_value (JArray (ys @ [w])) (d\<lparr>ref_stack := fs\<rparr>) = Ret d' \<longrightarrow>
         sax_parse_internal strtod (Some tok) s1 (True # states) d = sax_parse_internal strtod None s states d')"
    using tok(1,2) by (intro exI conjI) auto
qed

lemma array_more:
  assumes "reads strtod t w" "array_reads strtod ts ws"
  shows "array_reads strtod (t @ CHR '','' # ts) (w # ws)"
  unfolding array_reads_def
proof
  fix s
  obtain tok2 s2 where rest: "scan strtod (ts @ CHR '']'' # s) = (tok2, s2)"
      "\<And>states d ys fs d'. ref_stack d = Array_frame ys # fs \<Longrightarrow>
         handle_value (JArray (ys @ ws)) (d\<lparr>ref_stack := fs\<rparr>) = Ret d' \<Longrightarrow>
         sax_parse_internal strtod (Some tok2) s2 (True # states) d = sax_parse_internal strtod None s states d'"
    using assms(2) unfolding array_reads_def by blast
  obtain tok s1 where tok: "scan strtod (t @ CHR '','' # ts @ CHR '']'' # s) = (tok, s1)" "tok \<noteq> End_array"
      "\<And>states d d'. handle_value w d = Ret d' \<Longrightarrow> sax_parse_internal strtod (Some tok) s1 states d =
        sax_parse_internal strtod None (CHR '','' # ts @ CHR '']'' # s) states d'"
    by (rule readsE[OF assms(1), of "CHR '','' # ts @ CHR '']'' # s"]) auto
  have "sax_parse_internal strtod (Some tok) s1 (True # states) d = sax_parse_internal strtod None s states d'"
    if d: "ref_stack d = Array_frame ys # fs" "handle_value (JArray (ys @ w # ws)) (d\<lparr>ref_stack := fs\<rparr>) = Ret d'"
    for states d ys fs d'
  proof -
    let ?d = "d\<lparr>ref_stack := Array_frame (ys @ [w]) # fs\<rparr>"
    have "sax_parse_internal strtod (Some tok) s1 (True # states) d =
        sax_parse_internal strtod None (CHR '','' # ts @ CHR '']'' # s) (True # states) ?d"
      by (rule tok(3)) (simp add: handle_value_def d(1))
    also have "\<dots> = sax_parse_internal strtod (Some tok2) s2 (True # states) ?d"
      by (rule sax_continue) (simp add: loop_round_def evaluate_states_def rest(1))
    also have "\<dots> = sax_parse_internal strtod None s states d'"
      by (rule rest(2)[of _ "ys @ [w]" fs]) (use d(2) in simp_all)
    finally show ?thesis .
  qed
  then show "\<exists>tok s1. scan strtod ((t @ CHR '','' # ts) @ CHR '']'' # s) = (tok, s1) \<and> tok \<noteq> End_array \<and>
      (\<forall>states d ys fs d'. ref_stack d = Array_frame ys # fs \<longrightarrow>
         handle_value (JArray (ys @ w # ws)) (d\<lparr>ref_stack := fs\<rparr>) = Ret d' \<longrightarrow>
         sax_parse_internal strtod (Some tok) s1 (True # states) d = sax_parse_internal strtod None s states d')"
    using tok(1,2) by (intro exI[of _ tok] exI[of _ s1] conjI) auto
qed

lemma elements_read:
  assumes "dump_elements to_chars xs = Ret t" "xs \<noteq> []"
    and "\<And>x t. x \<in> set xs \<Longrightarrow> dump to_chars x = Ret t \<Longrightarrow> reads strtod t (rb x)"
  shows "array_reads strtod t (map rb xs)"
  using assms
proof (induction xs arbitrary: t)
  case (Cons x xs)
  then show ?case
    using array_last[of strtod _ "rb x"] array_more[of strtod _ "rb x"] by (fastforce split: if_splits)
qed simp

lemma reads_array:
  assumes "array_reads strtod t ws"
  shows "reads strtod (CHR ''['' # t @ '']'') (JArray ws)"
  unfolding reads_def
proof (intro allI impI)
  fix s
  obtain tok s1 where tok: "scan strtod (t @ CHR '']'' # s) = (tok, s1)" "tok \<noteq> End_array"
      "\<And>states d ys fs d'. ref_stack d = Array_frame ys # fs \<Longrightarrow>
         handle_value (JArray (ys @ ws)) (d\<lparr>ref_stack := fs\<rparr>) = Ret d' \<Longrightarrow>
         sax_parse_internal strtod (Some tok) s1 (True # states) d = sax_parse_internal strtod None s states d'"
    using assms unfolding array_reads_def by blast
  have "sax_parse_internal strtod (Some Begin_array) (t @ CHR '']'' # s) states d = sax_parse_internal strtod None s states d'"
    if d: "handle_value (JArray ws) d = Ret d'" for states d d'
  proof -
    have "sax_parse_internal strtod (Some Begin_array) (t @ CHR '']'' # s) states d =
        sax_parse_internal strtod (Some tok) s1 (True # states) (start_array d)"
      by (rule sax_continue) (use tok(1,2) in \<open>cases tok; simp add: loop_round_def parse_token_def\<close>)
    also have "\<dots> = sax_parse_internal strtod None s states d'"
      by (rule tok(3)[of _ "[]" "ref_stack d"]) (use d in \<open>simp_all add: start_array_def\<close>)
    finally show ?thesis .
  qed
  then show "\<exists>tok s1. scan strtod ((CHR ''['' # t @ '']'') @ s) = (tok, s1) \<and> tok \<noteq> End_array \<and>
      (\<forall>states d d'. handle_value (JArray ws) d = Ret d' \<longrightarrow>
         sax_parse_internal strtod (Some tok) s1 states d = sax_parse_internal strtod None s states d')"
    by (intro exI[of _ Begin_array] exI[of _ "t @ CHR '']'' # s"]) simp
qed

definition key_text :: "string \<Rightarrow> string" where
  "key_text k = [quote] @ concat (map escape_byte k) @ [quote]"

lemma scan_key: "utf8 k \<Longrightarrow> scan strtod (key_text k @ s) = (Value_string k, s)"
  by (simp add: key_text_def scan_quote scan_string_read[of k "[]", simplified])

lemma member_read:
  assumes "reads strtod t w" "ends_number r" "ref_stack d = Object_frame m k0 # fs"
  obtains l s2 st2 d2 where
    "parse_key strtod (Value_string k) (CHR '':'' # t @ r) states d = Ret (Continue l s2 st2 d2)"
    "sax_parse_internal strtod l s2 st2 d2 =
       sax_parse_internal strtod None r states (d\<lparr>ref_stack := Object_frame (map_set k w m) (Some k) # fs\<rparr>)"
proof -
  obtain tok s1 where tok: "scan strtod (t @ r) = (tok, s1)"
      "\<And>states d d'. handle_value w d = Ret d' \<Longrightarrow>
        sax_parse_internal strtod (Some tok) s1 states d = sax_parse_internal strtod None r states d'"
    by (rule readsE[OF assms(1,2)]) auto
  let ?m = "if map_of m k = None then map_set k JNull m else m"
  let ?d = "d\<lparr>ref_stack := Object_frame ?m (Some k) # fs\<rparr>"
  show thesis
  proof (rule that)
    show "parse_key strtod (Value_string k) (CHR '':'' # t @ r) states d = Ret (Continue (Some tok) s1 states ?d)"
      using tok(1) assms(3) by (simp add: parse_key_def sax_key_def)
    show "sax_parse_internal strtod (Some tok) s1 states ?d =
        sax_parse_internal strtod None r states (d\<lparr>ref_stack := Object_frame (map_set k w m) (Some k) # fs\<rparr>)"
      by (rule tok(2)) (simp add: handle_value_def)
  qed
qed

definition put_all :: "object \<Rightarrow> object \<Rightarrow> object" where
  "put_all m ws = foldl (\<lambda>acc (k, w). map_set k w acc) m ws"

definition object_reads :: "(string \<Rightarrow> 64 word) \<Rightarrow> string \<Rightarrow> object \<Rightarrow> bool" where
  "object_reads strtod t ws \<longleftrightarrow>
     (\<forall>s. \<exists>tok s1. scan strtod (t @ CHR ''}'' # s) = (tok, s1) \<and> tok \<noteq> End_object \<and>
        (\<forall>states d m k fs d'. ref_stack d = Object_frame m k # fs \<longrightarrow>
           handle_value (JObject (put_all m ws)) (d\<lparr>ref_stack := fs\<rparr>) = Ret d' \<longrightarrow>
           (\<exists>l s2 st2 d2. parse_key strtod tok s1 (False # states) d = Ret (Continue l s2 st2 d2) \<and>
              sax_parse_internal strtod l s2 st2 d2 = sax_parse_internal strtod None s states d')))"

lemma object_last:
  assumes "utf8 k" "reads strtod t w"
  shows "object_reads strtod (key_text k @ CHR '':'' # t) [(k, w)]"
  unfolding object_reads_def
proof
  fix s
  have "\<exists>l s2 st2 d2. parse_key strtod (Value_string k) (CHR '':'' # t @ CHR ''}'' # s) (False # states) d =
        Ret (Continue l s2 st2 d2) \<and> sax_parse_internal strtod l s2 st2 d2 = sax_parse_internal strtod None s states d'"
    if d: "ref_stack d = Object_frame m k0 # fs" "handle_value (JObject (put_all m [(k, w)])) (d\<lparr>ref_stack := fs\<rparr>) = Ret d'"
    for states d m k0 fs d'
  proof -
    let ?d = "d\<lparr>ref_stack := Object_frame (map_set k w m) (Some k) # fs\<rparr>"
    obtain l s2 st2 d2 where "parse_key strtod (Value_string k) (CHR '':'' # t @ CHR ''}'' # s) (False # states) d =
          Ret (Continue l s2 st2 d2)"
        and sax: "sax_parse_internal strtod l s2 st2 d2 = sax_parse_internal strtod None (CHR ''}'' # s) (False # states) ?d"
      by (rule member_read[OF assms(2) ends_number_marks(3) d(1)])
    moreover have "sax_parse_internal strtod None (CHR ''}'' # s) (False # states) ?d = sax_parse_internal strtod None s states d'"
      by (rule sax_continue)
        (use d in \<open>simp add: loop_round_def evaluate_states_def end_container_def put_all_def\<close>)
    ultimately show ?thesis
      by auto
  qed
  then show "\<exists>tok s1. scan strtod ((key_text k @ CHR '':'' # t) @ CHR ''}'' # s) = (tok, s1) \<and> tok \<noteq> End_object \<and>
      (\<forall>states d m k' fs d'. ref_stack d = Object_frame m k' # fs \<longrightarrow>
         handle_value (JObject (put_all m [(k, w)])) (d\<lparr>ref_stack := fs\<rparr>) = Ret d' \<longrightarrow>
         (\<exists>l s2 st2 d2. parse_key strtod tok s1 (False # states) d = Ret (Continue l s2 st2 d2) \<and>
            sax_parse_internal strtod l s2 st2 d2 = sax_parse_internal strtod None s states d'))"
    using assms(1) by (intro exI[of _ "Value_string k"] exI[of _ "CHR '':'' # t @ CHR ''}'' # s"] conjI)
      (auto simp: scan_key)
qed

lemma object_more:
  assumes "utf8 k" "reads strtod t w" "object_reads strtod ts ws"
  shows "object_reads strtod (key_text k @ CHR '':'' # t @ CHR '','' # ts) ((k, w) # ws)"
  unfolding object_reads_def
proof
  fix s
  let ?r = "CHR '','' # ts @ CHR ''}'' # s"
  obtain tok2 s2' where rest: "scan strtod (ts @ CHR ''}'' # s) = (tok2, s2')"
      "\<And>states d m k fs d'. ref_stack d = Object_frame m k # fs \<Longrightarrow>
         handle_value (JObject (put_all m ws)) (d\<lparr>ref_stack := fs\<rparr>) = Ret d' \<Longrightarrow>
         \<exists>l s2 st2 d2. parse_key strtod tok2 s2' (False # states) d = Ret (Continue l s2 st2 d2) \<and>
            sax_parse_internal strtod l s2 st2 d2 = sax_parse_internal strtod None s states d'"
    using assms(3) unfolding object_reads_def by blast
  have "\<exists>l s2 st2 d2. parse_key strtod (Value_string k) (CHR '':'' # t @ ?r) (False # states) d =
        Ret (Continue l s2 st2 d2) \<and> sax_parse_internal strtod l s2 st2 d2 = sax_parse_internal strtod None s states d'"
    if d: "ref_stack d = Object_frame m k0 # fs" "handle_value (JObject (put_all m ((k, w) # ws))) (d\<lparr>ref_stack := fs\<rparr>) = Ret d'"
    for states d m k0 fs d'
  proof -
    let ?d = "d\<lparr>ref_stack := Object_frame (map_set k w m) (Some k) # fs\<rparr>"
    obtain l s2 st2 d2 where "parse_key strtod (Value_string k) (CHR '':'' # t @ ?r) (False # states) d = Ret (Continue l s2 st2 d2)"
        and sax: "sax_parse_internal strtod l s2 st2 d2 = sax_parse_internal strtod None ?r (False # states) ?d"
      by (rule member_read[OF assms(2) ends_number_marks(1) d(1)])
    moreover obtain l3 s3 st3 d3 where "parse_key strtod tok2 s2' (False # states) ?d = Ret (Continue l3 s3 st3 d3)"
        "sax_parse_internal strtod l3 s3 st3 d3 = sax_parse_internal strtod None s states d'"
      using rest(2)[of ?d "map_set k w m" "Some k" fs d' states] d(2) by (auto simp: put_all_def)
    moreover from this have "sax_parse_internal strtod None ?r (False # states) ?d = sax_parse_internal strtod l3 s3 st3 d3"
      by (intro sax_continue) (simp add: loop_round_def evaluate_states_def rest(1))
    ultimately show ?thesis
      by auto
  qed
  then show "\<exists>tok s1. scan strtod ((key_text k @ CHR '':'' # t @ CHR '','' # ts) @ CHR ''}'' # s) = (tok, s1) \<and> tok \<noteq> End_object \<and>
      (\<forall>states d m k' fs d'. ref_stack d = Object_frame m k' # fs \<longrightarrow>
         handle_value (JObject (put_all m ((k, w) # ws))) (d\<lparr>ref_stack := fs\<rparr>) = Ret d' \<longrightarrow>
         (\<exists>l s2 st2 d2. parse_key strtod tok s1 (False # states) d = Ret (Continue l s2 st2 d2) \<and>
            sax_parse_internal strtod l s2 st2 d2 = sax_parse_internal strtod None s states d'))"
    using assms(1) by (intro exI[of _ "Value_string k"] exI[of _ "CHR '':'' # t @ ?r"] conjI)
      (auto simp: scan_key)
qed

lemma members_read:
  assumes "dump_members to_chars m = Ret t" "m \<noteq> []"
    and "\<And>k v t. (k, v) \<in> set m \<Longrightarrow> dump to_chars v = Ret t \<Longrightarrow> reads strtod t (rb v)"
  shows "object_reads strtod t (map (\<lambda>(k, v). (k, rb v)) m)"
  using assms
proof (induction m arbitrary: t)
  case (Cons kv m)
  obtain k v where kv: "kv = (k, v)"
    by fastforce
  obtain tv where tv: "utf8 k" "dump to_chars v = Ret tv"
      "m = [] \<Longrightarrow> t = key_text k @ CHR '':'' # tv"
      "m \<noteq> [] \<Longrightarrow> \<exists>ts. dump_members to_chars m = Ret ts \<and> t = key_text k @ CHR '':'' # tv @ CHR '','' # ts"
    using Cons.prems(1) kv by (auto simp: dump_string_Ret key_text_def split: if_splits)
  have rv: "reads strtod tv (rb v)"
    using Cons.prems(3)[of k v tv] kv tv(2) by simp
  show ?case
  proof (cases "m = []")
    case True
    then show ?thesis
      using object_last[OF tv(1) rv] tv(3) kv by simp
  next
    case False
    then show ?thesis
      using object_more[OF tv(1) rv] tv(4) Cons.IH Cons.prems(3) kv by force
  qed
qed simp

lemma reads_object:
  assumes "object_reads strtod t ws"
  shows "reads strtod (CHR ''{'' # t @ ''}'') (JObject (put_all [] ws))"
  unfolding reads_def
proof (intro allI impI)
  fix s
  obtain tok s1 where tok: "scan strtod (t @ CHR ''}'' # s) = (tok, s1)" "tok \<noteq> End_object"
      "\<And>states d m k fs d'. ref_stack d = Object_frame m k # fs \<Longrightarrow>
         handle_value (JObject (put_all m ws)) (d\<lparr>ref_stack := fs\<rparr>) = Ret d' \<Longrightarrow>
         \<exists>l s2 st2 d2. parse_key strtod tok s1 (False # states) d = Ret (Continue l s2 st2 d2) \<and>
            sax_parse_internal strtod l s2 st2 d2 = sax_parse_internal strtod None s states d'"
    using assms unfolding object_reads_def by blast
  have "sax_parse_internal strtod (Some Begin_object) (t @ CHR ''}'' # s) states d = sax_parse_internal strtod None s states d'"
    if d: "handle_value (JObject (put_all [] ws)) d = Ret d'" for states d d'
  proof -
    obtain l s2 st2 d2 where key: "parse_key strtod tok s1 (False # states) (start_object d) = Ret (Continue l s2 st2 d2)"
        "sax_parse_internal strtod l s2 st2 d2 = sax_parse_internal strtod None s states d'"
      using tok(3)[of "start_object d" "[]" None "ref_stack d" d' states] d by (auto simp: start_object_def)
    have "parse_token strtod Begin_object (t @ CHR ''}'' # s) states d = Ret (Continue l s2 st2 d2)"
      using tok(1,2) key(1) by (cases tok) (simp_all add: parse_token_def)
    then show ?thesis
      using key(2) sax_continue[of strtod "Some Begin_object"] by (simp add: loop_round_def)
  qed
  then show "\<exists>tok s1. scan strtod ((CHR ''{'' # t @ ''}'') @ s) = (tok, s1) \<and> tok \<noteq> End_array \<and>
      (\<forall>states d d'. handle_value (JObject (put_all [] ws)) d = Ret d' \<longrightarrow>
         sax_parse_internal strtod (Some tok) s1 states d = sax_parse_internal strtod None s states d')"
    by (intro exI[of _ Begin_object] exI[of _ "t @ CHR ''}'' # s"]) simp
qed

section \<open>The round trip\<close>

lemma map_set_last: "\<forall>x \<in> fst ` set m. x < k \<Longrightarrow> map_set k v m = m @ [(k, v)]"
  by (induction k v m rule: map_set.induct) auto

lemma put_all_sorted: "map_wf (m @ ws) \<Longrightarrow> put_all m ws = m @ ws"
proof (induction ws arbitrary: m)
  case (Cons kw ws)
  obtain k w where kw: "kw = (k, w)"
    by fastforce
  have "\<forall>x \<in> fst ` set m. x < k"
    using Cons.prems kw by (auto simp: map_wf_def sorted_wrt_append)
  then show ?case
    using Cons.IH[of "m @ [(k, w)]"] Cons.prems kw map_set_last[of m k w] by (simp add: put_all_def)
qed (simp add: put_all_def)

lemma reads_dump:
  assumes "dump to_chars j = Ret t" "wf_json j" "floats_read to_chars strtod j"
  shows "reads strtod t (read_back j)"
  using assms
proof (induction j arbitrary: t)
  case (JArray xs)
  show ?case
  proof (cases "xs = []")
    case True
    then have "t = ''[]''"
      using JArray.prems(1) by simp
    moreover have "reads strtod ''[]'' (JArray [])"
      unfolding reads_def
      by (auto intro!: sax_break simp: parse_token_def end_container_def start_array_def)
    ultimately show ?thesis
      using True by simp
  next
    case False
    then obtain ts where ts: "dump_elements to_chars xs = Ret ts" "t = CHR ''['' # ts @ '']''"
      using JArray.prems(1) by auto
    have "array_reads strtod ts (map read_back xs)"
      by (rule elements_read[OF ts(1) False]) (use JArray in auto)
    then show ?thesis
      using reads_array ts(2) by simp
  qed
next
  case (JObject m)
  show ?case
  proof (cases "m = []")
    case True
    then have "t = ''{}''"
      using JObject.prems(1) by simp
    moreover have "reads strtod ''{}'' (JObject [])"
      unfolding reads_def
      by (auto intro!: sax_break simp: parse_token_def end_container_def start_object_def)
    ultimately show ?thesis
      using True by simp
  next
    case False
    let ?ws = "map (\<lambda>(k, v). (k, read_back v)) m"
    obtain ts where ts: "dump_members to_chars m = Ret ts" "t = CHR ''{'' # ts @ ''}''"
      using JObject.prems(1) False by auto
    have "object_reads strtod ts ?ws"
      by (rule members_read[OF ts(1) False]) (use JObject in force)
    moreover have "map_wf ?ws"
      using JObject.prems(2) by (simp add: map_wf_def comp_def case_prod_unfold)
    ultimately show ?thesis
      using reads_object[of strtod ts ?ws] put_all_sorted[of "[]" ?ws] ts(2) by simp
  qed
next
  case (JInt i)
  then show ?case
    using reads_signed[of strtod i] by (simp add: dump_integer_text)
next
  case (JFloat x)
  then show ?case
    using reads_float[of to_chars strtod x] reads_literal(1) by (auto simp: dump_float_def split: if_splits)
qed (auto simp: dump_integer_text dump_string_Ret intro: reads_unsigned reads_literal reads_string[simplified])

lemma dump_utf8: "utf8_json j \<Longrightarrow> \<exists>t. dump to_chars j = Ret t"
  "\<forall>x \<in> set xs. utf8_json x \<Longrightarrow> \<exists>t. dump_elements to_chars xs = Ret t"
  "\<forall>kv \<in> set m. utf8 (fst kv) \<and> utf8_json (snd kv) \<Longrightarrow> \<exists>t. dump_members to_chars m = Ret t"
proof (induction to_chars j and to_chars xs and to_chars m rule: dump_dump_elements_dump_members.induct)
  case (10 to_chars x xs)
  then show ?case
    by (cases "xs = []") auto
next
  case (12 to_chars k v m)
  then have "\<exists>t. dump_string k = Ret t"
    by (simp add: dump_string_Ret)
  then show ?case
    using 12 by (cases "m = []") fastforce+
qed (auto simp: dump_string_Ret dump_integer_text)

text \<open>Printed text has no zero byte, so it survives as a C string, and does not begin like a byte order mark.\<close>

lemma digit_value_not_zero: "digit_value c \<noteq> None \<Longrightarrow> c \<noteq> CHR 0x00"
  by (auto simp: digit_value_def)

lemma escape_byte_not_zero: "CHR 0x00 \<notin> set (escape_byte c)"
proof (cases "of_char c < (0x80 :: nat)")
  case True
  then show ?thesis
  proof (cases rule: escape_byte_cases)
    case (short e)
    have "e \<noteq> CHR 0x00"
    proof
      assume "e = CHR 0x00"
      then show False
        using short(2)[of "[]"] by (simp add: scan_escape_def quote_def backslash_def)
    qed
    then show ?thesis
      using short(1) by (auto simp: backslash_def)
  next
    case long
    have "\<forall>c \<in> set (pad_zero 4 (show_hex n)). digit_value c \<noteq> None" for n
      using digits_base_less[of 16 n] by (auto simp: pad_zero_def show_hex_def)
    then show ?thesis
      using long(1) digit_value_not_zero by (auto simp: backslash_def)
  next
    case plain
    then show ?thesis
      by auto
  qed
qed (auto simp: escape_byte_def)

lemma key_text_not_zero: "CHR 0x00 \<notin> set (key_text k)"
  using escape_byte_not_zero by (auto simp: key_text_def quote_def)

lemma int_text_not_zero: "CHR 0x00 \<notin> set (int_text i)"
  using digits_of_show_dec[of "nat \<bar>i\<bar>"] by (auto simp: int_text_def is_digit_def)

lemma scan_number_not_zero:
  "scan_number_from st t buf s = (Inr (t', b), r) \<Longrightarrow> CHR 0x00 \<notin> set buf \<Longrightarrow> CHR 0x00 \<notin> set b"
proof (induction st t buf s rule: scan_number_from.induct)
  case (2 st t buf c s)
  have "number_next st t (Some (CHR 0x00)) \<noteq> Goto st' t'" for st' t'
    by (cases st) (auto simp: is_digit_def is_exponent_def)
  then show ?case
    using 2 by (cases "c = CHR 0x00") (auto split: number_step.splits)
qed (auto split: number_step.splits)

lemma float_text:
  assumes "float_reads to_chars strtod x"
  shows "CHR 0x00 \<notin> set (to_chars x)" "\<exists>c s. to_chars x = c # s \<and> (c = CHR ''-'' \<or> is_digit c)"
proof -
  obtain c s where c: "to_chars x = c # s" "c = CHR ''-'' \<or> is_digit c"
      "scan_number_from (if c = CHR ''-'' then Minus else if c = CHR ''0'' then Zero else Any1) Unsigned [c] s =
        (Inr (Float, to_chars x), [])"
    using assms by (auto simp: float_reads_def split: list.splits)
  moreover have "c \<noteq> CHR 0x00"
    using c(2) by (auto simp: is_digit_def)
  ultimately show "CHR 0x00 \<notin> set (to_chars x)" "\<exists>c s. to_chars x = c # s \<and> (c = CHR ''-'' \<or> is_digit c)"
    using scan_number_not_zero[OF c(3)] by auto
qed

lemma dump_not_zero:
  "dump to_chars j = Ret t \<Longrightarrow> floats_read to_chars strtod j \<Longrightarrow> CHR 0x00 \<notin> set t"
  "dump_elements to_chars xs = Ret t \<Longrightarrow> \<forall>x \<in> set xs. floats_read to_chars strtod x \<Longrightarrow> CHR 0x00 \<notin> set t"
  "dump_members to_chars m = Ret t \<Longrightarrow> \<forall>kv \<in> set m. floats_read to_chars strtod (snd kv) \<Longrightarrow> CHR 0x00 \<notin> set t"
proof (induction to_chars j and to_chars xs and to_chars m arbitrary: t and t and t
    rule: dump_dump_elements_dump_members.induct)
  case (7 to_chars x)
  then show ?case
    using float_text(1)[of to_chars strtod x] by (auto simp: dump_float_def split: if_splits)
next
  case (12 to_chars k v m)
  then show ?case
    using key_text_not_zero[of k] by (auto simp: dump_string_Ret key_text_def split: if_splits)
next
  case (3 to_chars s)
  then show ?case
    using key_text_not_zero[of s] by (auto simp: dump_string_Ret key_text_def)
qed (auto simp: dump_integer_text int_text_not_zero split: if_splits)

lemma dump_first:
  assumes "dump to_chars j = Ret t" "floats_read to_chars strtod j"
  obtains c s where "t = c # s" "of_char c < (0x80 :: nat)"
proof -
  have ascii: "is_digit c \<or> c \<in> {CHR ''-'', CHR ''{'', CHR ''['', quote, CHR ''t'', CHR ''f'', CHR ''n''} \<Longrightarrow>
      of_char c < (0x80 :: nat)" for c
    by (auto simp: is_digit_def quote_def)
  have int: "is_digit (hd (int_text i)) \<or> hd (int_text i) = CHR ''-''" "int_text i \<noteq> []" for i
    using digits_of_show_dec[of "nat \<bar>i\<bar>"]
    by (cases "show_dec (nat \<bar>i\<bar>)"; simp add: int_text_def show_dec_def)+
  have "t \<noteq> [] \<and> (is_digit (hd t) \<or> hd t \<in> {CHR ''-'', CHR ''{'', CHR ''['', quote, CHR ''t'', CHR ''f'', CHR ''n''})"
  proof (cases j)
    case (JFloat x)
    then show ?thesis
      using assms float_text(2)[of to_chars strtod x] by (cases "is_finite x") (auto simp: dump_float_def)
  next
    case (JInt i)
    then show ?thesis
      using assms(1) int[of "sint i"] by (auto simp: dump_integer_text)
  next
    case (JUInt i)
    then show ?thesis
      using assms(1) int[of "uint i"] by (auto simp: dump_integer_text)
  qed (use assms(1) in \<open>auto simp: dump_string_Ret split: if_splits\<close>)
  then show thesis
    using that ascii[of "hd t"] by (cases t) auto
qed

lemma parse_printed:
  assumes "dump to_chars j = Ret t" "wf_json j" "floats_read to_chars strtod j"
  shows "json_parse strtod t = Ret (read_back j)"
proof -
  let ?d = "\<lparr>root = JNull, ref_stack = []\<rparr>"
  obtain c s where c: "t = c # s" "of_char c < (0x80 :: nat)"
    by (rule dump_first[OF assms(1,3)])
  obtain tok s1 where tok: "scan strtod (t @ []) = (tok, s1)"
      "\<And>states d d'. handle_value (read_back j) d = Ret d' \<Longrightarrow>
        sax_parse_internal strtod (Some tok) s1 states d = sax_parse_internal strtod None [] states d'"
    by (rule readsE[OF reads_dump[OF assms] ends_number_marks(4)]) auto
  have "sax_parse_internal strtod (Some tok) s1 [] ?d = sax_parse_internal strtod None [] [] (?d\<lparr>root := read_back j\<rparr>)"
    by (rule tok(2)) (simp add: handle_value_def)
  also have "\<dots> = Ret (?d\<lparr>root := read_back j\<rparr>, [])"
    by (simp add: sax_parse_internal.simps loop_round_def evaluate_states_def)
  finally show ?thesis
    using tok(1) c by (simp add: json_parse_def scan_first_def)
qed

text \<open>
  C10: JSON survives the way from the daemon to the entity daemon, on one condition about numbers: every
  finite floating-point number in the value is printed by \<open>to_chars\<close> as a text that the
  scanner takes for one number and \<open>strtod\<close> reads back as that number
  (\<open>floats_read\<close>; both routines are arguments, and values without such numbers meet the
  condition). Then a well-formed value whose strings are UTF-8 is printed, as text without zero bytes,
  and parsing the text gives the value back; only non-negative signed integers become unsigned, and
  numbers that are not finite become \<open>null\<close>.
\<close>

theorem json_roundtrip:
  assumes "wf_json j" "utf8_json j" "floats_read to_chars strtod j"
  shows "\<exists>t. dump to_chars j = Ret t \<and> CHR 0x00 \<notin> set t \<and> json_parse strtod t = Ret (read_back j)"
  using dump_utf8(1)[OF assms(2), of to_chars] dump_not_zero(1)[OF _ assms(3)] parse_printed[OF _ assms(1,3)] by blast

definition sample_json :: json where
  "sample_json = JObject [(''a'', JArray [JInt (- 15), JUInt 18446744073709551615, JBool True, JNull, JFloat 0x3FF8000000000000]),
     (''b'', JString [CHR 0x0A, CHR 0x00, CHR 0x22, CHR 0xC3, CHR 0xA9, CHR 0xF0, CHR 0x9F, CHR 0x98, CHR 0x80]),
     (''c'', JObject [])]"

theorem json_roundtrip_witness:
  "\<exists>t. dump (\<lambda>_. ''1.5'') sample_json = Ret t \<and> CHR 0x00 \<notin> set t \<and>
     json_parse (\<lambda>_. 0x3FF8000000000000) t = Ret sample_json"
proof -
  have "wf_json sample_json" "utf8_json sample_json" "floats_read (\<lambda>_. ''1.5'') (\<lambda>_. 0x3FF8000000000000) sample_json"
    by code_simp+
  moreover have "read_back sample_json = sample_json"
    by code_simp
  ultimately show ?thesis
    using json_roundtrip[of sample_json "\<lambda>_. ''1.5''" "\<lambda>_. 0x3FF8000000000000"] by simp
qed

text \<open>
  C30: the parser is total and sound: every text is parsed to a well-formed value whose strings, keys
  included, are UTF-8, or is refused with an exception; no assertion of the parser fails, and every such
  value can be printed again.
\<close>

theorem json_parse_total:
  "(\<exists>j t. json_parse strtod s = Ret j \<and> wf_json j \<and> utf8_json j \<and> dump to_chars j = Ret t) \<or>
   (\<exists>e. json_parse strtod s = Throw e)"
  using json_parse_outcome[of strtod s] dump_utf8(1)[of _ to_chars]
  by (auto simp: good_json_def split: res.splits)

text \<open>
  C31: printing an integer by pairs of digits from a table into a buffer gives its decimal digits, with a
  sign for negative values down to the least one, and never exceeds the buffer.
\<close>

theorem dump_integer_decimal:
  "dump_integer is_signed x =
     Ret ((if is_signed \<and> sint x < 0 then ''-'' else []) @ show_dec (nat \<bar>if is_signed then sint x else uint x\<bar>))"
  by (simp add: dump_integer_text int_text_def)

end
