(* ===== verification/Json_Content.thy ===== *)
theory Json_Content
  imports Json_Roundtrip
begin

text \<open>
  Conditions on the strings and numbers inside a JSON value that the operations on values keep: that
  all strings are UTF-8, so that the value can be printed, and that its floating-point numbers are
  read back. With both, a value is sent as text and received as \<open>read_back\<close> of it.
\<close>

locale json_content =
  fixes P :: "json \<Rightarrow> bool" and Q :: "string \<Rightarrow> bool"
  assumes content_object: "P (JObject m) \<longleftrightarrow> (\<forall>kv \<in> set m. Q (fst kv) \<and> P (snd kv))"
    and content_string: "P (JString s) \<longleftrightarrow> Q s"
    and content_null: "P JNull"
begin

lemmas content_simps = content_object content_string content_null

lemma content_find: "P j \<Longrightarrow> json_find k j = Some v \<Longrightarrow> P v"
  by (cases j) (auto simp: content_object dest!: map_of_SomeD)

lemma content_at: "P j \<Longrightarrow> json_at ks j = Some v \<Longrightarrow> P v"
  by (induction ks arbitrary: j) (auto split: option.splits dest: content_find)

lemma content_map_set: "P (JObject m) \<Longrightarrow> Q k \<Longrightarrow> P v \<Longrightarrow> P (JObject (map_set k v m))"
  using set_map_set_subset[of k v m] by (force simp: content_object)

lemma content_key: "P (JObject m) \<Longrightarrow> map_of m k = Some v \<Longrightarrow> Q k \<and> P v"
  by (force simp: content_object dest!: map_of_SomeD)

lemma content_subscript: "P j \<Longrightarrow> Q k \<Longrightarrow> json_subscript k j = Ret (j', v) \<Longrightarrow> P j' \<and> P v"
  by (cases j) (auto split: option.splits intro: content_map_set content_null dest: content_key
      simp: content_object[of "[(k, JNull)]"])

lemma content_put: "P j \<Longrightarrow> P v \<Longrightarrow> P (json_put ks v j)"
proof (induction ks v j rule: json_put.induct)
  case (2 k ks v m)
  then show ?case
    by (auto split: option.splits intro: content_map_set dest: content_key)
qed auto

lemma content_erase: "P j \<Longrightarrow> json_erase k j = Ret j' \<Longrightarrow> P j'"
  using set_map_erase_subset[of k] by (cases j) (force simp: content_object)+

end

interpretation text_content: json_content utf8_json utf8
  by unfold_locales auto

interpretation float_content: json_content "floats_read to_chars strtod" "\<lambda>_. True" for to_chars strtod
  by unfold_locales auto

section \<open>The value that is received\<close>

lemma map_of_read_back: "map_of (map (\<lambda>(k, v). (k, read_back v)) m) k = map_option read_back (map_of m k)"
  by (induction m) auto

lemma find_read_back [simp]: "json_find k (read_back j) = map_option read_back (json_find k j)"
proof (cases j)
  case (JObject m)
  then show ?thesis
    by (simp add: map_of_read_back)
qed simp_all

lemma map_wf_read_back: "map_wf m \<Longrightarrow> map_wf (map (\<lambda>(k, v). (k, read_back v)) m)"
  by (simp add: map_wf_def comp_def case_prod_unfold)

end
