(* ===== verification/Config_Text.thy ===== *)
theory Config_Text
  imports Transactions_Spec Json_Content
begin

text \<open>
  The strings of a configuration. The parser yields UTF-8, and so do the strings of D-Bus messages;
  loading, validation, \<open>add\<close> and transactions keep it, so that every component of the running configuration
  can be printed.
\<close>

section \<open>Conditions that the configuration keeps\<close>

text \<open>The tree that is left by setting a parameter.\<close>

fun param_tree :: "param_result \<Rightarrow> json option" where
  "param_tree (ParamSet j) = Some j"
| "param_tree (ParamNotObject pos j) = Some j"
| "param_tree _ = None"

lemma param_tree_map [simp]: "param_tree (map_param f r) = map_option f (param_tree r)"
  by (cases r) auto

lemma split_at_dot:
  assumes "find_char_from (CHR ''.'') key start = Some dot"
  shows "drop start key = substr key start (dot - start) @ CHR ''.'' # drop (dot + 1) key"
proof -
  have dot: "start \<le> dot" "dot < length key" "key ! dot = CHR ''.''"
    using assms find_char_from_Some[OF assms] find_char_Some_nth[of "CHR ''.''" "drop start key" "dot - start"]
    by (auto simp: find_char_from_def)
  then have "drop start key = take (dot - start) (drop start key) @ drop dot key"
    by (metis append_take_drop_id drop_drop le_add_diff_inverse2)
  also have "drop dot key = CHR ''.'' # drop (dot + 1) key"
    using dot(2,3) by (simp add: Cons_nth_drop_Suc[symmetric])
  finally show ?thesis
    by (simp add: substr_def)
qed

definition config_keys :: "string set" where
  "config_keys = {''network'', '':default-netns'', ''role'', '':role'', ''uplink'', '':uplink-name''}"

locale config_content = json_content +
  assumes content_keys: "k \<in> config_keys \<Longrightarrow> Q k"
    and content_role: "P (json_of_role r)"
    and content_split: "Q (s @ CHR ''.'' # t) \<Longrightarrow> Q s \<and> Q t"
begin

lemma content_ref: "P s \<Longrightarrow> Q k \<Longrightarrow> P (snd (ref_subscript path k s))"
  by (auto simp: ref_subscript_def split: option.splits res.splits intro!: content_put
      dest: content_at content_subscript)

end

sublocale config_content \<subseteq> kept: validation_relation name "\<lambda>s s'. Q name \<longrightarrow> P s \<longrightarrow> P s'" for name
  by unfold_locales
    (auto intro!: content_ref content_put content_keys content_role simp: content_string config_keys_def
      simp del: json_put.simps json_at.simps)

context config_content
begin

lemma content_validate: "P s \<Longrightarrow> Q name \<Longrightarrow> validate_entity name s = (r, s') \<Longrightarrow> P s'"
  using kept.entity_rel[of name s] by simp

lemma content_validate_all: "P cfg \<Longrightarrow> validate_all prev cfg = (r, cfg') \<Longrightarrow> P cfg'"
proof (induction prev cfg arbitrary: r rule: validate_all.induct)
  case (1 prev cfg)
  have key: "Q k" if "next_key prev cfg = Some k" for k
    using next_key_Some[OF that] "1.prems"(1) by (cases cfg) (auto simp: content_object)
  show ?case
    using 1 key content_validate[OF "1.prems"(1)]
    by (subst (asm) (3) validate_all.simps) (auto split: option.splits if_splits prod.splits res.splits)
qed

lemma content_load:
  assumes "config_load parse path contents = Ret c" "\<And>t j. parse t = Ret j \<Longrightarrow> P j"
  shows "P (configuration c)"
proof -
  obtain t cfg where cfg: "contents = Some t" "parse t = Ret cfg"
    using assms(1) by (auto simp: config_load_def split: option.splits)
  obtain r cfg' where run: "validate_all None cfg = (r, cfg')"
    by fastforce
  then have "configuration c = cfg'"
    using assms(1) cfg by (auto simp: config_load_def split: res.splits)
  then show ?thesis
    using content_validate_all[OF assms(2)[OF cfg(2)] run] by simp
qed

lemma content_leaf: "P tree \<Longrightarrow> Q k \<Longrightarrow> P v \<Longrightarrow> param_tree (set_leaf k v tree) = Some j \<Longrightarrow> P j"
  by (auto simp: set_leaf_def split: res.splits if_splits intro!: content_put dest: content_subscript)

lemma content_parameter:
  "P tree \<Longrightarrow> Q (drop start key) \<Longrightarrow> P v \<Longrightarrow> param_tree (set_parameter key v start tree) = Some j \<Longrightarrow> P j"
proof (induction key v start tree arbitrary: j rule: set_parameter.induct)
  case (1 key v start tree)
  show ?case
  proof (cases "find_char_from (CHR ''.'') key start")
    case None
    then have "param_tree (set_leaf (drop start key) v tree) = Some j"
      using "1.prems"(4) by (simp add: set_parameter.simps[of key v start])
    then show ?thesis
      by (rule content_leaf[OF "1.prems"(1-3)])
  next
    case (Some dot)
    let ?k = "substr key start (dot - start)" and ?tree = "if tree = JNull then JObject [] else tree"
    have k: "Q ?k" "Q (drop (dot + 1) key)"
      using content_split[of ?k] "1.prems"(2) split_at_dot[OF Some] by auto
    have tree: "P ?tree"
      using "1.prems"(1) by (simp add: content_object)
    consider "param_tree (set_leaf (drop start key) v tree) = Some j" | "dot \<noteq> 0" "\<not> is_object ?tree" "j = ?tree"
      | tree2 child c where "dot \<noteq> 0" "is_object ?tree" "json_subscript ?k ?tree = Ret (tree2, child)"
          "param_tree (set_parameter key v (dot + 1) child) = Some c" "j = json_put [?k] c tree2"
      using "1.prems"(4) Some
      by (auto simp: set_parameter.simps[of key v start] Let_def simp del: json_put.simps split: if_splits res.splits)
    then show ?thesis
    proof cases
      case 1
      then show ?thesis
        by (rule content_leaf[OF "1.prems"(1-3)])
    next
      case 3
      then have "P tree2" "P child"
        using content_subscript[OF tree k(1)] by auto
      then show ?thesis
        using "1.IH"[OF Some _ refl _ 3(3) refl] 3 k(2) "1.prems"(3) content_put by auto
    qed (use tree in simp)
  qed
qed

lemma content_parameters:
  assumes "\<And>t j. parse t = Some j \<Longrightarrow> P j"
  shows "set_parameters parse name ps self = Ret (r, self') \<Longrightarrow> P (configuration self) \<Longrightarrow>
    \<forall>p \<in> set ps. Q (parameter p) \<and> Q (param_value p) \<Longrightarrow> P (configuration self')"
proof (induction ps arbitrary: self)
  case (Cons p ps)
  let ?v = "param_json parse (param_value p)"
  obtain tree where tree: "json_find name (configuration self) = Some tree"
    using Cons.prems(1) by (auto split: option.splits)
  have v: "P ?v"
    using assms Cons.prems(3) by (auto simp: param_json_def content_string split: option.splits)
  have set: "P (json_put [name] tree' (configuration self))"
    if "param_tree (set_parameter (parameter p) ?v 0 tree) = Some tree'" for tree'
    using content_parameter[OF content_find[OF Cons.prems(2) tree] _ v that] Cons.prems(2,3) content_put by auto
  show ?case
  proof (cases "set_parameter (parameter p) ?v 0 tree")
    case (ParamSet tree')
    then show ?thesis
      using Cons.IH[of "self\<lparr>configuration := json_put [name] tree' (configuration self)\<rparr>"] Cons.prems tree set
      by (simp del: json_put.simps)
  next
    case (ParamNotObject pos tree')
    then show ?thesis
      using Cons.prems tree set by (auto simp del: json_put.simps)
  qed (use Cons.prems tree content_erase in \<open>auto split: res.splits\<close>)
qed simp

lemma content_add:
  assumes "config_add parse name ps self = Ret (r, self')" "P (configuration self)" "Q name"
    and "\<forall>p \<in> set ps. Q (parameter p) \<and> Q (param_value p)" "\<And>t j. parse t = Some j \<Longrightarrow> P j"
  shows "P (configuration self')"
proof (cases "\<not> mutable self \<or> json_count name (configuration self) \<noteq> 0")
  case True
  then show ?thesis
    using assms(1,2) by (auto simp: config_add_def split: if_splits)
next
  case False
  then obtain cfg v where cfg: "json_subscript name (configuration self) = Ret (cfg, v)"
    using assms(1) by (auto simp: config_add_def split: res.splits)
  let ?self = "self\<lparr>configuration := json_put [name] (JObject []) cfg\<rparr>"
  have "P (configuration ?self)"
    using content_subscript[OF assms(2,3) cfg] content_put[of cfg "JObject []"] by (simp add: content_object)
  obtain r1 self1 where run: "set_parameters parse name ps ?self = Ret (r1, self1)"
    using assms(1) False cfg by (auto simp: config_add_def simp del: json_put.simps split: res.splits)
  have self1: "P (configuration self1)"
    by (rule content_parameters[OF _ run]) fact+
  obtain q cfg1 where q: "validate_entity name (configuration self1) = (q, cfg1)"
    by fastforce
  then have "P cfg1"
    by (rule content_validate[OF self1 assms(3)])
  then show ?thesis
    using assms(1) False cfg run self1 q content_erase[of cfg1 name]
    by (cases r1; cases q) (auto simp: config_add_def simp del: json_put.simps split: res.splits)
qed

end

section \<open>UTF-8\<close>

lemma utf8_rest_split:
  assumes "of_char c < (0x80 :: nat)"
  shows "utf8_rest rs (s @ c # t) \<Longrightarrow> \<forall>r \<in> set rs. 0x80 \<le> fst r \<Longrightarrow> utf8_rest rs s \<and> utf8 t"
proof (induction rs s rule: utf8_rest.induct)
  case 1
  then show ?case
    using assms by (simp add: utf8_def utf8_ranges_def)
next
  case (2 b s)
  have "\<forall>r \<in> set rs. 0x80 \<le> fst r" if "utf8_ranges (of_char b) = Some rs" for rs
    using that by (auto simp: utf8_ranges_def split: if_splits)
  then show ?case
    using 2 by (auto split: option.splits)
next
  case (3 r rs)
  then show ?case
    using assms by simp
qed auto

lemma utf8_split: "utf8 (s @ CHR ''.'' # t) \<Longrightarrow> utf8 s \<and> utf8 t"
  using utf8_rest_split[of "CHR ''.''" "[]" s t] by (simp add: utf8_def)

interpretation text_config: config_content utf8_json utf8
proof unfold_locales
  show "utf8 k" if "k \<in> config_keys" for k
    using that by (auto simp: config_keys_def utf8_def utf8_ranges_def)
  show "utf8_json (json_of_role r)" for r
    by (simp add: json_of_role_def)
  show "utf8 s \<and> utf8 t" if "utf8 (s @ CHR ''.'' # t)" for s t
    using that by (rule utf8_split)
qed

lemma json_parse_good: "json_parse strtod t = Ret j \<Longrightarrow> wf_json j \<and> utf8_json j"
  using json_parse_outcome[of strtod t] by (simp add: good_json_def)

lemma json_parse_value_good: "json_parse_value strtod t = Some j \<Longrightarrow> wf_json j \<and> utf8_json j"
  using json_parse_good by (auto simp: json_parse_value_def split: res.splits)

lemma json_parser_wf: "wf_parser (json_parse_value strtod)"
  using json_parse_value_good by (auto simp: wf_parser_def)

section \<open>Transactions\<close>

text \<open>The strings that are logged come from D-Bus messages, which are UTF-8.\<close>

fun utf8_op :: "operation \<Rightarrow> bool" where
  "utf8_op (add_op name ps) \<longleftrightarrow> utf8 name \<and> (\<forall>p \<in> set ps. utf8 (parameter p) \<and> utf8 (param_value p))"
| "utf8_op (set_op name ps) \<longleftrightarrow> utf8 name \<and> (\<forall>p \<in> set ps. utf8 (parameter p) \<and> utf8 (param_value p))"
| "utf8_op (delete_op name) \<longleftrightarrow> utf8 name"

definition utf8_logs :: "transactions \<Rightarrow> bool" where
  "utf8_logs s \<longleftrightarrow> (\<forall>(i, t) \<in> set (txns s). \<forall>oper \<in> set (operations t). utf8_op oper)"

text \<open>A call on transactions by a client that sends UTF-8.\<close>

definition text_step :: "(string \<Rightarrow> 64 word) \<Rightarrow> transactions \<Rightarrow> transactions \<Rightarrow> bool" where
  "text_step strtod s s' \<longleftrightarrow> txn_step (json_parse_value strtod) s s' \<and> utf8_logs s'"

abbreviation text_steps :: "(string \<Rightarrow> 64 word) \<Rightarrow> transactions \<Rightarrow> transactions \<Rightarrow> bool" where
  "text_steps strtod \<equiv> (text_step strtod)\<^sup>*\<^sup>*"

definition utf8_config :: "config \<Rightarrow> bool" where
  "utf8_config cfg \<longleftrightarrow> utf8_json (configuration cfg)"

lemma utf8_apply:
  assumes "apply_operations (json_parse_value strtod) ops cfg = Ret (status, err, cfg')"
    and "utf8_config cfg" "\<forall>oper \<in> set ops. utf8_op oper"
  shows "utf8_config cfg'"
  using assms
proof (induction ops arbitrary: cfg)
  case (Cons oper ops)
  obtain st er cfg1 where run: "apply_operation (json_parse_value strtod) oper cfg = Ret (st, er, cfg1)"
    using Cons.prems(1) by auto
  have "utf8_config cfg1"
    using run Cons.prems(2,3) text_config.content_add[of "json_parse_value strtod"] json_parse_value_good
    by (fastforce simp: apply_operation_def utf8_config_def split: operation.splits if_splits)
  then show ?case
    using Cons run by (auto split: if_splits)
qed simp

lemma text_step_keeps:
  assumes "text_step strtod s s'" "txns_inv s" "utf8_config (running_config s)" "utf8_logs s"
  shows "utf8_config (running_config s')"
proof -
  have valid: "valid_config (configuration (running_config s))"
    using assms(2) by (simp add: txns_inv_def)
  have "txn_step (json_parse_value strtod) s s'"
    using assms(1) by (simp add: text_step_def)
  then show ?thesis
  proof cases
    case (step_list bus ou)
    then show ?thesis
      using assms(3) by (auto simp: method_list_def dest!: co_return_Ret)
  next
    case (step_new bus read "from" vtable rand n ou)
    from step_new(2) show ?thesis
      by (cases rule: method_new_cases) (use assms(3) step_new(1) in auto)
  next
    case (step_commit bus read i "from" ou)
    from step_commit(2) valid json_parser_wf show ?thesis
    proof (cases rule: method_commit_cases)
      case (committed t copy)
      then have "\<forall>oper \<in> set (operations t). utf8_op oper"
        using assms(4) by (auto simp: utf8_logs_def dest!: map_of_SomeD)
      then have "utf8_config copy"
        using utf8_apply[OF committed(3)] assms(3) by (simp add: utf8_config_def config_copy_def)
      then show ?thesis
        using committed(4) step_commit(1) by (simp add: committed_def utf8_config_def config_assign_def)
    qed (use assms(3) step_commit(1) in auto)
  next
    case (step_discard bus read i "from" ou)
    from step_discard(2) show ?thesis
      by (cases rule: method_discard_cases) (use assms(3) step_discard(1) in auto)
  next
    case (step_object i t path bus ou "from" msg)
    then show ?thesis
      using assms(3) by simp
  qed
qed

lemma text_steps_keep:
  assumes "text_steps strtod s s'" "txns_inv s" "utf8_config (running_config s)" "utf8_logs s"
  shows "txns_inv s' \<and> utf8_config (running_config s') \<and> utf8_logs s'"
  using assms(1)
proof (induction rule: rtranclp_induct)
  case (step s1 s2)
  then show ?case
    using text_step_keeps[of strtod s1 s2] txn_step_inv[OF _ _ json_parser_wf, of strtod s1 s2]
    by (auto simp: text_step_def)
qed (use assms(2-4) in simp)

end
