(* ===== verification/Entity_Queue.thy ===== *)
theory Entity_Queue
  imports Nonsense_Prelude
begin

text \<open>
  The queue of an entity (\<open>daemon/entity.cpp\<close>): at most one coroutine works on an entity at a time,
  the others wait in order. First the operations on one queue with their assertions, and what
  they promise (locale \<open>token_queue\<close>); then the coroutines that use them. Coroutines resume each
  other synchronously (a token's destructor runs the next waiter, the end of a subtask runs the
  coroutine that awaits it), so the machine has a stack of running coroutines.
\<close>

section \<open>Queues\<close>

record queue_state =
  held :: bool
  queue :: "nat list"

definition empty_queue :: queue_state where
  "empty_queue = \<lparr>held = False, queue = []\<rparr>"

text \<open>\<open>queues[name]\<close> of an unordered map inserts an empty state for a new name.\<close>

type_synonym queue_map = "string \<Rightarrow> queue_state"

definition initial_queues :: queue_map where
  "initial_queues = (\<lambda>_. empty_queue)"

definition await_ready :: "queue_state \<Rightarrow> bool" where
  "await_ready q \<longleftrightarrow> \<not> held q"

definition await_suspend :: "nat \<Rightarrow> queue_state \<Rightarrow> queue_state res" where
  "await_suspend h q = (if held q then Ret (q\<lparr>queue := queue q @ [h]\<rparr>) else Abort)"

definition await_resume :: "queue_state \<Rightarrow> queue_state res" where
  "await_resume q = (if held q then Abort else Ret (q\<lparr>held := True\<rparr>))"

text \<open>The destructor of the token; the handle it pops is resumed by the caller of this function.\<close>

definition token_destroy :: "queue_state \<Rightarrow> (nat option \<times> queue_state) res" where
  "token_destroy q =
     (if \<not> held q then Abort
      else case queue q of
             [] \<Rightarrow> Ret (None, q\<lparr>held := False\<rparr>)
           | h # hs \<Rightarrow> Ret (Some h, \<lparr>held = False, queue = hs\<rparr>))"

text \<open>
  The contract of such a queue towards coroutines: taking a free token succeeds, waiting for a
  taken one appends to the line, and giving it back frees it and names the first in line.
\<close>

locale token_queue =
  fixes ready :: "'q \<Rightarrow> bool"
    and wait :: "'h \<Rightarrow> 'q \<Rightarrow> 'q res"
    and take_token :: "'q \<Rightarrow> 'q res"
    and give_back :: "'q \<Rightarrow> ('h option \<times> 'q) res"
    and line :: "'q \<Rightarrow> 'h list"
  assumes take_free: "ready q \<Longrightarrow> \<exists>q'. take_token q = Ret q' \<and> \<not> ready q' \<and> line q' = line q"
    and wait_taken: "\<not> ready q \<Longrightarrow> \<exists>q'. wait h q = Ret q' \<and> \<not> ready q' \<and> line q' = line q @ [h]"
    and give_back_taken: "\<not> ready q \<Longrightarrow>
      \<exists>q'. give_back q = Ret (if line q = [] then None else Some (hd (line q)), q') \<and>
        ready q' \<and> line q' = tl (line q)"
begin

fun wait_all :: "'h list \<Rightarrow> 'q \<Rightarrow> 'q res" where
  "wait_all [] q = Ret q"
| "wait_all (h # hs) q = bind_res (wait h q) (wait_all hs)"

text \<open>Hand the token on \<open>n\<close> times; the coroutines that got it, in order.\<close>

fun hand_on :: "nat \<Rightarrow> 'q \<Rightarrow> ('h option list \<times> 'q) res" where
  "hand_on 0 q = Ret ([], q)"
| "hand_on (Suc n) q =
     bind_res (give_back q) (\<lambda>(h, q1). bind_res (take_token q1) (\<lambda>q2.
       bind_res (hand_on n q2) (\<lambda>(hs, q3). Ret (h # hs, q3))))"

lemma wait_all_line:
  "\<not> ready q \<Longrightarrow> \<exists>q'. wait_all hs q = Ret q' \<and> \<not> ready q' \<and> line q' = line q @ hs"
proof (induction hs arbitrary: q)
  case (Cons h hs)
  obtain q1 where q1: "wait h q = Ret q1" "\<not> ready q1" "line q1 = line q @ [h]"
    using wait_taken[OF Cons.prems] by blast
  show ?case
    using Cons.IH[OF q1(2)] q1 by auto
qed simp

lemma hand_on_line:
  "\<not> ready q \<Longrightarrow> n \<le> length (line q) \<Longrightarrow>
     \<exists>q'. hand_on n q = Ret (map Some (take n (line q)), q') \<and> \<not> ready q' \<and> line q' = drop n (line q)"
proof (induction n arbitrary: q)
  case (Suc n)
  obtain h hs where l: "line q = h # hs"
    using Suc.prems(2) by (cases "line q") auto
  obtain q1 where q1: "give_back q = Ret (Some h, q1)" "ready q1" "line q1 = hs"
    using give_back_taken[OF Suc.prems(1)] l by auto
  obtain q2 where q2: "take_token q1 = Ret q2" "\<not> ready q2" "line q2 = hs"
    using take_free[OF q1(2)] q1(3) by auto
  show ?case
    using Suc.IH[OF q2(2)] Suc.prems(2) l q1(1) q2 by auto
qed simp

text \<open>First come, first served.\<close>

lemma served_in_order:
  assumes "\<not> ready q" "line q = []"
  shows "\<exists>q1 q2. wait_all hs q = Ret q1 \<and> hand_on (length hs) q1 = Ret (map Some hs, q2) \<and> line q2 = []"
proof -
  obtain q1 where q1: "wait_all hs q = Ret q1" "\<not> ready q1" "line q1 = hs"
    using wait_all_line[OF assms(1)] assms(2) by auto
  then show ?thesis
    using hand_on_line[OF q1(2), of "length hs"] by auto
qed

end

interpretation eq: token_queue await_ready await_suspend await_resume token_destroy queue
  by unfold_locales
    (auto simp: await_ready_def await_suspend_def await_resume_def token_destroy_def split: list.splits)

section \<open>Coroutines\<close>

text \<open>
  One run of a coroutine, as the list of what it does: \<open>Acquire n\<close> is \<open>co_await enqueue()\<close> on the
  entity \<open>n\<close>; \<open>Granted n\<close> is the rest of that \<open>co_await\<close> after a suspension; \<open>Release n\<close> is the
  destruction of the token; \<open>Pause\<close> is a suspension until a D-Bus reply or signal; \<open>Call\<close> awaits a
  subtask; \<open>Return\<close> and \<open>Fail\<close> are \<open>co_return unit\<close> and \<open>co_return\<close> of an error (\<open>return_value\<close> runs
  before the locals, hence the tokens, are destroyed).
\<close>

datatype instr =
    Acquire string
  | Granted string
  | Release string
  | Pause
  | Call "instr list"
  | Return
  | Fail

datatype place = Running | Queued string | Paused | Awaiting nat | Done

record machine =
  queues :: queue_map
  code :: "nat \<Rightarrow> instr list"
  parent :: "nat \<Rightarrow> nat option"
  place :: "nat \<Rightarrow> place"
  active :: "nat list"
  spawned :: nat

definition initial_machine :: machine where
  "initial_machine = \<lparr>queues = initial_queues, code = (\<lambda>_. []), parent = (\<lambda>_. None),
     place = (\<lambda>_. Done), active = [], spawned = 0\<rparr>"

text \<open>The tokens a coroutine holds: those it still has to release.\<close>

fun tokens :: "instr list \<Rightarrow> string list" where
  "tokens [] = []"
| "tokens (Release n # p) = n # tokens p"
| "tokens (Acquire n # p) = tl (tokens p)"
| "tokens (Granted n # p) = tl (tokens p)"
| "tokens (_ # p) = tokens p"

text \<open>The coroutines that await \<open>h\<close>, directly and transitively, by the handles in their promises.\<close>

fun ancestors :: "nat \<Rightarrow> (nat \<Rightarrow> nat option) \<Rightarrow> nat \<Rightarrow> nat list" where
  "ancestors 0 par h = []"
| "ancestors (Suc k) par h = (case par h of None \<Rightarrow> [] | Some p \<Rightarrow> p # ancestors k par p)"

text \<open>\<open>handle.destroy()\<close> of a suspended coroutine destroys its tokens, and nothing else of it runs.\<close>

fun destroy_all :: "nat list \<Rightarrow> machine \<Rightarrow> machine" where
  "destroy_all [] m = m"
| "destroy_all (a # as) m =
     destroy_all as (m\<lparr>code := (code m)(a := map Release (tokens (code m a))),
                       place := (place m)(a := Running), active := a # active m\<rparr>)"

definition spawn :: "nat option \<Rightarrow> instr list \<Rightarrow> machine \<Rightarrow> machine" where
  "spawn par p m =
     m\<lparr>code := (code m)(spawned m := p), parent := (parent m)(spawned m := par),
       place := (place m)(spawned m := Running), active := spawned m # active m,
       spawned := Suc (spawned m)\<rparr>"

text \<open>One step of the coroutine on top of the stack.\<close>

definition run1 :: "machine \<Rightarrow> machine res" where
  "run1 m =
     (case active m of
        [] \<Rightarrow> Ret m
      | h # hs \<Rightarrow>
          (case code m h of
             [] \<Rightarrow> Ret (m\<lparr>place := (place m)(h := Done), active := hs\<rparr>)
           | Acquire n # p \<Rightarrow>
               if await_ready (queues m n) then
                 bind_res (await_resume (queues m n)) (\<lambda>q.
                   Ret (m\<lparr>queues := (queues m)(n := q), code := (code m)(h := p)\<rparr>))
               else
                 bind_res (await_suspend h (queues m n)) (\<lambda>q.
                   Ret (m\<lparr>queues := (queues m)(n := q), code := (code m)(h := Granted n # p),
                          place := (place m)(h := Queued n), active := hs\<rparr>))
           | Granted n # p \<Rightarrow>
               bind_res (await_resume (queues m n)) (\<lambda>q.
                 Ret (m\<lparr>queues := (queues m)(n := q), code := (code m)(h := p)\<rparr>))
           | Release n # p \<Rightarrow>
               bind_res (token_destroy (queues m n)) (\<lambda>(w, q).
                 let m1 = m\<lparr>queues := (queues m)(n := q), code := (code m)(h := p)\<rparr> in
                 case w of
                   None \<Rightarrow> Ret m1
                 | Some w \<Rightarrow> Ret (m1\<lparr>place := (place m)(w := Running), active := w # h # hs\<rparr>))
           | Pause # p \<Rightarrow>
               Ret (m\<lparr>code := (code m)(h := p), place := (place m)(h := Paused), active := hs\<rparr>)
           | Call q # p \<Rightarrow>
               Ret (spawn (Some h) q
                 (m\<lparr>code := (code m)(h := p), place := (place m)(h := Awaiting (spawned m)),
                    active := hs\<rparr>))
           | Return # p \<Rightarrow>
               let m1 = m\<lparr>code := (code m)(h := p)\<rparr> in
               (case parent m h of
                  None \<Rightarrow> Ret m1
                | Some a \<Rightarrow> Ret (m1\<lparr>place := (place m)(a := Running), active := a # h # hs\<rparr>))
           | Fail # p \<Rightarrow>
               Ret (destroy_all (ancestors (spawned m) (parent m) h) (m\<lparr>code := (code m)(h := p)\<rparr>))))"

text \<open>Running on: the stack is worked off before the event loop goes on.\<close>

fun run :: "nat \<Rightarrow> machine \<Rightarrow> machine res" where
  "run 0 m = Ret m"
| "run (Suc k) m = bind_res (run1 m) (run k)"

text \<open>A coroutine returns once, after which only its tokens are destroyed; tokens are scoped.\<close>

fun wf_code :: "instr list \<Rightarrow> bool" where
  "wf_code [] = False"
| "wf_code (Acquire n # p) \<longleftrightarrow> wf_code p \<and> (case tokens p of [] \<Rightarrow> False | k # _ \<Rightarrow> k = n)"
| "wf_code (Granted n # p) = False"
| "wf_code (Release n # p) = wf_code p"
| "wf_code (Pause # p) = wf_code p"
| "wf_code (Call q # p) \<longleftrightarrow> wf_code q \<and> tokens q = [] \<and> wf_code p"
| "wf_code (Return # p) \<longleftrightarrow> p = map Release (tokens p)"
| "wf_code (Fail # p) \<longleftrightarrow> p = map Release (tokens p)"

text \<open>The event loop of the daemon starts a coroutine for a method call, or delivers a reply or
  signal to a paused one; then the running coroutines go on until all are suspended.\<close>

inductive machine_step :: "machine \<Rightarrow> machine \<Rightarrow> bool" where
  step_run: "active m \<noteq> [] \<Longrightarrow> run1 m = Ret m' \<Longrightarrow> machine_step m m'"
| step_spawn: "active m = [] \<Longrightarrow> wf_code p \<Longrightarrow> tokens p = [] \<Longrightarrow> machine_step m (spawn None p m)"
| step_resume: "active m = [] \<Longrightarrow> place m h = Paused \<Longrightarrow>
    machine_step m (m\<lparr>place := (place m)(h := Running), active := [h]\<rparr>)"

definition reachable :: "machine \<Rightarrow> bool" where
  "reachable m \<longleftrightarrow> machine_step\<^sup>*\<^sup>* initial_machine m"

end
