(* ===== verification/Entity_Queue_Properties.thy ===== *)
theory Entity_Queue_Properties
  imports Entity_Queue
begin

text \<open>
  The invariant of the coroutine machine, and what follows from it: the assertions in the queue
  code never fail, one coroutine at a time works on an entity, no waiter is forgotten, and control
  always returns to the event loop.
\<close>

section \<open>Code\<close>

definition returned :: "instr list \<Rightarrow> bool" where
  "returned p \<longleftrightarrow> p = map Release (tokens p)"

text \<open>Suspended in \<open>enqueue()\<close>: the token \<open>n\<close> is acquired on resumption.\<close>

definition waits_for :: "string \<Rightarrow> instr list \<Rightarrow> bool" where
  "waits_for n c \<longleftrightarrow> (\<exists>p r. c = Granted n # p \<and> wf_code p \<and> tokens p = n # r)"

lemma tokens_releases [simp]: "tokens (map Release ts) = ts"
  by (induction ts) auto

lemma returned_releases [simp]: "returned (map Release ts)"
  by (simp add: returned_def)

lemma returned_Nil [simp]: "returned []"
  by (simp add: returned_def)

lemma returned_simps [simp]:
  "returned (Release n # p) = returned p" "\<not> returned (Acquire n # p)" "\<not> returned (Granted n # p)"
  "\<not> returned (Pause # p)" "\<not> returned (Call q # p)" "\<not> returned (Return # p)" "\<not> returned (Fail # p)"
  by (auto simp: returned_def Cons_eq_map_conv)

lemma wf_code_not_returned: "wf_code p \<Longrightarrow> \<not> returned p"
  by (induction p rule: wf_code.induct) auto

lemma wf_code_return [simp]:
  "wf_code (Return # p) = returned p" "wf_code (Fail # p) = returned p"
  by (simp_all add: returned_def)

declare wf_code.simps(7,8) [simp del]

lemma wf_code_Acquire [simp]: "wf_code (Acquire n # p) \<longleftrightarrow> wf_code p \<and> (\<exists>r. tokens p = n # r)"
  by (auto split: list.splits)

declare wf_code.simps(2) [simp del]

lemma waits_for_not_wf: "waits_for n c \<Longrightarrow> \<not> wf_code c \<and> \<not> returned c"
  by (auto simp: waits_for_def)

section \<open>The invariant\<close>

definition inv_stack :: "machine \<Rightarrow> bool" where
  "inv_stack m \<longleftrightarrow> distinct (active m) \<and> (\<forall>h. h \<in> set (active m) \<longleftrightarrow> place m h = Running)"

definition inv_queue :: "machine \<Rightarrow> bool" where
  "inv_queue m \<longleftrightarrow>
     (\<forall>n. distinct (queue (queues m n)) \<and>
       (\<forall>h. h \<in> set (queue (queues m n)) \<longleftrightarrow> place m h = Queued n))"

definition inv_code :: "machine \<Rightarrow> bool" where
  "inv_code m \<longleftrightarrow>
     (\<forall>h. case place m h of
        Done \<Rightarrow> code m h = []
      | Paused \<Rightarrow> wf_code (code m h)
      | Awaiting k \<Rightarrow> wf_code (code m h)
      | Queued n \<Rightarrow> waits_for n (code m h)
      | Running \<Rightarrow> wf_code (code m h) \<or> returned (code m h) \<or>
          (\<exists>n. waits_for n (code m h) \<and> hd (active m) = h \<and> \<not> held (queues m n)))"

definition inv_parent :: "machine \<Rightarrow> bool" where
  "inv_parent m \<longleftrightarrow>
     (\<forall>h a. parent m h = Some a \<longrightarrow> a < h) \<and>
     (\<forall>h a. parent m h = Some a \<and> \<not> returned (code m h) \<longrightarrow> place m a = Awaiting h) \<and>
     (\<forall>h a. place m a = Awaiting h \<longrightarrow> parent m h = Some a \<and> \<not> returned (code m h))"

definition inv_fresh :: "machine \<Rightarrow> bool" where
  "inv_fresh m \<longleftrightarrow>
     (\<forall>h \<ge> spawned m. code m h = [] \<and> parent m h = None \<and> place m h = Done)"

text \<open>Each token that is held is held by one coroutine, once.\<close>

definition exclusive :: "(nat \<Rightarrow> string list) \<Rightarrow> (string \<Rightarrow> bool) \<Rightarrow> bool" where
  "exclusive T H \<longleftrightarrow>
     (\<forall>h. distinct (T h)) \<and>
     (\<forall>n h h'. n \<in> set (T h) \<and> n \<in> set (T h') \<longrightarrow> h = h') \<and>
     (\<forall>n. H n \<longleftrightarrow> (\<exists>h. n \<in> set (T h)))"

lemma exclusive_take:
  "exclusive T H \<Longrightarrow> \<not> H n \<Longrightarrow> exclusive (T(h := n # T h)) (H(n := True))"
  unfolding exclusive_def by (intro conjI allI; simp) metis+

lemma exclusive_drop:
  "exclusive T H \<Longrightarrow> T h = n # r \<Longrightarrow> exclusive (T(h := r)) (H(n := False))"
  unfolding exclusive_def
  by (intro conjI allI; simp) (metis distinct.simps(2) list.set_intros(1,2) set_ConsD)+

definition inv_mutex :: "machine \<Rightarrow> bool" where
  "inv_mutex m \<longleftrightarrow> exclusive (tokens \<circ> code m) (held \<circ> queues m)"

definition inv_wake :: "machine \<Rightarrow> bool" where
  "inv_wake m \<longleftrightarrow>
     (\<forall>n. queue (queues m n) \<noteq> [] \<and> \<not> held (queues m n) \<longrightarrow>
       (\<exists>h hs. active m = h # hs \<and> waits_for n (code m h)))"

definition machine_inv :: "machine \<Rightarrow> bool" where
  "machine_inv m \<longleftrightarrow> inv_stack m \<and> inv_queue m \<and> inv_code m \<and> inv_parent m \<and> inv_fresh m \<and>
     inv_mutex m \<and> inv_wake m"

lemmas machine_inv_defs = inv_stack_def inv_queue_def inv_code_def inv_parent_def inv_fresh_def
  inv_mutex_def inv_wake_def
lemmas queue_defs = await_ready_def await_resume_def await_suspend_def token_destroy_def

lemma inv_initial: "machine_inv initial_machine"
  by (simp add: machine_inv_def machine_inv_defs exclusive_def initial_machine_def initial_queues_def empty_queue_def)

lemma inv_running:
  assumes "machine_inv m" "active m = h # hs"
  obtains (wf) "wf_code (code m h)" | (returned) "returned (code m h)"
    | (granted) n where "waits_for n (code m h)" "\<not> held (queues m n)"
proof -
  have "place m h = Running"
    using assms by (auto simp: machine_inv_def inv_stack_def)
  then show thesis
    using assms that by (fastforce simp: machine_inv_def inv_code_def split: place.splits)
qed

lemma inv_parent_cong:
  assumes "inv_parent m" "parent m' = parent m"
    and "\<And>h a. parent m h = Some a \<Longrightarrow> returned (code m' h) = returned (code m h)"
    and "\<And>a k. place m' a = Awaiting k \<longleftrightarrow> place m a = Awaiting k"
  shows "inv_parent m'"
  using assms(1,3) unfolding inv_parent_def assms(2,4) by blast

lemma inv_mutex_cong:
  assumes "inv_mutex m" "\<And>x. tokens (code m' x) = tokens (code m x)"
    and "\<And>n. held (queues m' n) = held (queues m n)"
  shows "inv_mutex m'"
  using assms by (simp add: inv_mutex_def comp_def)

lemma waits_for_Granted [simp]: "waits_for n (Granted k # p) \<longleftrightarrow> n = k \<and> wf_code (Acquire n # p)"
  by (auto simp: waits_for_def)

lemma waits_for_other [simp]:
  "\<not> waits_for n []" "\<not> waits_for n (Acquire k # p)" "\<not> waits_for n (Release k # p)"
  "\<not> waits_for n (Pause # p)" "\<not> waits_for n (Call q # p)" "\<not> waits_for n (Return # p)"
  "\<not> waits_for n (Fail # p)"
  by (auto simp: waits_for_def)

lemma run_end_inv:
  assumes "machine_inv m" "active m = h # hs" "code m h = []"
  shows "machine_inv (m\<lparr>place := (place m)(h := Done), active := hs\<rparr>)"
proof -
  let ?m = "m\<lparr>place := (place m)(h := Done), active := hs\<rparr>"
  note I = assms(1)[unfolded machine_inv_def]
  have run: "place m h = Running" "h \<notin> set hs"
    using I assms(2) by (auto simp: inv_stack_def)
  have "inv_stack ?m" using I assms(2) by (auto simp: inv_stack_def)
  moreover have "inv_queue ?m" using I run by (auto simp: inv_queue_def)
  moreover have "inv_code ?m" using I run assms(2,3) by (auto simp: inv_code_def inv_stack_def split: place.splits)
  moreover have "inv_parent ?m" by (rule inv_parent_cong[of m]) (use I run in auto)
  moreover have "inv_fresh ?m" using I run assms(3) by (auto simp: inv_fresh_def)
  moreover have "inv_mutex ?m" using I by (simp add: inv_mutex_def)
  moreover have "inv_wake ?m" using I run assms(2,3) by (auto simp: inv_wake_def)
  ultimately show ?thesis by (simp add: machine_inv_def)
qed

lemma run_acquire_inv:
  assumes "machine_inv m" "active m = h # hs" "code m h = Acquire n # p \<or> code m h = Granted n # p" "\<not> held (queues m n)"
  shows "machine_inv (m\<lparr>queues := (queues m)(n := queues m n\<lparr>held := True\<rparr>), code := (code m)(h := p)\<rparr>)"
proof -
  let ?m = "m\<lparr>queues := (queues m)(n := queues m n\<lparr>held := True\<rparr>), code := (code m)(h := p)\<rparr>"
  note I = assms(1)[unfolded machine_inv_def]
  have run: "place m h = Running" "h \<notin> set hs"
    using I assms(2) by (auto simp: inv_stack_def)
  obtain r where p: "wf_code p" "tokens p = n # r"
    by (rule inv_running[OF assms(1,2)]) (use assms(3) in auto)
  have "inv_stack ?m" using I assms(2) by (auto simp: inv_stack_def)
  moreover have "inv_queue ?m" using I run by (auto simp: inv_queue_def)
  moreover have "inv_code ?m" using I run assms(2) p by (auto simp: inv_code_def inv_stack_def split: place.splits)
  moreover have "inv_parent ?m" by (rule inv_parent_cong[of m]) (use I assms(3) wf_code_not_returned[OF p(1)] in auto)
  moreover have "inv_fresh ?m" using I run assms(3) by (auto simp: inv_fresh_def)
  moreover have "inv_mutex ?m" 
    using I exclusive_take[of "tokens \<circ> code m" "held \<circ> queues m" n h] assms(3,4) p
    by (auto simp: inv_mutex_def fun_upd_comp)
  moreover have "inv_wake ?m" using I run assms(2,3) by (auto simp: inv_wake_def)
  ultimately show ?thesis by (simp add: machine_inv_def)
qed

lemma run_wait_inv:
  assumes "machine_inv m" "active m = h # hs" "code m h = Acquire n # p" "held (queues m n)"
  shows "machine_inv (m\<lparr>queues := (queues m)(n := queues m n\<lparr>queue := queue (queues m n) @ [h]\<rparr>),
    code := (code m)(h := Granted n # p), place := (place m)(h := Queued n), active := hs\<rparr>)"
    (is "machine_inv ?m")
proof -
  note I = assms(1)[unfolded machine_inv_def]
  have run: "place m h = Running" "h \<notin> set hs"
    using I assms(2) by (auto simp: inv_stack_def)
  have p: "wf_code (Acquire n # p)"
    by (rule inv_running[OF assms(1,2)]) (use assms(3) in auto)
  have "inv_stack ?m" using I assms(2) by (auto simp: inv_stack_def)
  moreover have "inv_queue ?m" using I run by (auto simp: inv_queue_def)
  moreover have "inv_code ?m"
    using I run assms(2) p by (auto simp: inv_code_def inv_stack_def split: place.splits)
  moreover have "inv_parent ?m"
    by (rule inv_parent_cong[of m]) (use I run assms(3) in auto)
  moreover have "inv_fresh ?m" using I run by (auto simp: inv_fresh_def)
  moreover have "inv_mutex ?m"
    by (rule inv_mutex_cong[of m]) (use I assms(3) in auto)
  moreover have "inv_wake ?m"
    using I run assms(2,3,4) by (auto simp: inv_wake_def)
  ultimately show ?thesis by (simp add: machine_inv_def)
qed

lemma run_release_inv:
  assumes "machine_inv m" "active m = h # hs" "code m h = Release n # p"
    and "m' = m\<lparr>queues := (queues m)(n := \<lparr>held = False, queue = ws\<rparr>), code := (code m)(h := p),
           place := (case queue (queues m n) of [] \<Rightarrow> place m | w # _ \<Rightarrow> (place m)(w := Running)),
           active := (case queue (queues m n) of [] \<Rightarrow> h # hs | w # _ \<Rightarrow> w # h # hs)\<rparr>"
    and "ws = tl (queue (queues m n))"
  shows "machine_inv m'"
proof -
  note I = assms(1)[unfolded machine_inv_def]
  have run: "place m h = Running" "h \<notin> set hs"
    using I assms(2) by (auto simp: inv_stack_def)
  have p: "wf_code p \<or> returned p"
    by (rule inv_running[OF assms(1,2)]) (use assms(3) in auto)
  have q: "x \<in> set (queue (queues m k)) \<longleftrightarrow> place m x = Queued k" "distinct (queue (queues m k))" for x k
    using I by (auto simp: inv_queue_def)
  have e: "place m x \<noteq> Queued n" if "queue (queues m n) = []" for x
    using that q(1)[of x n] by simp
  have w: "place m w = Queued n" "w \<notin> set us" "distinct us" "w \<noteq> h" "w \<notin> set hs"
      "x \<in> set us \<longleftrightarrow> x \<noteq> w \<and> place m x = Queued n"
    if "queue (queues m n) = w # us" for w us x
    using that q(1)[of w n] q(1)[of x n] q(2)[of n] I assms(2) run by (auto simp: inv_stack_def)
  have "inv_stack m'"
    using I assms(2,4) w by (auto simp: inv_stack_def split: list.splits)
  moreover have "inv_queue m'"
    using q e assms(4,5) w by (auto simp: inv_queue_def split: list.splits)
  moreover have "inv_code m'"
    using I run assms(2,3,4) p w
    by (auto simp: inv_code_def inv_stack_def split: place.splits list.splits)
  moreover have "inv_parent m'"
    by (rule inv_parent_cong[of m]) (use I run assms(3,4) w in \<open>auto split: list.splits\<close>)
  moreover have "inv_fresh m'"
    using I run assms(3,4) w by (auto simp: inv_fresh_def split: list.splits)
  moreover have "inv_mutex m'"
    using I exclusive_drop[of "tokens \<circ> code m" "held \<circ> queues m" h n "tokens p"] assms(3,4)
    by (auto simp: inv_mutex_def fun_upd_comp)
  moreover have "inv_wake m'"
    using I assms(2,3,4,5) w(1,4)
    by (auto simp: inv_wake_def inv_code_def split: list.splits place.splits)
  ultimately show ?thesis by (simp add: machine_inv_def)
qed

lemma run_pause_inv:
  assumes "machine_inv m" "active m = h # hs" "code m h = Pause # p"
  shows "machine_inv (m\<lparr>code := (code m)(h := p), place := (place m)(h := Paused), active := hs\<rparr>)" (is "machine_inv ?m")
proof -
  note I = assms(1)[unfolded machine_inv_def]
  have run: "place m h = Running" "h \<notin> set hs"
    using I assms(2) by (auto simp: inv_stack_def)
  have p: "wf_code p"
    by (rule inv_running[OF assms(1,2)]) (use assms(3) in auto)
  have "inv_stack ?m" using I assms(2) by (auto simp: inv_stack_def)
  moreover have "inv_queue ?m" using I run by (auto simp: inv_queue_def)
  moreover have "inv_code ?m"
    using I run assms(2) p by (auto simp: inv_code_def inv_stack_def split: place.splits)
  moreover have "inv_parent ?m"
    by (rule inv_parent_cong[of m]) (use I run assms(3) wf_code_not_returned[OF p] in auto)
  moreover have "inv_fresh ?m" using I run by (auto simp: inv_fresh_def)
  moreover have "inv_mutex ?m"
    by (rule inv_mutex_cong[of m]) (use I assms(3) in auto)
  moreover have "inv_wake ?m"
    using I assms(2,3) by (auto simp: inv_wake_def)
  ultimately show ?thesis by (simp add: machine_inv_def)
qed

lemma inv_parentD:
  assumes "machine_inv m"
  shows "parent m c = Some a \<Longrightarrow> a < c"
    and "parent m c = Some a \<Longrightarrow> \<not> returned (code m c) \<Longrightarrow> place m a = Awaiting c"
    and "place m a = Awaiting c \<Longrightarrow> parent m c = Some a \<and> \<not> returned (code m c)"
  using assms unfolding machine_inv_def inv_parent_def by blast+

lemma inv_fresh_handle:
  assumes "machine_inv m" "spawned m \<le> k"
  shows "code m k = []" "parent m k = None" "place m k = Done" "k \<notin> set (active m)"
    "parent m x \<noteq> Some k"
proof -
  note I = assms(1)[unfolded machine_inv_def]
  show d: "code m k = []" "parent m k = None" "place m k = Done"
    using I assms(2) by (simp_all add: inv_fresh_def)
  show "k \<notin> set (active m)"
    using I d by (simp add: inv_stack_def)
  show "parent m x \<noteq> Some k"
  proof
    assume "parent m x = Some k"
    moreover from inv_parentD(1)[OF assms(1) this] have "spawned m \<le> x"
      using assms(2) by simp
    then have "parent m x = None"
      using I by (simp add: inv_fresh_def)
    ultimately show False by simp
  qed
qed

lemma spawn_inv:
  assumes "machine_inv m" "active m = []" "wf_code q" "tokens q = []"
  shows "machine_inv (spawn None q m)" (is "machine_inv ?m")
proof -
  note I = assms(1)[unfolded machine_inv_def]
  note new = inv_fresh_handle[OF assms(1) order_refl]
  have "inv_stack ?m"
    using I assms(2) new by (auto simp: inv_stack_def spawn_def)
  moreover have "inv_queue ?m"
    using I new by (auto simp: inv_queue_def spawn_def)
  moreover have "inv_code ?m"
    using I assms(2,3) by (auto simp: inv_code_def inv_stack_def spawn_def split: place.splits)
  moreover have "inv_parent ?m"
    by (rule inv_parent_cong[of m]) (use I new in \<open>auto simp: spawn_def fun_eq_iff\<close>)
  moreover have "inv_fresh ?m"
    using I by (auto simp: inv_fresh_def spawn_def)
  moreover have "inv_mutex ?m"
    by (rule inv_mutex_cong[of m]) (use I new assms(4) in \<open>auto simp: spawn_def\<close>)
  moreover have "inv_wake ?m"
    using I assms(2) by (auto simp: inv_wake_def spawn_def)
  ultimately show ?thesis by (simp add: machine_inv_def)
qed

lemma resume_inv:
  assumes "machine_inv m" "active m = []" "place m h = Paused"
  shows "machine_inv (m\<lparr>place := (place m)(h := Running), active := [h]\<rparr>)" (is "machine_inv ?m")
proof -
  note I = assms(1)[unfolded machine_inv_def]
  have "inv_stack ?m"
    using I assms(2) by (auto simp: inv_stack_def)
  moreover have "inv_queue ?m"
    using I assms(3) by (auto simp: inv_queue_def)
  moreover have "inv_code ?m"
    using I assms(2,3) by (auto simp: inv_code_def inv_stack_def split: place.splits)
  moreover have "inv_parent ?m"
    by (rule inv_parent_cong[of m]) (use I assms(3) in auto)
  moreover have "inv_fresh ?m"
    using I assms(3) by (auto simp: inv_fresh_def)
  moreover have "inv_mutex ?m"
    by (rule inv_mutex_cong[of m]) (use I in auto)
  moreover have "inv_wake ?m"
    using I assms(2) by (auto simp: inv_wake_def)
  ultimately show ?thesis by (simp add: machine_inv_def)
qed

lemma run_call_inv:
  assumes "machine_inv m" "active m = h # hs" "code m h = Call q # p"
  shows "machine_inv (spawn (Some h) q (m\<lparr>code := (code m)(h := p),
    place := (place m)(h := Awaiting (spawned m)), active := hs\<rparr>))" (is "machine_inv ?m")
proof -
  note I = assms(1)[unfolded machine_inv_def]
  note new = inv_fresh_handle[OF assms(1) order_refl]
  have run: "place m h = Running" "h \<notin> set hs" "h \<noteq> spawned m" "h < spawned m"
    using I assms(2) new(4) inv_fresh_handle(4)[OF assms(1), of h] by (auto simp: inv_stack_def not_le[symmetric])
  have p: "wf_code p" "wf_code q" "tokens q = []"
    by (rule inv_running[OF assms(1,2)]; use assms(3) in auto)+
  note nr = wf_code_not_returned[OF p(1)] wf_code_not_returned[OF p(2)]
  note par = inv_parentD[OF assms(1)]
  have "inv_stack ?m"
    using I assms(2) new run by (auto simp: inv_stack_def spawn_def)
  moreover have "inv_queue ?m"
    using I new run by (auto simp: inv_queue_def spawn_def)
  moreover have "inv_code ?m"
    using I assms(2) run p by (auto simp: inv_code_def inv_stack_def spawn_def split: place.splits)
  moreover have "inv_parent ?m"
    unfolding inv_parent_def
  proof (intro conjI allI impI)
    fix c a assume "parent ?m c = Some a"
    then show "a < c"
      using par(1) run(4) by (auto simp: spawn_def split: if_splits)
  next
    fix c a assume "parent ?m c = Some a \<and> \<not> returned (code ?m c)"
    then show "place ?m a = Awaiting c"
      using par(2)[of c a] new run assms(3) by (auto simp: spawn_def split: if_splits)
  next
    fix c a assume a: "place ?m a = Awaiting c"
    show "parent ?m c = Some a" "\<not> returned (code ?m c)"
      using a par(3)[of a c] new run nr by (auto simp: spawn_def split: if_splits)
  qed
  moreover have "inv_fresh ?m"
    using I run by (auto simp: inv_fresh_def spawn_def)
  moreover have "inv_mutex ?m"
    by (rule inv_mutex_cong[of m]) (use I new p assms(3) run in \<open>auto simp: spawn_def\<close>)
  moreover have "inv_wake ?m"
    using I assms(2,3) by (auto simp: inv_wake_def spawn_def)
  ultimately show ?thesis by (simp add: machine_inv_def)
qed

lemma run_return_inv:
  assumes "machine_inv m" "active m = h # hs" "code m h = Return # p" "parent m h = Some a"
  shows "machine_inv (m\<lparr>code := (code m)(h := p), place := (place m)(a := Running), active := a # h # hs\<rparr>)"
    (is "machine_inv ?m")
proof -
  note I = assms(1)[unfolded machine_inv_def]
  have run: "place m h = Running" "h \<notin> set hs"
    using I assms(2) by (auto simp: inv_stack_def)
  have p: "returned p"
    by (rule inv_running[OF assms(1,2)]) (use assms(3) in auto)
  note par = inv_parentD[OF assms(1)]
  have a: "place m a = Awaiting h" "a \<noteq> h" "a \<notin> set hs"
    using par(1,2)[OF assms(4)] assms(2,3) I by (auto simp: inv_stack_def)
  have "inv_stack ?m"
    using I assms(2) run a by (auto simp: inv_stack_def)
  moreover have "inv_queue ?m"
    using I a by (auto simp: inv_queue_def)
  moreover have "inv_code ?m"
    using I assms(2) run p a by (auto simp: inv_code_def inv_stack_def split: place.splits)
  moreover have "inv_parent ?m"
    unfolding inv_parent_def
  proof (intro conjI allI impI)
    fix c b assume "parent ?m c = Some b"
    then show "b < c" using par(1) by simp
  next
    fix c b assume "parent ?m c = Some b \<and> \<not> returned (code ?m c)"
    then show "place ?m b = Awaiting c"
      using par(2)[of c b] p a by (auto split: if_splits)
  next
    fix c b assume b: "place ?m b = Awaiting c"
    show "parent ?m c = Some b" "\<not> returned (code ?m c)"
      using b par(3)[of b c] assms(4) by (auto split: if_splits)
  qed
  moreover have "inv_fresh ?m"
    using I run a by (auto simp: inv_fresh_def)
  moreover have "inv_mutex ?m"
    by (rule inv_mutex_cong[of m]) (use I assms(3) in auto)
  moreover have "inv_wake ?m"
    using I assms(2,3) by (auto simp: inv_wake_def)
  ultimately show ?thesis by (simp add: machine_inv_def)
qed

lemma run_return_top_inv:
  assumes "machine_inv m" "active m = h # hs" "code m h = Return # p" "parent m h = None"
  shows "machine_inv (m\<lparr>code := (code m)(h := p)\<rparr>)" (is "machine_inv ?m")
proof -
  note I = assms(1)[unfolded machine_inv_def]
  have run: "place m h = Running" "h \<notin> set hs"
    using I assms(2) by (auto simp: inv_stack_def)
  have p: "returned p"
    by (rule inv_running[OF assms(1,2)]) (use assms(3) in auto)
  have "inv_stack ?m" "inv_queue ?m"
    using I by (auto simp: inv_stack_def inv_queue_def)
  moreover have "inv_code ?m"
    using I assms(2) run p by (auto simp: inv_code_def inv_stack_def split: place.splits)
  moreover have "inv_parent ?m"
    by (rule inv_parent_cong[of m]) (use I assms(4) in auto)
  moreover have "inv_fresh ?m"
    using I run by (auto simp: inv_fresh_def)
  moreover have "inv_mutex ?m"
    by (rule inv_mutex_cong[of m]) (use I assms(3) in auto)
  moreover have "inv_wake ?m"
    using I assms(2,3) by (auto simp: inv_wake_def)
  ultimately show ?thesis by (simp add: machine_inv_def)
qed

lemma ancestors_less:
  "machine_inv m \<Longrightarrow> x \<in> set (ancestors k (parent m) h) \<Longrightarrow> x < h"
proof (induction k arbitrary: h)
  case (Suc k)
  show ?case
  proof (cases "parent m h")
    case (Some a)
    then show ?thesis
      using Suc.IH[of a] Suc.prems inv_parentD(1)[OF Suc.prems(1) Some] by auto
  qed (use Suc.prems in simp)
qed simp

lemma distinct_ancestors: "machine_inv m \<Longrightarrow> distinct (ancestors k (parent m) h)"
proof (induction k arbitrary: h)
  case (Suc k)
  then show ?case
    using ancestors_less[OF Suc.prems, of _ k] by (auto split: option.splits)
qed simp

lemma wf_awaiting: "machine_inv m \<Longrightarrow> place m a = Awaiting c \<Longrightarrow> wf_code (code m a)"
  by (auto simp: machine_inv_def inv_code_def split: place.splits dest: spec[of _ a])

text \<open>The ancestors of a coroutine that has not returned all await, each the one before it.\<close>

lemma ancestors_await:
  assumes "machine_inv m" "\<not> returned (code m h)" "x \<in> set (ancestors k (parent m) h)"
  shows "\<exists>c \<in> set (h # ancestors k (parent m) h). place m x = Awaiting c"
  using assms(2,3)
proof (induction k arbitrary: h)
  case (Suc k)
  then obtain a where a: "parent m h = Some a" "x = a \<or> x \<in> set (ancestors k (parent m) a)"
    by (cases "parent m h") auto
  have aw: "place m a = Awaiting h"
    using inv_parentD(2)[OF assms(1) a(1) Suc.prems(1)] .
  have "\<not> returned (code m a)"
    using wf_code_not_returned[OF wf_awaiting[OF assms(1) aw]] .
  from Suc.IH[OF this] show ?case
    using a aw by auto
qed simp

lemma ancestors_closed:
  assumes "machine_inv m" "h \<le> k" "c \<in> set (h # ancestors k (parent m) h)" "parent m c = Some a"
  shows "a \<in> set (ancestors k (parent m) h)"
  using assms(2,3)
proof (induction k arbitrary: h)
  case 0
  then show ?case
    using inv_parentD(1)[OF assms(1,4)] by simp
next
  case (Suc k)
  show ?case
  proof (cases "parent m h")
    case (Some b)
    then have "b < h"
      using inv_parentD(1)[OF assms(1)] by blast
    then show ?thesis
      using Suc.IH[of b] Suc.prems Some assms(4) by auto
  qed (use Suc.prems assms(4) in auto)
qed

lemma destroy_all_fields:
  assumes "distinct as"
  shows "code (destroy_all as m) x =
      (if x \<in> set as then map Release (tokens (code m x)) else code m x)"
    "place (destroy_all as m) x = (if x \<in> set as then Running else place m x)"
    "active (destroy_all as m) = rev as @ active m"
    "queues (destroy_all as m) = queues m" "parent (destroy_all as m) = parent m"
    "spawned (destroy_all as m) = spawned m"
  using assms by (induction as arbitrary: m) auto

lemma failing_frames:
  assumes "machine_inv m" "active m = h # hs" "code m h = Fail # p"
  shows "place m h = Running" "h \<notin> set hs" "h \<le> spawned m" "returned p"
    "x \<in> set (ancestors (spawned m) (parent m) h) \<Longrightarrow>
      \<exists>c \<in> set (h # ancestors (spawned m) (parent m) h). place m x = Awaiting c"
proof -
  show "place m h = Running" "h \<notin> set hs"
    using assms(1,2) by (auto simp: machine_inv_def inv_stack_def)
  show "h \<le> spawned m"
    using assms(2) inv_fresh_handle(4)[OF assms(1), of h] by (auto) (meson nat_le_linear)
  show "returned p"
    by (rule inv_running[OF assms(1,2)]) (use assms(3) in auto)
  show "\<exists>c \<in> set (h # ancestors (spawned m) (parent m) h). place m x = Awaiting c"
    if "x \<in> set (ancestors (spawned m) (parent m) h)"
    using ancestors_await[OF assms(1) _ that] assms(3) by simp
qed

lemma fail_inv_parent:
  assumes "machine_inv m" "active m = h # hs" "code m h = Fail # p"
  shows "inv_parent (destroy_all (ancestors (spawned m) (parent m) h) (m\<lparr>code := (code m)(h := p)\<rparr>))"
    (is "inv_parent (destroy_all ?as ?m1)")
  unfolding inv_parent_def destroy_all_fields[OF distinct_ancestors[OF assms(1)]]
proof (intro conjI allI impI)
  fix c b assume "parent ?m1 c = Some b"
  then show "b < c" using inv_parentD(1)[OF assms(1)] by simp
next
  note fr = failing_frames[OF assms]
  fix c b assume c: "parent ?m1 c = Some b \<and>
    \<not> returned (if c \<in> set ?as then map Release (tokens (code ?m1 c)) else code ?m1 c)"
  then have c': "c \<notin> set ?as" "c \<noteq> h" "\<not> returned (code m c)" "parent m c = Some b"
    using fr(4) by (auto split: if_splits)
  from inv_parentD(2)[OF assms(1) c'(4,3)] have b: "place m b = Awaiting c" .
  then have "b \<notin> set ?as"
    using fr(5)[of b] c'(1,2) by auto
  then show "(if b \<in> set ?as then Running else place ?m1 b) = Awaiting c"
    using b by simp
next
  note fr = failing_frames[OF assms]
  fix c b assume "(if b \<in> set ?as then Running else place ?m1 b) = Awaiting c"
  then have b: "b \<notin> set ?as" "place m b = Awaiting c"
    by (auto split: if_splits)
  note c = inv_parentD(3)[OF assms(1) b(2)]
  have "c \<notin> set (h # ?as)"
    using ancestors_closed[OF assms(1) fr(3), of c b] b(1) c by blast
  then show "parent ?m1 c = Some b"
      "\<not> returned (if c \<in> set ?as then map Release (tokens (code ?m1 c)) else code ?m1 c)"
    using c by auto
qed

lemma run_fail_inv:
  assumes "machine_inv m" "active m = h # hs" "code m h = Fail # p"
  shows "machine_inv (destroy_all (ancestors (spawned m) (parent m) h) (m\<lparr>code := (code m)(h := p)\<rparr>))"
    (is "machine_inv (destroy_all ?as ?m1)")
proof -
  note I = assms(1)[unfolded machine_inv_def]
  note run = failing_frames(1-3)[OF assms] and p = failing_frames(4)[OF assms]
    and aw = failing_frames(5)[OF assms]
  have off: "x \<noteq> h" "x \<notin> set hs" "x < spawned m" "place m x \<noteq> Queued n" if "x \<in> set ?as" for x n
    using aw[OF that] run(1) I assms(2) ancestors_less[OF assms(1) that] run(3)
    by (auto simp: inv_stack_def)
  note F = destroy_all_fields[OF distinct_ancestors[OF assms(1), of "spawned m" h], of ?m1]
  let ?m = "destroy_all ?as ?m1"
  have "inv_stack ?m"
    using I assms(2) run off distinct_ancestors[OF assms(1)] by (auto simp: inv_stack_def F)
  moreover have "inv_queue ?m"
    using I off by (auto simp: inv_queue_def F)
  moreover have "inv_code ?m"
    using I assms(2,3) run p off by (auto simp: inv_code_def inv_stack_def F split: place.splits)
  moreover have "inv_parent ?m"
    by (rule fail_inv_parent[OF assms])
  moreover have "inv_fresh ?m"
    using I run by (auto simp: inv_fresh_def F dest: off(3))
  moreover have "inv_mutex ?m"
    by (rule inv_mutex_cong[of m]) (use I assms(3) in \<open>auto simp: F\<close>)
  moreover have "inv_wake ?m"
    using I assms(2,3) by (auto simp: inv_wake_def F)
  ultimately show ?thesis by (simp add: machine_inv_def)
qed

lemma holds_token:
  assumes "machine_inv m" "code m h = Release n # p"
  shows "held (queues m n)"
proof -
  have "n \<in> set ((tokens \<circ> code m) h)"
    using assms(2) by simp
  then show ?thesis
    using assms(1) unfolding machine_inv_def inv_mutex_def exclusive_def comp_apply by blast
qed

text \<open>No step fails an assertion, and each keeps the invariant.\<close>

lemma run1_inv:
  assumes "machine_inv m"
  shows "\<exists>m'. run1 m = Ret m' \<and> machine_inv m'"
proof (cases "active m")
  case (Cons h hs)
  show ?thesis
  proof (cases "code m h")
    case Nil
    then show ?thesis
      using run_end_inv[OF assms Cons] Cons by (simp add: run1_def)
  next
    case (Cons i p)
    note c = this
    show ?thesis
    proof (cases i)
      case (Acquire n)
      then show ?thesis
        using run_acquire_inv[OF assms \<open>active m = _\<close>, of n p] run_wait_inv[OF assms \<open>active m = _\<close>, of n p]
          c \<open>active m = _\<close> by (auto simp: run1_def queue_defs)
    next
      case (Granted n)
      have "\<not> held (queues m n)"
        by (rule inv_running[OF assms \<open>active m = _\<close>]) (use c Granted in auto)
      then show ?thesis
        using run_acquire_inv[OF assms \<open>active m = _\<close>, of n p] c Granted \<open>active m = _\<close>
        by (auto simp: run1_def queue_defs)
    next
      case (Release n)
      have "held (queues m n)"
        using holds_token[OF assms] c Release by blast
      then show ?thesis
        using run_release_inv[OF assms \<open>active m = _\<close>, of n p _ "tl (queue (queues m n))"] c Release \<open>active m = _\<close>
        by (cases "queue (queues m n)"; cases m; cases "queues m n") (auto simp: run1_def queue_defs)
    next
      case Pause
      then show ?thesis
        using run_pause_inv[OF assms \<open>active m = _\<close>] c \<open>active m = _\<close> by (simp add: run1_def)
    next
      case (Call q)
      then show ?thesis
        using run_call_inv[OF assms \<open>active m = _\<close>] c \<open>active m = _\<close> by (simp add: run1_def)
    next
      case Return
      then show ?thesis
        using run_return_inv[OF assms \<open>active m = _\<close>] run_return_top_inv[OF assms \<open>active m = _\<close>]
          c \<open>active m = _\<close> by (cases "parent m h") (auto simp: run1_def)
    next
      case Fail
      then show ?thesis
        using run_fail_inv[OF assms \<open>active m = _\<close>] c \<open>active m = _\<close> by (simp add: run1_def)
    qed
  qed
qed (use assms in \<open>simp add: run1_def\<close>)

lemma reachable_inv: "reachable m \<Longrightarrow> machine_inv m"
  unfolding reachable_def
proof (induction rule: rtranclp_induct)
  case (step m m')
  from step(2,3) show ?case
  proof cases
    case step_run
    then show ?thesis
      using run1_inv[OF step(3)] by auto
  qed (use step(3) spawn_inv resume_inv in blast)+
qed (rule inv_initial)

section \<open>Termination\<close>

text \<open>How much there is left to do; awaiting coroutines may be resumed once more, hence the 2.\<close>

fun weight :: "instr \<Rightarrow> nat" where
  "weight (Acquire n) = 2"
| "weight (Granted n) = 1"
| "weight (Release n) = 2"
| "weight Pause = 1"
| "weight (Call q) = 1 + sum_list (map weight q)"
| "weight Return = 2"
| "weight Fail = 2"

definition weights :: "instr list \<Rightarrow> nat" where
  "weights p = sum_list (map weight p)"

definition work :: "machine \<Rightarrow> nat" where
  "work m = (\<Sum>h < spawned m. weights (code m h)) + length (active m)"

lemma weights_simps [simp]:
  "weights [] = 0" "weights (i # p) = weight i + weights p" "weights (map Release ts) = 2 * length ts"
  "weight (Call q) = 1 + weights q"
  by (induction ts) (auto simp: weights_def)

declare weight.simps(5) [simp del]

lemma wf_code_weights: "wf_code p \<Longrightarrow> 2 * length (tokens p) + 2 \<le> weights p"
proof (induction p rule: wf_code.induct)
  case (7 p)
  then have "weights p = weights (map Release (tokens p))"
    by (simp add: returned_def)
  then show ?case by (simp only: weights_simps weight.simps) simp
next
  case (8 p)
  then have "weights p = weights (map Release (tokens p))"
    by (simp add: returned_def)
  then show ?case by (simp only: weights_simps weight.simps) simp
qed auto

lemma sum_weights_upd:
  fixes k :: nat
  assumes "h < k"
  shows "(\<Sum>x < k. weights ((f(h := p)) x)) + weights (f h) = (\<Sum>x < k. weights (f x)) + weights p"
proof -
  have "(\<Sum>x < k. weights (g x)) = weights (g h) + (\<Sum>x \<in> {..<k} - {h}. weights (g x))" for g
    using assms sum.remove[of "{..<k}" h "\<lambda>x. weights (g x)"] by simp
  from this[of f] this[of "f(h := p)"] show ?thesis
    by (auto intro!: sum.cong)
qed

lemma work_destroy_all:
  assumes "distinct as" "\<forall>a \<in> set as. a < spawned m \<and> wf_code (code m a)"
  shows "work (destroy_all as m) \<le> work m"
  using assms
proof (induction as arbitrary: m)
  case (Cons a as)
  let ?m = "m\<lparr>code := (code m)(a := map Release (tokens (code m a))),
              place := (place m)(a := Running), active := a # active m\<rparr>"
  have "work (destroy_all as ?m) \<le> work ?m"
    by (rule Cons.IH) (use Cons.prems in auto)
  also have "\<dots> \<le> work m"
    using sum_weights_upd[of a "spawned m" "code m" "map Release (tokens (code m a))"]
      wf_code_weights[of "code m a"] Cons.prems(2) by (simp add: work_def)
  finally show ?case by simp
qed simp

lemma fail_work:
  assumes "machine_inv m" "h < spawned m" "code m h = Fail # p"
  shows "work (destroy_all (ancestors (spawned m) (parent m) h) (m\<lparr>code := (code m)(h := p)\<rparr>)) < work m"
    (is "work (destroy_all ?as ?m1) < _")
proof -
  have "a < spawned m \<and> wf_code (code ?m1 a)" if "a \<in> set ?as" for a
    using ancestors_less[OF assms(1) that] ancestors_await[OF assms(1) _ that] assms(2,3)
      wf_awaiting[OF assms(1), of a] by auto
  then have "work (destroy_all ?as ?m1) \<le> work ?m1"
    by (intro work_destroy_all distinct_ancestors assms(1)) simp
  also have "\<dots> < work m"
    using sum_weights_upd[OF assms(2), of "code m" p] assms(3) by (simp add: work_def)
  finally show ?thesis .
qed

lemma run1_work:
  assumes "machine_inv m" "active m = h # hs" "run1 m = Ret m'"
  shows "work m' < work m"
proof -
  have h: "h < spawned m"
    using assms(1,2) inv_fresh_handle(4)[OF assms(1), of h] by (auto simp: not_le[symmetric])
  note upd = sum_weights_upd[OF h, of "code m"]
  show ?thesis
  proof (cases "code m h")
    case Nil
    then show ?thesis
      using assms(2,3) by (auto simp: run1_def work_def)
  next
    case (Cons i p)
    note run = assms(3)[unfolded run1_def assms(2) list.case Cons]
    show ?thesis
    proof (cases i)
      case (Acquire n)
      then show ?thesis
        using run Cons upd[of p] upd[of "Granted n # p"] assms(2)
        by (auto simp: work_def queue_defs split: if_splits)
    next
      case (Granted n)
      then show ?thesis
        using run Cons upd[of p] assms(2) by (auto simp: work_def queue_defs split: if_splits)
    next
      case (Release n)
      then show ?thesis
        using run Cons upd[of p] assms(2)
        by (auto simp: work_def queue_defs split: if_splits list.splits)
    next
      case Pause
      then show ?thesis
        using run Cons upd[of p] assms(2) by (auto simp: work_def)
    next
      case (Call q)
      then show ?thesis
        using run Cons upd[of p] assms(2) h by (auto simp: work_def spawn_def)
    next
      case Return
      then show ?thesis
        using run Cons upd[of p] assms(2) by (auto simp: work_def Let_def split: option.splits)
    next
      case Fail
      then show ?thesis
        using fail_work[OF assms(1) h] run Cons by simp
    qed
  qed
qed

lemma run_to_idle:
  assumes "machine_inv m" "work m \<le> k"
  shows "\<exists>m'. run k m = Ret m' \<and> active m' = [] \<and> machine_inv m'"
  using assms
proof (induction k arbitrary: m)
  case 0
  then show ?case by (simp add: work_def)
next
  case (Suc k)
  obtain m1 where m1: "run1 m = Ret m1" "machine_inv m1"
    using run1_inv[OF Suc.prems(1)] by blast
  show ?case
  proof (cases "active m")
    case Nil
    have "run j m = Ret m" for j
      by (induction j) (simp_all add: run1_def Nil)
    then show ?thesis
      using Nil Suc.prems(1) by blast
  next
    case (Cons h hs)
    then show ?thesis
      using run1_work[OF Suc.prems(1) Cons m1(1)] Suc.IH[OF m1(2)] Suc.prems(2) m1(1) by auto
  qed
qed

section \<open>Deadlock\<close>

text \<open>A coroutine that holds a token and awaits a subtask which is queued for the same token.\<close>

definition stuck :: "nat \<Rightarrow> nat \<Rightarrow> string \<Rightarrow> machine \<Rightarrow> bool" where
  "stuck h c n m \<longleftrightarrow> place m h = Awaiting c \<and> place m c = Queued n \<and> n \<in> set (tokens (code m h))"

lemma stuck_frame:
  assumes "stuck h c n m" "place m' h = place m h" "place m' c = place m c" "code m' h = code m h"
  shows "stuck h c n m'"
  using assms by (simp add: stuck_def)

lemma stuck_release:
  assumes "machine_inv m" "stuck h c n m" "x \<noteq> h" "code m x = Release k # p" "queue (queues m k) = w # ws"
  shows "w \<noteq> h \<and> w \<noteq> c"
proof -
  note I = assms(1)[unfolded machine_inv_def] and S = assms(2)[unfolded stuck_def]
  have "n \<in> set (tokens (code m h))" "k \<in> set (tokens (code m x))"
    using assms(4) S by auto
  then have "k \<noteq> n"
    using I assms(3) unfolding inv_mutex_def exclusive_def comp_apply by blast
  moreover have "place m w = Queued k"
    using I assms(5) unfolding inv_queue_def by (metis list.set_intros(1))
  ultimately show ?thesis
    using S by auto
qed

lemma stuck_survives:
  assumes "machine_inv m" "stuck h c n m" "x \<noteq> c" "\<not> returned (code m x)"
  shows "h \<notin> set (ancestors (spawned m) (parent m) x)" "c \<notin> set (ancestors (spawned m) (parent m) x)"
proof -
  note S = assms(2)[unfolded stuck_def] and aw = ancestors_await[OF assms(1,4)]
  show c: "c \<notin> set (ancestors (spawned m) (parent m) x)"
    using aw[of c] S by auto
  show "h \<notin> set (ancestors (spawned m) (parent m) x)"
    using aw[of h] S assms(3) c by auto
qed

lemma stuck_run1:
  assumes "machine_inv m" "stuck h c n m" "active m = x # xs" "run1 m = Ret m'"
  shows "stuck h c n m'"
proof -
  note I = assms(1)[unfolded machine_inv_def]
  note S = assms(2)[unfolded stuck_def]
  have x: "place m x = Running"
    using I assms(3) by (auto simp: inv_stack_def)
  with S have x: "place m x = Running" "x \<noteq> h" "x \<noteq> c"
    by auto
  note new = inv_fresh_handle(3)[OF assms(1) order_refl]
  have top: "spawned m \<noteq> h" "spawned m \<noteq> c"
    using new S by auto
  show ?thesis
  proof (cases "code m x")
    case Nil
    then show ?thesis
      using assms(3,4) x by (intro stuck_frame[OF assms(2)]) (auto simp: run1_def)
  next
    case (Cons i p)
    note run = assms(4)[unfolded run1_def assms(3) list.case Cons]
    show ?thesis
    proof (cases i)
      case (Release k)
      have "w \<noteq> h" "w \<noteq> c" if "queue (queues m k) = w # ws" for w ws
        using stuck_release[OF assms(1,2) x(2) Cons[unfolded Release] that] by auto
      then show ?thesis
        using run x Release by (intro stuck_frame[OF assms(2)])
          (auto simp: queue_defs Let_def split: if_splits list.splits)
    next
      case Return
      have "a \<noteq> h" "a \<noteq> c" if "parent m x = Some a" for a
        using inv_parentD(2)[OF assms(1) that] Cons Return S x by auto
      then show ?thesis
        using run x Return by (intro stuck_frame[OF assms(2)]) (auto simp: Let_def split: option.splits)
    next
      case Fail
      then have "h \<notin> set (ancestors (spawned m) (parent m) x)" "c \<notin> set (ancestors (spawned m) (parent m) x)"
        using stuck_survives[OF assms(1,2) x(3)] Cons by auto
      then show ?thesis
        using run x Fail destroy_all_fields[OF distinct_ancestors[OF assms(1)]]
        by (intro stuck_frame[OF assms(2)]) auto
    qed (use run x top in \<open>intro stuck_frame[OF assms(2)];
        auto simp: queue_defs spawn_def split: if_splits\<close>)+
  qed
qed

lemma stuck_steps:
  assumes "machine_step\<^sup>*\<^sup>* m m'" "machine_inv m" "stuck h c n m"
  shows "machine_inv m' \<and> stuck h c n m'"
  using assms
proof (induction rule: rtranclp_induct)
  case (step y z)
  then have y: "machine_inv y" "stuck h c n y" by auto
  from step(2) show ?case
  proof cases
    case step_run
    then obtain x xs where "active y = x # xs"
      by (cases "active y") auto
    then show ?thesis
      using step_run stuck_run1[OF y] run1_inv[OF y(1)] by auto
  next
    case (step_spawn p)
    then show ?thesis
      using spawn_inv[OF y(1)] inv_fresh_handle(3)[OF y(1) order_refl] y(2)
      by (auto simp: stuck_def spawn_def)
  next
    case (step_resume x)
    then show ?thesis
      using resume_inv[OF y(1)] y(2) by (auto simp: stuck_def)
  qed
qed simp

section \<open>Properties\<close>

text \<open>
  C17: the assertions of the entity queue never fail: in every reachable state, whatever
  coroutines were started, resumed or destroyed in whatever order, the next step succeeds.
\<close>

theorem queue_assertions_hold:
  assumes "reachable m"
  shows "run1 m \<noteq> Abort"
  using run1_inv[OF reachable_inv[OF assms]] by auto

text \<open>
  C4: mutual exclusion. In every reachable state an entity's token is marked held exactly when one
  coroutine holds it, and no two coroutines hold it.
\<close>

theorem queue_mutual_exclusion:
  assumes "reachable m"
  shows "held (queues m n) = (\<exists>h. n \<in> set (tokens (code m h))) \<and>
    (\<forall>h h'. n \<in> set (tokens (code m h)) \<and> n \<in> set (tokens (code m h')) \<longrightarrow> h = h')"
  using reachable_inv[OF assms] unfolding machine_inv_def inv_mutex_def exclusive_def comp_apply by blast

text \<open>
  C13: no waiter is forgotten. When the daemon is back in its event loop, every coroutine that is not
  done waits for something that is going to come: a D-Bus event; a subtask that has not returned,
  and whose return resumes it; or an entity's token that is held by a coroutine, and then it stands
  in that entity's queue exactly once. The holder is another coroutine, or the waiting one itself if
  its code asks for a token that it already holds.
\<close>

theorem queue_no_lost_wakeup:
  assumes "reachable m" "active m = []" "code m h \<noteq> []"
  shows "place m h = Paused \<or>
    (\<exists>c. place m h = Awaiting c \<and> parent m c = Some h \<and> \<not> returned (code m c)) \<or>
    (\<exists>n k. place m h = Queued n \<and> h \<in> set (queue (queues m n)) \<and>
       distinct (queue (queues m n)) \<and> held (queues m n) \<and> n \<in> set (tokens (code m k)))"
proof -
  note inv = reachable_inv[OF assms(1)]
  note I = inv[unfolded machine_inv_def]
  show ?thesis
  proof (cases "place m h")
    case (Queued n)
    then have h: "h \<in> set (queue (queues m n))" "distinct (queue (queues m n))"
      using I by (auto simp: inv_queue_def)
    then have "queue (queues m n) \<noteq> []"
      by auto
    then have held: "held (queues m n)"
      using I assms(2) unfolding inv_wake_def by (metis list.distinct(1))
    then obtain k where "n \<in> set (tokens (code m k))"
      using I unfolding inv_mutex_def exclusive_def comp_apply by blast
    then show ?thesis
      using Queued h held by blast
  next
    case (Awaiting c)
    then show ?thesis
      using inv_parentD(3)[OF inv Awaiting] by simp
  next
    case Done
    then have "code m h = []"
      using I by (auto simp: inv_code_def split: place.splits dest: spec[of _ h])
    then show ?thesis using assms(3) by simp
  qed (use I assms(2) in \<open>auto simp: inv_stack_def\<close>)
qed

text \<open>
  C25: control always returns to the event loop: from every reachable state a bounded number of
  steps suspends or ends every running coroutine, however deeply they resume each other.
\<close>

theorem queue_returns_to_event_loop:
  assumes "reachable m"
  shows "\<exists>m'. run (work m) m = Ret m' \<and> active m' = []"
  using run_to_idle[OF reachable_inv[OF assms] order_refl] by blast

text \<open>
  C37: first come, first served: coroutines that queue up for a taken token get it in exactly that
  order, one per token given back.
\<close>

theorem queue_first_come_first_served:
  assumes "held q" "queue q = []"
  shows "\<exists>q1 q2. eq.wait_all hs q = Ret q1 \<and> eq.hand_on (length hs) q1 = Ret (map Some hs, q2) \<and>
    queue q2 = []"
  by (rule eq.served_in_order) (use assms in \<open>auto simp: await_ready_def\<close>)

theorem queue_first_come_first_served_witness:
  "\<exists>q1 q2. eq.wait_all [3, 1, 2] \<lparr>held = True, queue = []\<rparr> = Ret q1 \<and>
     eq.hand_on 3 q1 = Ret ([Some 3, Some 1, Some 2], q2) \<and> queue q2 = []"
  using queue_first_come_first_served[of "\<lparr>held = True, queue = []\<rparr>" "[3, 1, 2]"]
  by (simp add: numeral_eq_Suc)

text \<open>
  A coroutine that holds an entity's token and awaits a subtask which is queued for the same
  token never goes on, whatever else happens. This is how starting an entity that is its own uplink
  ends, directly or over several entities: \<open>start\<close> takes the token and awaits \<open>start\<close> of the uplink.
\<close>

theorem queue_self_wait_deadlocks:
  assumes "reachable m" "place m h = Awaiting c" "place m c = Queued n"
    and "n \<in> set (tokens (code m h))" "machine_step\<^sup>*\<^sup>* m m'"
  shows "place m' h = Awaiting c \<and> place m' c = Queued n"
  using stuck_steps[OF assms(5) reachable_inv[OF assms(1)]] assms(2,3,4) by (auto simp: stuck_def)

text \<open>
  The scenario of \<open>unit-tests/entity-queue.cpp\<close> around one entity: a coroutine holds the token
  of \<open>ent2\<close> while a second one asks for it; the first one then gives it back.
\<close>

definition holder_code :: "instr list" where
  "holder_code = [Acquire ''ent2'', Pause, Release ''ent2'', Return]"

definition task_code :: "instr list" where
  "task_code = [Acquire ''ent2'', Release ''ent2'', Pause, Return]"

definition two_tasks :: "machine res" where
  "two_tasks =
     bind_res (run 20 (spawn None holder_code initial_machine))
       (\<lambda>m. run 20 (spawn None task_code m))"

lemma reachable_step: "reachable m \<Longrightarrow> machine_step m m' \<Longrightarrow> reachable m'"
  unfolding reachable_def by (rule rtranclp.rtrancl_into_rtrancl)

lemma run_reachable: "reachable m \<Longrightarrow> run k m = Ret m' \<Longrightarrow> reachable m'"
proof (induction k arbitrary: m)
  case (Suc k)
  then obtain m1 where m1: "run1 m = Ret m1" "run k m1 = Ret m'"
    by auto
  have "reachable m1"
  proof (cases "active m = []")
    case True
    then show ?thesis
      using Suc.prems(1) m1(1) by (simp add: run1_def)
  next
    case False
    then show ?thesis
      using reachable_step[OF Suc.prems(1) step_run] m1(1) by blast
  qed
  then show ?case
    using Suc.IH m1(2) by blast
qed simp

lemma spawn_reachable:
  "reachable m \<Longrightarrow> active m = [] \<Longrightarrow> wf_code p \<Longrightarrow> tokens p = [] \<Longrightarrow> reachable (spawn None p m)"
  by (rule reachable_step[OF _ step_spawn])

lemma two_tasks_reachable:
  obtains m where "two_tasks = Ret m" "reachable m" "active m = []" "held (queues m ''ent2'')"
    "place m 1 = Queued ''ent2''" "code m 1 \<noteq> []"
proof -
  have "reachable initial_machine"
    by (simp add: reachable_def)
  then have r1: "reachable (spawn None holder_code initial_machine)"
    by (rule spawn_reachable) (simp_all add: initial_machine_def holder_code_def)
  have "case run 20 (spawn None holder_code initial_machine) of Ret m \<Rightarrow> active m = [] | _ \<Rightarrow> False"
    by code_simp
  then obtain m1 where m1: "run 20 (spawn None holder_code initial_machine) = Ret m1" "active m1 = []"
    by (auto split: res.splits)
  have "reachable (spawn None task_code m1)"
    by (rule spawn_reachable[OF run_reachable[OF r1 m1(1)] m1(2)]) (simp_all add: task_code_def)
  then have r: "two_tasks = Ret m \<Longrightarrow> reachable m" for m
    using run_reachable by (auto simp: two_tasks_def m1)
  have "case two_tasks of Ret m \<Rightarrow> active m = [] \<and> held (queues m ''ent2'') \<and>
      place m 1 = Queued ''ent2'' \<and> code m 1 \<noteq> [] | _ \<Rightarrow> False"
    by code_simp
  then show thesis
    using that r by (auto split: res.splits)
qed

theorem queue_assertions_hold_witness:
  "\<exists>m. two_tasks = Ret m \<and> run1 m \<noteq> Abort"
  using two_tasks_reachable queue_assertions_hold by metis

theorem queue_mutual_exclusion_witness:
  "\<exists>m h. two_tasks = Ret m \<and> held (queues m ''ent2'') \<and> ''ent2'' \<in> set (tokens (code m h))"
proof -
  obtain m where m: "two_tasks = Ret m" "reachable m" "held (queues m ''ent2'')"
    by (rule two_tasks_reachable)
  then show ?thesis
    using queue_mutual_exclusion[OF m(2), of "''ent2''"] by blast
qed

theorem queue_no_lost_wakeup_witness:
  "\<exists>m k. two_tasks = Ret m \<and> 1 \<in> set (queue (queues m ''ent2'')) \<and>
     ''ent2'' \<in> set (tokens (code m k))"
proof -
  obtain m where m: "two_tasks = Ret m" "reachable m" "active m = []" "place m 1 = Queued ''ent2''"
      "code m 1 \<noteq> []"
    by (rule two_tasks_reachable)
  then show ?thesis
    using queue_no_lost_wakeup[OF m(2,3,5)] by auto
qed

text \<open>After the reply that the holder waits for, both are done with the entity.\<close>

theorem queue_returns_to_event_loop_witness:
  "\<exists>m m'. two_tasks = Ret m \<and>
     run (work (m\<lparr>place := (place m)(0 := Running), active := [0]\<rparr>))
       (m\<lparr>place := (place m)(0 := Running), active := [0]\<rparr>) = Ret m' \<and> active m' = []"
proof -
  obtain m where m: "two_tasks = Ret m" "reachable m" "active m = []"
    by (rule two_tasks_reachable)
  have "case two_tasks of Ret m \<Rightarrow> place m 0 = Paused | _ \<Rightarrow> False"
    by code_simp
  then have "place m 0 = Paused"
    unfolding m(1) res.case .
  then have "reachable (m\<lparr>place := (place m)(0 := Running), active := [0]\<rparr>)"
    by (rule reachable_step[OF m(2) step_resume[OF m(3)]])
  from queue_returns_to_event_loop[OF this] m(1) show ?thesis by blast
qed

definition self_uplink_code :: "instr list" where
  "self_uplink_code =
     [Acquire ''ent'', Call [Acquire ''ent'', Return, Release ''ent''], Pause, Return, Release ''ent'']"

theorem queue_self_wait_deadlocks_witness:
  "\<exists>m. run 20 (spawn None self_uplink_code initial_machine) = Ret m \<and> active m = [] \<and>
     (\<forall>m'. machine_step\<^sup>*\<^sup>* m m' \<longrightarrow> place m' 0 = Awaiting 1 \<and> place m' 1 = Queued ''ent'')"
proof -
  let ?run = "run 20 (spawn None self_uplink_code initial_machine)"
  have "case ?run of Ret m \<Rightarrow> active m = [] \<and> place m 0 = Awaiting 1 \<and> place m 1 = Queued ''ent'' \<and>
      ''ent'' \<in> set (tokens (code m 0)) | _ \<Rightarrow> False"
    by code_simp
  then obtain m where m: "?run = Ret m" "active m = []" "place m 0 = Awaiting 1"
      "place m 1 = Queued ''ent''" "''ent'' \<in> set (tokens (code m 0))"
    by (auto split: res.splits)
  have "reachable initial_machine"
    by (simp add: reachable_def)
  then have "reachable (spawn None self_uplink_code initial_machine)"
    by (rule spawn_reachable) (simp_all add: initial_machine_def self_uplink_code_def)
  from queue_self_wait_deadlocks[OF run_reachable[OF this m(1)] m(3-5)] show ?thesis
    using m(1,2) by blast
qed

end
