(* ===== verification/Lock_Order.thy ===== *)
theory Lock_Order
  imports Entity_Queue_Properties
begin

text \<open>
  Deadlock freedom of the coroutine machine. A coroutine that waits for the token of an entity while
  it, or a coroutine that awaits it, holds other tokens is harmless as long as tokens are taken in one
  order. The order is given by a rank of the entities; a run respects it (\<open>ordered\<close>) if it asks for a
  token only below all tokens that are held then. Whatever such runs are started, and in whatever order
  D-Bus delivers its events, all of them finish.
\<close>

section \<open>Runs that take tokens in order\<close>

text \<open>\<open>T\<close> are the tokens held by the coroutines that await this one.\<close>

fun ordered :: "(string \<Rightarrow> nat) \<Rightarrow> string list \<Rightarrow> instr list \<Rightarrow> bool" where
  "ordered r T [] \<longleftrightarrow> True"
| "ordered r T (Acquire n # p) \<longleftrightarrow> (\<forall>k \<in> set (T @ tl (tokens p)). r n < r k) \<and> ordered r T p"
| "ordered r T (Granted n # p) \<longleftrightarrow> (\<forall>k \<in> set (T @ tl (tokens p)). r n < r k) \<and> ordered r T p"
| "ordered r T (Call q # p) \<longleftrightarrow> ordered r (T @ tokens p) q \<and> ordered r T p"
| "ordered r T (_ # p) \<longleftrightarrow> ordered r T p"

lemma ordered_releases [simp]: "ordered r T (map Release ts)"
  by (induction ts) auto

definition inv_ordered :: "(string \<Rightarrow> nat) \<Rightarrow> machine \<Rightarrow> bool" where
  "inv_ordered r m \<longleftrightarrow>
     (\<exists>T. (\<forall>h. ordered r (T h) (code m h)) \<and>
       (\<forall>a c. place m a = Awaiting c \<longrightarrow> set (T a) \<union> set (tokens (code m a)) \<subseteq> set (T c)))"

lemma inv_ordered_frame:
  assumes "inv_ordered r m" "\<And>x T. ordered r T (code m x) \<Longrightarrow> ordered r T (code m' x)"
    and "\<And>a c. place m' a = Awaiting c \<Longrightarrow> place m a = Awaiting c \<and> code m' a = code m a"
  shows "inv_ordered r m'"
  using assms unfolding inv_ordered_def by metis

lemma spawn_ordered:
  assumes "machine_inv m" "inv_ordered r m" "ordered r [] p"
  shows "inv_ordered r (spawn None p m)"
proof -
  obtain T where T: "\<And>h. ordered r (T h) (code m h)"
      "\<And>a c. place m a = Awaiting c \<Longrightarrow> set (T a) \<union> set (tokens (code m a)) \<subseteq> set (T c)"
    using assms(2) unfolding inv_ordered_def by blast
  have "place m a \<noteq> Awaiting (spawned m)" for a
    using inv_parentD(3)[OF assms(1), of a] inv_fresh_handle(2)[OF assms(1) order_refl] by auto
  then show ?thesis
    unfolding inv_ordered_def
    by (intro exI[of _ "T(spawned m := [])"]) (use T assms(3) in \<open>auto simp: spawn_def\<close>)
qed

lemma resume_ordered: "inv_ordered r m \<Longrightarrow> inv_ordered r (m\<lparr>place := (place m)(h := Running), active := hs\<rparr>)"
  by (rule inv_ordered_frame) (auto split: if_splits)

lemma call_ordered:
  assumes "machine_inv m" "inv_ordered r m" "active m = h # hs" "code m h = Call q # p"
  shows "inv_ordered r (spawn (Some h) q (m\<lparr>code := (code m)(h := p),
    place := (place m)(h := Awaiting (spawned m)), active := hs\<rparr>))"
proof -
  obtain T where T: "\<And>x. ordered r (T x) (code m x)"
      "\<And>a c. place m a = Awaiting c \<Longrightarrow> set (T a) \<union> set (tokens (code m a)) \<subseteq> set (T c)"
    using assms(2) unfolding inv_ordered_def by blast
  have h: "h \<noteq> spawned m" "place m h = Running"
    using assms(1,3) inv_fresh_handle(4)[OF assms(1) order_refl]
    by (auto simp: machine_inv_def inv_stack_def)
  have c: "place m a \<noteq> Awaiting (spawned m)" for a
    using inv_parentD(3)[OF assms(1), of a] inv_fresh_handle(2)[OF assms(1) order_refl] by auto
  show ?thesis
    unfolding inv_ordered_def
    by (intro exI[of _ "T(spawned m := T h @ tokens p)"])
      (use T c h T(1)[of h] assms(4) in \<open>auto simp: spawn_def\<close>)
qed

lemma run1_ordered:
  assumes "machine_inv m" "inv_ordered r m" "active m = h # hs" "run1 m = Ret m'"
  shows "inv_ordered r m'"
proof -
  have h: "place m h = Running"
    using assms(1,3) by (auto simp: machine_inv_def inv_stack_def)
  show ?thesis
  proof (cases "code m h")
    case Nil
    then show ?thesis
      using assms(3,4) h by (intro inv_ordered_frame[OF assms(2)]) (auto simp: run1_def split: if_splits)
  next
    case (Cons i p)
    note run = assms(4)[unfolded run1_def assms(3) list.case Cons]
    show ?thesis
    proof (cases i)
      case (Call q)
      then show ?thesis
        using run call_ordered[OF assms(1-3)] Cons by simp
    next
      case (Release k)
      then show ?thesis
        using run h Cons by (intro inv_ordered_frame[OF assms(2)])
          (auto simp: queue_defs Let_def split: if_splits list.splits)
    next
      case Return
      then show ?thesis
        using run h Cons by (intro inv_ordered_frame[OF assms(2)])
          (auto simp: Let_def split: if_splits option.splits)
    next
      case Fail
      then show ?thesis
        using run h Cons destroy_all_fields[OF distinct_ancestors[OF assms(1)]]
        by (intro inv_ordered_frame[OF assms(2)]) (auto split: if_splits)
    qed (use run h Cons in \<open>intro inv_ordered_frame[OF assms(2)]; auto simp: queue_defs split: if_splits\<close>)+
  qed
qed

section \<open>Reaching a state by given runs\<close>

text \<open>The states of the daemon when each method call that starts a coroutine is one of the runs \<open>P\<close>.\<close>

inductive reaches :: "(instr list \<Rightarrow> bool) \<Rightarrow> machine \<Rightarrow> bool" for P where
  reaches_boot: "reaches P initial_machine"
| reaches_run: "reaches P m \<Longrightarrow> active m \<noteq> [] \<Longrightarrow> run1 m = Ret m' \<Longrightarrow> reaches P m'"
| reaches_call: "reaches P m \<Longrightarrow> active m = [] \<Longrightarrow> P p \<Longrightarrow> wf_code p \<Longrightarrow> tokens p = [] \<Longrightarrow>
    reaches P (spawn None p m)"
| reaches_event: "reaches P m \<Longrightarrow> active m = [] \<Longrightarrow> place m h = Paused \<Longrightarrow>
    reaches P (m\<lparr>place := (place m)(h := Running), active := [h]\<rparr>)"

lemma reaches_reachable: "reaches P m \<Longrightarrow> reachable m"
proof (induction rule: reaches.induct)
  case reaches_boot
  then show ?case by (simp add: reachable_def)
qed (use reachable_step machine_step.intros in blast)+

lemma reaches_mono: "reaches P m \<Longrightarrow> (\<And>p. P p \<Longrightarrow> Q p) \<Longrightarrow> reaches Q m"
  by (induction rule: reaches.induct) (auto intro: reaches.intros)

lemma reaches_inv: "reaches P m \<Longrightarrow> machine_inv m"
  by (rule reachable_inv[OF reaches_reachable])

lemma reaches_ordered:
  assumes "reaches P m" "\<And>p. P p \<Longrightarrow> ordered r [] p"
  shows "inv_ordered r m"
  using assms(1)
proof (induction rule: reaches.induct)
  case reaches_boot
  then show ?case
    by (auto simp: inv_ordered_def initial_machine_def)
next
  case (reaches_run m m')
  then obtain h hs where "active m = h # hs"
    by (cases "active m") auto
  then show ?case
    using run1_ordered[OF reaches_inv[OF reaches_run(1)] reaches_run.IH _ reaches_run(3)] by blast
next
  case (reaches_call m p)
  then show ?case
    using spawn_ordered[OF reaches_inv[OF reaches_call(1)]] assms(2) by blast
next
  case (reaches_event m h)
  then show ?case
    by (intro resume_ordered)
qed

lemma run_reaches: "reaches P m \<Longrightarrow> run k m = Ret m' \<Longrightarrow> reaches P m'"
proof (induction k arbitrary: m)
  case (Suc k)
  then obtain m1 where m1: "run1 m = Ret m1" "run k m1 = Ret m'"
    by auto
  have "reaches P m1"
  proof (cases "active m = []")
    case True
    then show ?thesis
      using Suc.prems(1) m1(1) by (simp add: run1_def)
  qed (rule reaches_run[OF Suc.prems(1) _ m1(1)])
  then show ?case
    using Suc.IH m1(2) by blast
qed simp

section \<open>No deadlock\<close>

text \<open>What an unfinished coroutine waits for when the daemon is in its event loop.\<close>

lemma idle_place:
  assumes "machine_inv m" "active m = []" "code m h \<noteq> []"
  obtains (event) "place m h = Paused"
    | (subtask) c where "place m h = Awaiting c" "h < c" "c < spawned m" "code m c \<noteq> []"
    | (token) n p k where "place m h = Queued n" "code m h = Granted n # p" "n \<in> set (tokens (code m k))"
proof -
  note I = assms(1)[unfolded machine_inv_def]
  show thesis
  proof (cases "place m h")
    case (Queued n)
    then have "h \<in> set (queue (queues m n))" and w: "waits_for n (code m h)"
      using I by (auto simp: inv_queue_def inv_code_def split: place.splits dest: spec[of _ h])
    then have "queue (queues m n) \<noteq> []"
      by auto
    then have "held (queues m n)"
      using I assms(2) unfolding inv_wake_def by (metis list.distinct(1))
    then obtain k where "n \<in> set (tokens (code m k))"
      using I unfolding inv_mutex_def exclusive_def comp_apply by blast
    then show thesis
      using token Queued w by (auto simp: waits_for_def)
  next
    case (Awaiting c)
    note c = inv_parentD(3)[OF assms(1) Awaiting]
    then have "h < c" "c < spawned m" "code m c \<noteq> []"
      using inv_parentD(1)[OF assms(1)] inv_fresh_handle(2)[OF assms(1), of c] by (auto simp: not_le[symmetric])
    then show thesis
      using subtask Awaiting by blast
  next
    case Done
    then have "code m h = []"
      using I by (auto simp: inv_code_def split: place.splits dest: spec[of _ h])
    then show thesis using assms(3) by simp
  next
    case Running
    then show thesis
      using I assms(2) by (auto simp: inv_stack_def)
  qed (rule event)
qed

text \<open>Following the subtasks of a coroutine ends at one that waits for an event or for a token; a
  token it waits for ranks below all tokens on the way.\<close>

lemma awaited_leaf:
  assumes "machine_inv m" "inv_ordered r m" "active m = []" "code m h \<noteq> []"
  shows "(\<exists>d. place m d = Paused) \<or>
    (\<exists>d n. place m d = Queued n \<and> (\<forall>k \<in> set (tokens (code m h)). r n < r k))"
proof -
  obtain T where T: "\<And>h. ordered r (T h) (code m h)"
      "\<And>a c. place m a = Awaiting c \<Longrightarrow> set (T a) \<union> set (tokens (code m a)) \<subseteq> set (T c)"
    using assms(2) unfolding inv_ordered_def by blast
  have "(\<exists>d. place m d = Paused) \<or>
    (\<exists>d n. place m d = Queued n \<and> (\<forall>k \<in> set (T h) \<union> set (tokens (code m h)). r n < r k))"
    using assms(4)
  proof (induction "spawned m - h" arbitrary: h rule: less_induct)
    case less
    from assms(1,3) less.prems show ?case
    proof (cases rule: idle_place)
      case event
      then show ?thesis by blast
    next
      case (subtask c)
      then show ?thesis
        using less.hyps[of c] T(2)[OF subtask(1)] by (meson UnCI diff_less_mono2 less_trans subsetD)
    next
      case (token n p k)
      then show ?thesis
        using T(1)[of h] by (intro disjI2 exI[of _ h] exI[of _ n]) auto
    qed
  qed
  then show ?thesis by blast
qed

lemma no_deadlock:
  assumes "machine_inv m" "inv_ordered r m" "active m = []" "code m h \<noteq> []"
  shows "\<exists>d. place m d = Paused"
proof (rule ccontr)
  assume none: "\<not> ?thesis"
  have False if "place m d = Queued n" for d n
    using that
  proof (induction "r n" arbitrary: d n rule: less_induct)
    case less
    have "code m d \<noteq> []"
      using assms(1) less.prems
      by (auto simp: machine_inv_def inv_code_def split: place.splits dest: spec[of _ d])
    then obtain k where k: "n \<in> set (tokens (code m k))"
      using idle_place[OF assms(1,3)] less.prems by (metis place.distinct(9,11) place.inject(1))
    then have "code m k \<noteq> []"
      by auto
    then obtain d' n' where "place m d' = Queued n'" "r n' < r n"
      using awaited_leaf[OF assms(1-3)] none k by blast
    then show False
      using less.hyps by blast
  qed
  then show False
    using awaited_leaf[OF assms] none by blast
qed
section \<open>All runs finish\<close>

definition paused :: "machine \<Rightarrow> nat list" where
  "paused m = filter (\<lambda>h. place m h = Paused) [0..<spawned m]"

text \<open>D-Bus delivers the reply or signal that \<open>h\<close> waits for.\<close>

definition deliver :: "nat \<Rightarrow> machine \<Rightarrow> machine" where
  "deliver h m = m\<lparr>place := (place m)(h := Running), active := [h]\<rparr>"

text \<open>The event loop, when no further calls come in: as long as a coroutine waits for an event one is
  delivered, in the order \<open>pick\<close> (that of D-Bus), and the coroutines run until all are suspended.\<close>

fun drain :: "(machine \<Rightarrow> nat) \<Rightarrow> nat \<Rightarrow> machine \<Rightarrow> machine res" where
  "drain pick 0 m = Ret m"
| "drain pick (Suc k) m =
     (if paused m = [] then Ret m
      else let m1 = deliver (pick m) m in bind_res (run (work m1) m1) (drain pick k))"

lemma set_paused: "machine_inv m \<Longrightarrow> set (paused m) = {h. place m h = Paused}"
  using inv_fresh_handle(3)[of m] by (force simp: paused_def not_less[symmetric])

lemma deliver_inv:
  "machine_inv m \<Longrightarrow> active m = [] \<Longrightarrow> place m h = Paused \<Longrightarrow> machine_inv (deliver h m)"
  unfolding deliver_def by (rule resume_inv)

lemma weight_pos: "weight i \<noteq> 0"
  by (cases i) auto

lemma run_work:
  "machine_inv m \<Longrightarrow> run k m = Ret m' \<Longrightarrow> work m' \<le> work m \<and> (active m \<noteq> [] \<and> 0 < k \<longrightarrow> work m' < work m)"
proof (induction k arbitrary: m)
  case (Suc k)
  then obtain m1 where m1: "run1 m = Ret m1" "machine_inv m1" "run k m1 = Ret m'"
    using run1_inv[OF Suc.prems(1)] by auto
  then show ?case
    using Suc.IH[OF m1(2,3)] run1_work[OF Suc.prems(1) _ m1(1)]
    by (cases "active m") (fastforce simp: run1_def)+
qed simp

lemma work_code:
  assumes "machine_inv m" "active m = h # hs"
  shows "work (m\<lparr>code := (code m)(h := p), active := as\<rparr>) + weights (code m h) + Suc (length hs) =
    work m + weights p + length as"
proof -
  have "h < spawned m"
    using assms inv_fresh_handle(4)[OF assms(1), of h] by (auto simp: not_le[symmetric])
  then show ?thesis
    using sum_weights_upd[of h "spawned m" "code m" p] assms(2) by (simp add: work_def)
qed

text \<open>A step of a coroutine that suspends it at once has used up a unit of work of its own.\<close>

lemma suspending_step:
  assumes "machine_inv m" "active m = [h]" "wf_code (code m h)" "run1 m = Ret m'" "active m' = []"
  shows "work m' + 2 \<le> work m"
proof (cases "code m h")
  case Nil
  then show ?thesis using assms(3) by simp
next
  case (Cons i p)
  note run = assms(4)[unfolded run1_def assms(2) list.case Cons]
  have work: "work m' = work (m\<lparr>code := (code m)(h := code m' h), active := []\<rparr>)"
    if "spawned m' = spawned m" "\<And>x. x \<noteq> h \<Longrightarrow> code m' x = code m x"
    using that assms(5) by (auto simp: work_def fun_upd_def intro!: sum.cong arg_cong[of _ _ weights])
  note w = work_code[OF assms(1,2), of "[]" "code m' h"]
  show ?thesis
  proof (cases i)
    case (Acquire n)
    then show ?thesis
      using run work w Cons assms(5) assms(2) by (auto simp: queue_defs split: if_splits)
  next
    case Pause
    then show ?thesis
      using run work w Cons by auto
  next
    case Fail
    then show ?thesis
      using run assms(2,5) destroy_all_fields(3)[OF distinct_ancestors[OF assms(1)]] by auto
  next
    case (Granted n)
    then show ?thesis using assms(3) Cons by simp
  next
    case (Release n)
    then show ?thesis
      using run assms(2,5) by (auto simp: token_destroy_def Let_def split: if_splits list.splits)
  next
    case (Call q)
    then show ?thesis using run assms(5) by (auto simp: spawn_def)
  next
    case Return
    then show ?thesis using run assms(2,5) by (auto simp: Let_def split: option.splits)
  qed
qed

lemma deliver_work:
  assumes "machine_inv m" "active m = []" "place m h = Paused" "run (work (deliver h m)) (deliver h m) = Ret m'"
  shows "work m' < work m"
proof -
  let ?m = "deliver h m"
  note inv = deliver_inv[OF assms(1-3)]
  have m: "work ?m = Suc (work m)" "active ?m = [h]" "code ?m h = code m h"
    using assms(2) by (simp_all add: deliver_def work_def)
  have wf: "wf_code (code ?m h)"
    using assms(1,3) m(3) by (auto simp: machine_inv_def inv_code_def split: place.splits dest: spec[of _ h])
  obtain m1 where m1: "run1 ?m = Ret m1" "machine_inv m1" "run (work m) m1 = Ret m'"
    using run1_inv[OF inv] assms(4) m(1) by auto
  have lt: "work m1 \<le> work m"
    using run1_work[OF inv m(2) m1(1)] m(1) by simp
  show ?thesis
  proof (cases "active m1 = []")
    case True
    then show ?thesis
      using suspending_step[OF inv m(2) wf m1(1) True] run_work[OF m1(2,3)] m(1) by simp
  next
    case False
    then have "0 < work m"
      using lt by (auto simp: work_def)
    then show ?thesis
      using run_work[OF m1(2,3)] lt False by auto
  qed
qed

text \<open>When nothing is left to do, all tokens are back.\<close>

lemma no_work_left:
  assumes "machine_inv m" "work m = 0"
  shows "code m h = []"
proof (rule ccontr)
  assume h: "code m h \<noteq> []"
  then have "h < spawned m"
    using inv_fresh_handle(1)[OF assms(1), of h] by (auto simp: not_le[symmetric])
  moreover have "weights (code m h) \<noteq> 0"
    using h weight_pos by (cases "code m h") auto
  ultimately show False
    using assms(2) by (auto simp: work_def)
qed

lemma finished_free:
  assumes "machine_inv m" "active m = []" "\<And>h. code m h = []"
  shows "queues m n = empty_queue"
proof -
  note I = assms(1)[unfolded machine_inv_def]
  have "\<not> held (queues m n)"
    using I assms(3) unfolding inv_mutex_def exclusive_def comp_apply by auto
  moreover have "queue (queues m n) = []"
  proof (rule ccontr)
    assume "queue (queues m n) \<noteq> []"
    then obtain h where "place m h = Queued n"
      using I unfolding inv_queue_def by (meson last_in_set)
    then show False
      using I assms(3) by (auto simp: inv_code_def split: place.splits dest!: spec[of _ h])
  qed
  ultimately show ?thesis
    by (cases "queues m n") (simp add: empty_queue_def)
qed

lemma drain_finishes:
  assumes "\<And>p. P p \<Longrightarrow> ordered r [] p" "\<And>m. paused m \<noteq> [] \<Longrightarrow> pick m \<in> set (paused m)"
    and "reaches P m" "active m = []" "work m \<le> k"
  shows "\<exists>m'. drain pick k m = Ret m' \<and> active m' = [] \<and> (\<forall>h. code m' h = []) \<and> (\<forall>n. queues m' n = empty_queue)"
  using assms(3-)
proof (induction k arbitrary: m)
  case 0
  note inv = reaches_inv[OF "0.prems"(1)]
  have "code m h = []" for h
    using no_work_left[OF inv] "0.prems"(3) by simp
  then show ?case
    using finished_free[OF inv "0.prems"(2)] "0.prems"(2) by simp
next
  case (Suc k)
  note inv = reaches_inv[OF Suc.prems(1)]
  show ?case
  proof (cases "paused m = []")
    case True
    then have "place m d \<noteq> Paused" for d
      using set_paused[OF inv] by auto
    then have "code m h = []" for h
      using no_deadlock[OF inv reaches_ordered[OF Suc.prems(1) assms(1)] Suc.prems(2)] by blast
    then show ?thesis
      using finished_free[OF inv Suc.prems(2)] True Suc.prems(2) by simp
  next
    case False
    then have pick: "place m (pick m) = Paused"
      using assms(2) set_paused[OF inv] by auto
    let ?m = "deliver (pick m) m"
    have r: "reaches P ?m"
      unfolding deliver_def by (rule reaches_event[OF Suc.prems(1,2) pick])
    obtain m1 where m1: "run (work ?m) ?m = Ret m1" "active m1 = []"
      using run_to_idle[OF reaches_inv[OF r] order_refl] by blast
    have "work m1 \<le> k"
      using deliver_work[OF inv Suc.prems(2) pick m1(1)] Suc.prems(3) by simp
    then show ?thesis
      using Suc.IH[OF run_reaches[OF r m1(1)] m1(2)] False m1(1) by (simp add: Let_def)
  qed
qed

end
