(* ===== verification/Entity_Start.thy ===== *)
theory Entity_Start
  imports Config_Add Async
begin

text \<open>
  \<open>entity::start\<close> and \<open>entity::stop\<close> (\<open>daemon/entity.cpp\<close>), and the controller that calls them
  (\<open>daemon/controller.cpp\<close>). A coroutine that holds the entity's token runs through its body; each
  call into the system, the bus or systemd is an effect, and what it answers is an argument
  (\<open>env\<close>), which may depend on all effects before. An error that a coroutine returns ends the
  coroutines that await it as well, so it is passed on like an exception.
\<close>

section \<open>Effects\<close>

datatype effect =
    SocketPair
  | Fork string
  | BusNew
  | BusSetFd
  | BusSetClient
  | RegisterBus string
  | BusStart
  | BusIsOpen
  | BusIsReady
  | BusProcess
  | SubscribeJobRemoved
  | StartTransientUnit string "(string \<times> int) option"
  | AwaitJob string
  | AddComponentCall string string json
  | ShutdownCall string
  | WaitPid int
  | UnregisterBus string
  | StopUnit string
  | AwaitUnit string

text \<open>
  An answer: the status of the call (\<open>-errno\<close> for \<open>socketpair\<close> and \<open>fork\<close>); for a D-Bus call the error the peer replied with, if any; the
  status of reading the reply or signal, and the string or boolean read from it.
\<close>

record response =
  status :: int
  failure :: "(int \<times> string \<times> string) option"
  reading :: int
  answer :: string
  flag :: bool

type_synonym system = "effect list \<Rightarrow> effect \<Rightarrow> response"

text \<open>\<open>_live_entities\<close> maps a name to the process of its entity daemon; \<open>held\<close> are the entities whose
  token this chain of coroutines holds.\<close>

record world =
  conf :: config
  live :: "(string \<times> int) list"
  held :: "string list"
  effects :: "effect list"

text \<open>A coroutine goes on with a value, returns an error, or the process dies; \<open>None\<close> when it never
  gets that far.\<close>

datatype 'a co = Next 'a | Stop co_result | Died

type_synonym 'a cm = "world \<Rightarrow> ('a co \<times> world) option"

definition ret_cm :: "'a \<Rightarrow> 'a cm" where
  "ret_cm x w = Some (Next x, w)"

definition stop_cm :: "co_result \<Rightarrow> 'a cm" where
  "stop_cm r w = Some (Stop r, w)"

definition die_cm :: "'a cm" where
  "die_cm w = Some (Died, w)"

definition bind_cm :: "'a cm \<Rightarrow> ('a \<Rightarrow> 'b cm) \<Rightarrow> 'b cm" where
  "bind_cm m f w =
     (case m w of
        None \<Rightarrow> None
      | Some (Next x, w') \<Rightarrow> f x w'
      | Some (Stop r, w') \<Rightarrow> Some (Stop r, w')
      | Some (Died, w') \<Rightarrow> Some (Died, w'))"

definition get_cm :: "(world \<Rightarrow> 'a) \<Rightarrow> 'a cm" where
  "get_cm f w = Some (Next (f w), w)"

definition modify_cm :: "(world \<Rightarrow> world) \<Rightarrow> unit cm" where
  "modify_cm f w = Some (Next (), f w)"

definition perform_cm :: "system \<Rightarrow> effect \<Rightarrow> response cm" where
  "perform_cm env e w = Some (Next (env (effects w) e), w\<lparr>effects := effects w @ [e]\<rparr>)"

text \<open>\<open>co_yield log_and_reply_on_error(code, ...)\<close>; an exception or failed assertion.\<close>

definition yield_cm :: "int \<Rightarrow> unit cm" where
  "yield_cm code = (if code < 0 then stop_cm (reply_status code) else ret_cm ())"

definition lift_cm :: "'a res \<Rightarrow> 'a cm" where
  "lift_cm r = (case r of Ret x \<Rightarrow> ret_cm x | Throw _ \<Rightarrow> die_cm | Abort \<Rightarrow> die_cm)"

definition assert_cm :: "bool \<Rightarrow> unit cm" where
  "assert_cm b = (if b then ret_cm () else die_cm)"

text \<open>
  \<open>co_await async::sd_bus_call_method(...)\<close>: the process dies when the call cannot be issued; an
  error reply is returned to the caller of this coroutine.
\<close>

definition call_method :: "system \<Rightarrow> effect \<Rightarrow> response cm" where
  "call_method env e =
     bind_cm (perform_cm env e) (\<lambda>r.
       if status r < 0 then die_cm
       else case failure r of
              Some (errno, name, message) \<Rightarrow> stop_cm (reply_status_error (- errno) (Some (name, message)))
            | None \<Rightarrow> ret_cm r)"

section \<open>Starting an entity\<close>

definition dashed :: "string \<Rightarrow> string" where
  "dashed name = map (\<lambda>c. if c = CHR ''.'' then CHR ''-'' else c) name"

definition slice_name :: "string \<Rightarrow> string" where
  "slice_name name = ''nonsense-'' @ dashed name @ ''.slice''"

definition scope_name :: "string \<Rightarrow> string" where
  "scope_name name = ''nonsense-'' @ name @ ''-entityd.scope''"

text \<open>The uplink of the network component, read with \<open>find\<close> and \<open>get<std::string>()\<close>.\<close>

definition uplink_of :: "json \<Rightarrow> string option res" where
  "uplink_of self =
     (case json_find ''network'' self of
        None \<Rightarrow> Ret None
      | Some net \<Rightarrow>
          (case json_find ''uplink'' net of
             None \<Rightarrow> Ret None
           | Some u \<Rightarrow> bind_res (to_string u) (\<lambda>n. Ret (Some n))))"

text \<open>Waiting for the connection to the entity daemon; \<open>None\<close> when it never becomes ready.\<close>

partial_function (option) wait_ready :: "system \<Rightarrow> world \<Rightarrow> (unit co \<times> world) option" where
  "wait_ready env w =
     (let w1 = w\<lparr>effects := effects w @ [BusIsOpen]\<rparr>;
          w2 = w1\<lparr>effects := effects w1 @ [BusIsReady]\<rparr>;
          w3 = w2\<lparr>effects := effects w2 @ [BusProcess]\<rparr>
      in if status (env (effects w) BusIsOpen) = 0 then Some (Next (), w1)
         else if status (env (effects w1) BusIsReady) \<noteq> 0 then Some (Next (), w2)
         else if status (env (effects w2) BusProcess) < 0
         then Some (Stop (reply_status (status (env (effects w2) BusProcess))), w3)
         else wait_ready env w3)"

declare wait_ready.simps [code]

definition connect_bus :: "system \<Rightarrow> string \<Rightarrow> unit cm" where
  "connect_bus env name =
     bind_cm (perform_cm env BusSetFd) (\<lambda>r.
     bind_cm (yield_cm (status r)) (\<lambda>_.
     bind_cm (perform_cm env BusSetClient) (\<lambda>r.
     bind_cm (yield_cm (status r)) (\<lambda>_.
     bind_cm (perform_cm env (RegisterBus name)) (\<lambda>r.
     bind_cm (assert_cm (status r \<ge> 0)) (\<lambda>_.
     bind_cm (perform_cm env BusStart) (\<lambda>r.
     bind_cm (yield_cm (status r)) (\<lambda>_.
     bind_cm (wait_ready env) (\<lambda>_.
     bind_cm (perform_cm env BusIsReady) (\<lambda>r.
       assert_cm (status r > 0)))))))))))"

text \<open>\<open>_live_entities.emplace\<close> does nothing for a name that is there.\<close>

definition connect_entityd :: "system \<Rightarrow> string \<Rightarrow> int cm" where
  "connect_entityd env name =
     bind_cm (perform_cm env SocketPair) (\<lambda>sp.
     if status sp < 0 then stop_cm (reply_status (- status sp))
     else bind_cm (perform_cm env (Fork name)) (\<lambda>pid.
     if status pid < 0 then stop_cm (reply_status (- status pid))
     else
       bind_cm (perform_cm env BusNew) (\<lambda>r.
       bind_cm (yield_cm (status r)) (\<lambda>_.
       bind_cm (modify_cm (\<lambda>w. case map_of (live w) name of
                                  None \<Rightarrow> w\<lparr>live := map_set name (status pid) (live w)\<rparr>
                                | Some _ \<Rightarrow> w)) (\<lambda>_.
       bind_cm (connect_bus env name) (\<lambda>_. ret_cm (status pid)))))))"

text \<open>\<open>co_await subscription.match<N>(...)\<close>: a negative status stands for a signal that never comes.\<close>

definition await_signal :: "system \<Rightarrow> effect \<Rightarrow> response cm" where
  "await_signal env e w =
     (let r = env (effects w) e
      in if status r < 0 then None else Some (Next r, w\<lparr>effects := effects w @ [e]\<rparr>))"

definition failed_to :: "string \<Rightarrow> string \<Rightarrow> string \<Rightarrow> string \<Rightarrow> co_result" where
  "failed_to error verb unit_name result =
     reply_error_t (Some (''info.griwes.nonsense.'' @ error,
       ''Failed to '' @ verb @ '' unit '' @ unit_name @ '': job returned result '' @ [CHR 0x27] @ result @ [CHR 0x27] @ ''.''))"

definition start_unit :: "system \<Rightarrow> string \<Rightarrow> (string \<times> int) option \<Rightarrow> unit cm" where
  "start_unit env unit_name scope =
     bind_cm (call_method env (StartTransientUnit unit_name scope)) (\<lambda>reply.
     bind_cm (yield_cm (reading reply)) (\<lambda>_.
     bind_cm (await_signal env (AwaitJob (answer reply))) (\<lambda>result.
     bind_cm (yield_cm (reading result)) (\<lambda>_.
       if answer result \<noteq> ''done'' then stop_cm (failed_to ''FailedToStart'' ''start'' unit_name (answer result))
       else ret_cm ()))))"

definition start_units :: "system \<Rightarrow> string \<Rightarrow> int \<Rightarrow> unit cm" where
  "start_units env name pid =
     bind_cm (perform_cm env SubscribeJobRemoved) (\<lambda>r.
     bind_cm (assert_cm (status r \<ge> 0)) (\<lambda>_.
     bind_cm (start_unit env (slice_name name) None) (\<lambda>_.
       start_unit env (scope_name name) (Some (slice_name name, pid)))))"

text \<open>
  \<open>deep_uplink_info\<close>: the component sent to the entity daemon carries the network component of its
  uplink in place of the name. \<open>None\<close> when the recursion has no end.
\<close>

partial_function (option) deep_uplink_info :: "config \<Rightarrow> json \<Rightarrow> json res option" where
  "deep_uplink_info cfg component =
     (case json_find ''uplink'' component of
        None \<Rightarrow> Some (Ret component)
      | Some u \<Rightarrow>
          (case bind_res (get_ref_string u) (\<lambda>name.
                  case try_get cfg name of
                    None \<Rightarrow> Abort
                  | Some uplink_ent \<Rightarrow> json_subscript ''network'' (entity_self uplink_ent)) of
             Throw e \<Rightarrow> Some (Throw e)
           | Abort \<Rightarrow> Some Abort
           | Ret (self', uplink) \<Rightarrow>
               if uplink = JNull then Some Abort
               else Option.bind (deep_uplink_info cfg uplink) (\<lambda>r.
                 Some (bind_res r (\<lambda>uplink'.
                   bind_res (json_subscript '':uplink-name'' component) (\<lambda>(component1, _).
                     Ret (json_put [''uplink''] uplink' (json_put ['':uplink-name''] u component1))))))))"

declare deep_uplink_info.simps [code]

fun json_items :: "json \<Rightarrow> (string \<times> json) list" where
  "json_items (JObject m) = m"
| "json_items (JArray xs) = zip (map show_dec [0..<length xs]) xs"
| "json_items JNull = []"
| "json_items j = [('''', j)]"

definition item_component :: "config \<Rightarrow> string \<Rightarrow> json \<Rightarrow> json cm" where
  "item_component cfg type component w =
     (if type = ''network''
      then Option.bind (deep_uplink_info cfg component) (\<lambda>r. lift_cm r w)
      else ret_cm component w)"

fun add_items :: "system \<Rightarrow> string \<Rightarrow> (string \<times> json) list \<Rightarrow> unit cm" where
  "add_items env name [] = ret_cm ()"
| "add_items env name ((type, value) # items) =
     bind_cm (get_cm conf) (\<lambda>cfg.
     bind_cm (item_component cfg type value) (\<lambda>component.
     bind_cm (call_method env (AddComponentCall name type component)) (\<lambda>reply.
     bind_cm (yield_cm (reading reply)) (\<lambda>_.
     bind_cm (assert_cm (flag reply)) (\<lambda>_. add_items env name items)))))"

text \<open>The token goes back to the queue when the coroutine ends.\<close>

definition give_token :: "string \<Rightarrow> ('a co \<times> world) option \<Rightarrow> ('a co \<times> world) option" where
  "give_token name = map_option (\<lambda>(r, w). (r, w\<lparr>held := remove1 name (held w)\<rparr>))"

definition start_self :: "system \<Rightarrow> entity \<Rightarrow> unit cm" where
  "start_self env ent =
     bind_cm (connect_entityd env (entity_name ent)) (\<lambda>pid.
     bind_cm (start_units env (entity_name ent) pid) (\<lambda>_.
       add_items env (entity_name ent) (json_items (entity_self ent))))"

text \<open>
  \<open>co_await enqueue()\<close> for a token that is held further up this chain of coroutines never returns.
\<close>

function entity_start :: "system \<Rightarrow> entity \<Rightarrow> unit cm" where
  "entity_start env ent w =
     (let name = entity_name ent; w1 = w\<lparr>held := name # held w\<rparr>
      in if name \<in> set (held w) then None
         else give_token name
           (if map_of (live w) name \<noteq> None then Some (Next (), w1)
            else case uplink_of (entity_self ent) of
                   Ret None \<Rightarrow> start_self env ent w1
                 | Ret (Some u) \<Rightarrow>
                     (case try_get (conf w) u of
                        None \<Rightarrow> Some (Died, w1)
                      | Some uplink \<Rightarrow>
                          (case entity_start env uplink w1 of
                             None \<Rightarrow> None
                           | Some (Next _, w2) \<Rightarrow> start_self env ent w2
                           | Some (Stop r, w2) \<Rightarrow> Some (Stop r, w2)
                           | Some (Died, w2) \<Rightarrow> Some (Died, w2)))
                 | Throw _ \<Rightarrow> Some (Died, w1)
                 | Abort \<Rightarrow> Some (Died, w1)))"
  by pat_completeness auto
termination
proof (relation "measure (\<lambda>(env, ent, w).
    card (insert (entity_name ent) (set (obj_keys (configuration (conf w)))) - set (held w)))", goal_cases)
  case (2 env ent w name w1 r u uplink)
  let ?K = "set (obj_keys (configuration (conf w)))"
  have up: "entity_name uplink \<in> ?K"
    using 2 by (auto simp: try_get_def set_obj_keys split: option.splits)
  have "?K - set (held w1) = (insert name ?K - set (held w)) - {name}"
    using 2 by auto
  moreover have "name \<in> insert name ?K - set (held w)"
    using 2 by auto
  ultimately have "card (?K - set (held w1)) < card (insert name ?K - set (held w))"
    by (metis List.finite_set card_Diff1_less finite.insertI finite_Diff)
  then show ?case
    using 2 up by (simp add: insert_absorb)
qed simp

declare entity_start.simps [simp del]

section \<open>Stopping an entity\<close>

definition stop_slice :: "system \<Rightarrow> string \<Rightarrow> unit cm" where
  "stop_slice env name =
     bind_cm (perform_cm env SubscribeJobRemoved) (\<lambda>r.
     bind_cm (assert_cm (status r \<ge> 0)) (\<lambda>_.
     bind_cm (call_method env (StopUnit (slice_name name))) (\<lambda>reply.
     bind_cm (yield_cm (reading reply)) (\<lambda>_.
     bind_cm (await_signal env (AwaitUnit (slice_name name))) (\<lambda>result.
     bind_cm (yield_cm (reading result)) (\<lambda>_.
       if answer result \<noteq> ''done''
       then stop_cm (failed_to ''FailedToStop'' ''stop'' (slice_name name) (answer result))
       else ret_cm ()))))))"

definition stop_self :: "system \<Rightarrow> string \<Rightarrow> int \<Rightarrow> unit cm" where
  "stop_self env name pid =
     bind_cm (call_method env (ShutdownCall name)) (\<lambda>_.
     bind_cm (perform_cm env (WaitPid pid)) (\<lambda>_.
     bind_cm (perform_cm env (UnregisterBus name)) (\<lambda>r.
     bind_cm (assert_cm (status r \<ge> 0)) (\<lambda>_.
     bind_cm (modify_cm (\<lambda>w. w\<lparr>live := map_erase name (live w)\<rparr>)) (\<lambda>_.
       stop_slice env name)))))"

definition entity_stop :: "system \<Rightarrow> entity \<Rightarrow> unit cm" where
  "entity_stop env ent w =
     (let name = entity_name ent; w1 = w\<lparr>held := name # held w\<rparr>
      in if name \<in> set (held w) then None
         else give_token name
           (case map_of (live w) name of
              None \<Rightarrow> stop_cm (reply_error_t (Some (''info.griwes.nonsense.EntityNotStarted'',
                        ''Failed to stop entity '' @ name @ '': entity is not running.''))) w1
            | Some pid \<Rightarrow> stop_self env name pid w1))"

section \<open>The controller\<close>

text \<open>
  A method call is answered by the handler itself or by an error that the coroutine chain returns; the
  events of \<open>return_value\<close> for the chain are those of \<open>Async\<close>. \<open>read\<close> is the status of reading the name.
\<close>

definition finish_call :: "bus \<Rightarrow> (unit co \<times> world) option \<Rightarrow> (world outcome res) option" where
  "finish_call bus m =
     (case m of
        None \<Rightarrow> None
      | Some (Next _, w) \<Rightarrow> Some (co_return_reply bus w [])
      | Some (Stop r, w) \<Rightarrow> Some (co_return bus [] None w r)
      | Some (Died, w) \<Rightarrow> Some Abort)"

definition no_such_entity :: "string \<Rightarrow> string \<Rightarrow> co_result" where
  "no_such_entity verb name =
     reply_status_const (- ENOENT) ''info.griwes.nonsense.NoSuchEntity''
       (''Attempted to '' @ verb @ '' an entity that does not exist: '' @ name @ ''.'')"

definition method_start :: "bus \<Rightarrow> system \<Rightarrow> int \<Rightarrow> string \<Rightarrow> world \<Rightarrow> (world outcome res) option" where
  "method_start bus env read name w =
     (if read < 0 then Some (co_return bus [] None w (reply_status read))
      else case try_get (conf w) name of
             None \<Rightarrow> Some (co_return bus [] None w (no_such_entity ''start'' name))
           | Some ent \<Rightarrow> finish_call bus (entity_start env ent w))"

definition method_stop :: "bus \<Rightarrow> system \<Rightarrow> int \<Rightarrow> string \<Rightarrow> world \<Rightarrow> (world outcome res) option" where
  "method_stop bus env read name w =
     (if read < 0 then Some (co_return bus [] None w (reply_status read))
      else case try_get (conf w) name of
             None \<Rightarrow> Some (co_return bus [] None w (no_such_entity ''stop'' name))
           | Some ent \<Rightarrow> finish_call bus (entity_stop env ent w))"

end
