(* ===== verification/Entityd.thy ===== *)
theory Entityd
  imports Common_Definitions
begin

text \<open>
  \<open>entityd/main.cpp\<close> and \<open>entityd/cleanup.h\<close>: the process that runs inside an entity, sets up its
  network namespace with \<open>ip\<close> commands and takes it down again. Effects on the system are a log
  of actions; what each system call or command returns is an argument (\<open>env\<close>), which may depend on
  everything done before.
\<close>

section \<open>State and effects\<close>

datatype action =
    System string
  | OpenNs string
  | Setns string
  | Unshare
  | CreateDirectories string
  | Umount string
  | OpenCreate string
  | BindMount string

type_synonym env = "action list \<Rightarrow> action \<Rightarrow> int"

text \<open>A clean-up closure performs one action; \<open>current\<close> is the active network component.\<close>

record entityd =
  entity_id :: string
  current :: "json option"
  cleanups :: "action list"
  connection_cleanups :: "action list"
  log :: "action list"

type_synonym 'a em = "entityd \<Rightarrow> 'a res \<times> entityd"

definition ret_em :: "'a \<Rightarrow> 'a em" where
  "ret_em x s = (Ret x, s)"

definition lift_em :: "'a res \<Rightarrow> 'a em" where
  "lift_em r s = (r, s)"

definition bind_em :: "'a em \<Rightarrow> ('a \<Rightarrow> 'b em) \<Rightarrow> 'b em" where
  "bind_em m f s =
     (case m s of
        (Ret x, s') \<Rightarrow> f x s'
      | (Throw e, s') \<Rightarrow> (Throw e, s')
      | (Abort, s') \<Rightarrow> (Abort, s'))"

definition get_em :: "(entityd \<Rightarrow> 'a) \<Rightarrow> 'a em" where
  "get_em f s = (Ret (f s), s)"

definition modify_em :: "(entityd \<Rightarrow> entityd) \<Rightarrow> unit em" where
  "modify_em f s = (Ret (), f s)"

definition perform :: "env \<Rightarrow> action \<Rightarrow> int em" where
  "perform env a s = (Ret (env (log s) a), s\<lparr>log := log s @ [a]\<rparr>)"

text \<open>\<open>assert(b)\<close>.\<close>

definition assert_em :: "bool \<Rightarrow> unit em" where
  "assert_em b = lift_em (if b then Ret () else Abort)"

lemma bind_em_cong [fundef_cong]:
  assumes "m s = m' s'" "\<And>x t. m' s' = (Ret x, t) \<Longrightarrow> f x t = f' x t"
  shows "bind_em m f s = bind_em m' f' s'"
  using assms by (auto simp: bind_em_def split: prod.splits res.splits)

section \<open>Clean-ups\<close>

text \<open>\<open>cleanup::run\<close>: last added, first run; results are ignored. \<open>add\<close> appends.\<close>

fun perform_all :: "env \<Rightarrow> action list \<Rightarrow> unit em" where
  "perform_all env [] = ret_em ()"
| "perform_all env (a # as) = bind_em (perform env a) (\<lambda>_. perform_all env as)"

definition run_cleanups :: "env \<Rightarrow> unit em" where
  "run_cleanups env =
     bind_em (get_em cleanups) (\<lambda>as.
     bind_em (perform_all env (rev as)) (\<lambda>_. modify_em (\<lambda>s. s\<lparr>cleanups := []\<rparr>)))"

definition run_connection_cleanups :: "env \<Rightarrow> unit em" where
  "run_connection_cleanups env =
     bind_em (get_em connection_cleanups) (\<lambda>as.
     bind_em (perform_all env (rev as)) (\<lambda>_. modify_em (\<lambda>s. s\<lparr>connection_cleanups := []\<rparr>)))"

definition add_cleanups :: "action list \<Rightarrow> unit em" where
  "add_cleanups clean = modify_em (\<lambda>s. s\<lparr>cleanups := cleanups s @ clean\<rparr>)"

definition add_connection_cleanups :: "action list \<Rightarrow> unit em" where
  "add_connection_cleanups clean =
     modify_em (\<lambda>s. s\<lparr>connection_cleanups := connection_cleanups s @ clean\<rparr>)"

section \<open>Setting up interfaces\<close>

definition annotated_system :: "env \<Rightarrow> string \<Rightarrow> unit em" where
  "annotated_system env command =
     bind_em (perform env (System command)) (\<lambda>r.
       if r \<noteq> 0 then lift_em (Throw (RuntimeError (''system('' @ command @ '') failed'')))
       else ret_em ())"

definition setup_interfaces :: "env \<Rightarrow> unit em" where
  "setup_interfaces env =
     bind_em (get_em entity_id) (\<lambda>name.
     bind_em (annotated_system env (''ip link add nu-'' @ name @ '' type veth peer nd-'' @ name)) (\<lambda>_.
     bind_em (annotated_system env (''ip link set nu-'' @ name @ '' up'')) (\<lambda>_.
       add_cleanups [System (''ip link del nu-'' @ name)])))"

definition setup_bridge :: "env \<Rightarrow> unit em" where
  "setup_bridge env =
     bind_em (get_em entity_id) (\<lambda>name.
     bind_em (annotated_system env (''ip link add nb-'' @ name @ '' type bridge'')) (\<lambda>_.
     bind_em (annotated_system env (''ip link set nb-'' @ name @ '' up'')) (\<lambda>_.
     bind_em (annotated_system env (''ip link set nu-'' @ name @ '' master nb-'' @ name)) (\<lambda>_.
       add_cleanups [System (''ip link del nb-'' @ name)]))))"

definition setup_nft :: "unit em" where
  "setup_nft = bind_em (assert_em False) (\<lambda>_. add_cleanups [])"

text \<open>
  The address of host \<open>n\<close> in a \<open>/24\<close> network. Without a dot \<open>rfind\<close> is \<open>npos\<close> and \<open>substr\<close> takes
  the whole network part.
\<close>

definition nth_address_in_subnet :: "string \<Rightarrow> nat \<Rightarrow> bool \<Rightarrow> string res" where
  "nth_address_in_subnet net n include_mask =
     (case find_char (CHR ''/'') net of
        None \<Rightarrow> Abort
      | Some sep \<Rightarrow>
          let network = substr net 0 sep; mask = drop (sep + 1) net in
          if mask \<noteq> ''24'' then Abort
          else
            let pre = (case rfind_char (CHR ''.'') network of
                         None \<Rightarrow> network | Some dot \<Rightarrow> substr network 0 dot)
            in Ret (pre @ ''.'' @ show_dec n @ (if include_mask then ''/'' @ mask else '''')))"

section \<open>Connecting to the uplink\<close>

text \<open>The lambda \<open>get\<close> of \<open>connect\<close>: \<open>component[key].get_ref<std::string &>()\<close>; the value
  afterwards, in which \<open>operator[]\<close> may have inserted \<open>null\<close>, and the string.\<close>

definition get_member :: "string \<Rightarrow> json \<Rightarrow> (json \<times> string) res" where
  "get_member k j =
     bind_res (json_subscript k j) (\<lambda>(j', v). bind_res (get_ref_string v) (\<lambda>s. Ret (j', s)))"

lemma map_of_size: "map_of m k = Some v \<Longrightarrow> size v < size (JObject m)"
  by (induction m) (auto split: if_splits)

lemma json_subscript_keeps:
  "json_subscript k j = Ret (j', v) \<Longrightarrow> j \<noteq> JNull \<Longrightarrow> k' \<noteq> k \<Longrightarrow> json_find k' j' = json_find k' j"
  by (cases j) (auto split: option.splits)

lemma json_subscript_value:
  "json_subscript k j = Ret (j', v) \<Longrightarrow> j \<noteq> JNull \<Longrightarrow>
     v = (case json_find k j of None \<Rightarrow> JNull | Some c \<Rightarrow> c) \<and> is_object j \<and> is_object j'"
  by (cases j) (auto split: option.splits)

lemma get_member_Ret:
  "get_member k j = Ret (j', s) \<longleftrightarrow> json_subscript k j = Ret (j', JString s)"
  by (auto simp: get_member_def elim: get_ref_string.elims)

lemma get_member_keeps:
  assumes "get_member k j = Ret (j', s)" "is_object j"
  shows "is_object j'" "k' \<noteq> k \<Longrightarrow> json_find k' j' = json_find k' j"
proof -
  have "json_subscript k j = Ret (j', JString s)" "j \<noteq> JNull"
    using assms by (auto simp: get_member_Ret)
  then show "is_object j'" "k' \<noteq> k \<Longrightarrow> json_find k' j' = json_find k' j"
    using json_subscript_value json_subscript_keeps by blast+
qed

text \<open>
  One round of the loop that adds routes in the namespaces of the switches above: the value of
  \<open>*uplink\<close> afterwards, and unless the loop ends here the next value and the extended clean-ups.
\<close>

definition uplink_route :: "env \<Rightarrow> string \<Rightarrow> json \<Rightarrow> action list \<Rightarrow>
    (json \<times> (json \<times> action list) option) em" where
  "uplink_route env net uplink clean =
     (if uplink = JNull then ret_em (uplink, None)
      else bind_em (lift_em (json_subscript ''role'' uplink)) (\<lambda>(uplink1, role).
        if \<not> json_eq role (JString ''switch'') then ret_em (uplink1, None)
        else
          bind_em (lift_em (get_member '':uplink-name'' uplink1)) (\<lambda>(uplink2, uplink_name).
          bind_em (lift_em (get_member ''address'' uplink2)) (\<lambda>(uplink3, uplink_net).
          bind_em (lift_em (nth_address_in_subnet uplink_net 2 False)) (\<lambda>uplink_uplink_address.
          bind_em (annotated_system env
            (''ip netns exec nonsense:'' @ uplink_name @ '' ip route add '' @ net @ '' via ''
             @ uplink_uplink_address)) (\<lambda>_.
          bind_em (lift_em (json_subscript ''uplink'' uplink3)) (\<lambda>(uplink4, next_uplink).
            ret_em (uplink4, Some (next_uplink, clean @
              [System (''ip netns exec nonsense:'' @ uplink_name @ '' ip route del '' @ net)])))))))))"

lemma bind_em_Ret [simp]:
  "bind_em m f s = (Ret y, s') \<longleftrightarrow> (\<exists>x t. m s = (Ret x, t) \<and> f x t = (Ret y, s'))"
  by (auto simp: bind_em_def split: prod.splits res.splits)

lemma em_Ret [simp]:
  "ret_em x s = (Ret y, s') \<longleftrightarrow> y = x \<and> s' = s"
  "lift_em r s = (Ret y, s') \<longleftrightarrow> r = Ret y \<and> s' = s"
  by (auto simp: ret_em_def lift_em_def)

lemma uplink_route_decreases:
  assumes "uplink_route env net j clean s = (Ret (j', Some (v, clean')), s')"
  shows "size v < size j"
proof -
  obtain j1 r j2 n j3 a where j: "j \<noteq> JNull" "json_subscript ''role'' j = Ret (j1, r)"
      "get_member '':uplink-name'' j1 = Ret (j2, n)" "get_member ''address'' j2 = Ret (j3, a)"
      "json_subscript ''uplink'' j3 = Ret (j', v)"
    using assms by (auto simp: uplink_route_def split: if_splits)
  have obj: "is_object j" "is_object j1" "json_find ''uplink'' j1 = json_find ''uplink'' j"
    using json_subscript_value[OF j(2,1)] json_subscript_keeps[OF j(2,1)] by auto
  then have "is_object j3" "json_find ''uplink'' j3 = json_find ''uplink'' j"
    using get_member_keeps[OF j(3)] get_member_keeps[OF j(4)] by auto
  then have "v = (case json_find ''uplink'' j of None \<Rightarrow> JNull | Some c \<Rightarrow> c)"
    using json_subscript_value[OF j(5)] by fastforce
  then show ?thesis
    using obj(1) map_of_size[of _ "''uplink''"] by (auto split: option.splits)
qed

function uplink_routes :: "env \<Rightarrow> string \<Rightarrow> json \<Rightarrow> action list \<Rightarrow> (json \<times> action list) em" where
  "uplink_routes env net uplink clean s =
     (case uplink_route env net uplink clean s of
        (Ret (uplink', None), s') \<Rightarrow> (Ret (uplink', clean), s')
      | (Ret (uplink', Some (next_uplink, clean')), s') \<Rightarrow>
          (case uplink_routes env net next_uplink clean' s' of
             (Ret (next', clean''), s'') \<Rightarrow> (Ret (json_put [''uplink''] next' uplink', clean''), s'')
           | (Throw e, s'') \<Rightarrow> (Throw e, s'')
           | (Abort, s'') \<Rightarrow> (Abort, s''))
      | (Throw e, s') \<Rightarrow> (Throw e, s')
      | (Abort, s') \<Rightarrow> (Abort, s'))"
  by pat_completeness auto
termination
  by (relation "measure (\<lambda>(env, net, uplink, clean, s). size uplink)")
    (auto intro: uplink_route_decreases dest: sym)

declare uplink_routes.simps [simp del]

text \<open>\<open>connect\<close> on the active component; \<open>current_components.at\<close> throws when there is none.\<close>

definition connect_switch :: "env \<Rightarrow> string \<Rightarrow> string \<Rightarrow> json \<Rightarrow> action list \<Rightarrow> (json \<times> action list) em" where
  "connect_switch env name uplink_name component clean =
     bind_em (lift_em (get_member ''address'' component)) (\<lambda>(component1, net).
     bind_em (lift_em (nth_address_in_subnet net 1 True)) (\<lambda>downlink_address.
     bind_em (annotated_system env
       (''ip netns exec nonsense:'' @ uplink_name @ '' ip addr add '' @ downlink_address
        @ '' dev nd-'' @ name)) (\<lambda>_.
     bind_em (lift_em (json_subscript ''uplink'' component1)) (\<lambda>(component2, uplink).
     bind_em (uplink_routes env net uplink (clean @
       [System (''ip netns exec nonsense:'' @ uplink_name @ '' ip addr del '' @ downlink_address
                @ '' dev nd-'' @ name)])) (\<lambda>(uplink', clean1).
     bind_em (annotated_system env
       (''ip netns exec nonsense:'' @ uplink_name @ '' ip link set nd-'' @ name @ '' up'')) (\<lambda>_.
     bind_em (lift_em (nth_address_in_subnet net 1 False)) (\<lambda>gateway.
     bind_em (lift_em (nth_address_in_subnet net 2 True)) (\<lambda>assigned_address.
     bind_em (annotated_system env (''ip addr add '' @ assigned_address @ '' dev nb-'' @ name)) (\<lambda>_.
     bind_em (annotated_system env (''ip route add default via '' @ gateway)) (\<lambda>_.
       ret_em (json_put [''uplink''] uplink' component2, clean1 @
         [System (''ip netns exec nonsense:'' @ uplink_name @ '' ip link set nd-'' @ name @ '' down''),
          System (''ip addr del '' @ assigned_address @ '' dev nb-'' @ name),
          System ''ip route del default''])))))))))))"

definition connect_other :: "env \<Rightarrow> string \<Rightarrow> string \<Rightarrow> json \<Rightarrow> action list \<Rightarrow> (json \<times> action list) em" where
  "connect_other env name uplink_name component clean =
     bind_em (annotated_system env
       (''ip netns exec nonsense:'' @ uplink_name @ '' ip link set nd-'' @ name @ '' master nb-''
        @ uplink_name)) (\<lambda>_.
     bind_em (lift_em (json_subscript ''uplink'' component)) (\<lambda>(component1, uplink).
     bind_em (lift_em (get_member ''address'' uplink)) (\<lambda>(uplink', uplink_net).
     bind_em (lift_em (nth_address_in_subnet uplink_net 1 False)) (\<lambda>gateway.
     bind_em (lift_em (nth_address_in_subnet uplink_net 3 True)) (\<lambda>assigned_address.
     bind_em (annotated_system env
       (''ip netns exec nonsense:'' @ uplink_name @ '' ip link set nd-'' @ name @ '' up'')) (\<lambda>_.
     bind_em (annotated_system env (''ip addr add '' @ assigned_address @ '' dev nu-'' @ name)) (\<lambda>_.
     bind_em (annotated_system env (''ip route add default via '' @ gateway)) (\<lambda>_.
       ret_em (json_put [''uplink''] uplink' component1, clean @
         [System (''ip netns exec nonsense:'' @ uplink_name @ '' ip link set nd-'' @ name @ '' down''),
          System (''ip addr del '' @ assigned_address @ '' dev nu-'' @ name),
          System ''ip route del default''])))))))))"

definition connect :: "env \<Rightarrow> unit em" where
  "connect env =
     bind_em (get_em entity_id) (\<lambda>name.
     bind_em (get_em current) (\<lambda>comp.
       case comp of
         None \<Rightarrow> lift_em (Throw (OutOfRange ''_Map_base::at''))
       | Some component \<Rightarrow>
           bind_em (lift_em (get_member '':uplink-name'' component)) (\<lambda>(component1, uplink_name).
           bind_em (annotated_system env
             (''ip link set nd-'' @ name @ '' netns nonsense:'' @ uplink_name)) (\<lambda>_.
           bind_em (lift_em (json_subscript ''role'' component1)) (\<lambda>(component2, role).
           let clean = [System (''ip netns exec nonsense:'' @ uplink_name @ '' ip link set nd-'' @ name
                                @ '' netns nonsense:'' @ name)] in
           bind_em (if json_eq role (JString ''switch'')
                    then connect_switch env name uplink_name component2 clean
                    else connect_other env name uplink_name component2 clean) (\<lambda>(component3, clean').
           bind_em (modify_em (\<lambda>s. s\<lparr>current := Some component3\<rparr>)) (\<lambda>_.
             add_connection_cleanups clean')))))))"

section \<open>Adding the network component\<close>

definition member_bool :: "json \<Rightarrow> bool \<Rightarrow> bool" where
  "member_bool j b \<longleftrightarrow> is_boolean j \<and> json_eq j (JBool b)"

text \<open>Entering the namespace: an external one, a new one, or the one the process is already in.\<close>

definition enter_namespace :: "env \<Rightarrow> json \<Rightarrow> json \<Rightarrow> json \<Rightarrow> unit em" where
  "enter_namespace env component external dflt =
     bind_em (get_em entity_id) (\<lambda>name.
       if member_bool external True then
         bind_em (lift_em (case json_find ''external_name'' component of
                             None \<Rightarrow> Ret (''/var/run/netns/'' @ name)
                           | Some j \<Rightarrow> to_string j)) (\<lambda>path.
         bind_em (perform env (OpenNs (''/var/run/netns/'' @ name))) (\<lambda>fd.
         bind_em (assert_em (fd \<noteq> - 1)) (\<lambda>_.
         bind_em (perform env (Setns (''/var/run/netns/'' @ name))) (\<lambda>_. ret_em ()))))
       else if \<not> is_boolean dflt \<or> json_eq dflt (JBool False) then
         bind_em (perform env Unshare) (\<lambda>r. assert_em (r = 0))
       else ret_em ())"

text \<open>Making the namespace visible under \<open>/var/run/netns\<close>; a failed \<open>mount\<close> aborts.\<close>

definition publish_namespace :: "env \<Rightarrow> unit em" where
  "publish_namespace env =
     bind_em (get_em entity_id) (\<lambda>name.
     let full_path = ''/var/run/netns/nonsense:'' @ name in
     bind_em (perform env (CreateDirectories ''/var/run/netns'')) (\<lambda>r.
     bind_em (if r < 0 then lift_em (Throw (RuntimeError ''filesystem error'')) else ret_em ()) (\<lambda>_.
     bind_em (perform env (Umount full_path)) (\<lambda>_.
     bind_em (perform env (OpenCreate full_path)) (\<lambda>fd.
     bind_em (assert_em (fd \<noteq> - 1)) (\<lambda>_.
     bind_em (perform env (BindMount full_path)) (\<lambda>ret.
     bind_em (assert_em (ret = 0)) (\<lambda>_.
       add_cleanups [Umount full_path]))))))))"

definition setup_role :: "env \<Rightarrow> network_role \<Rightarrow> unit em" where
  "setup_role env role =
     (case role of
        Root \<Rightarrow> ret_em ()
      | Interface \<Rightarrow> assert_em False
      | Router \<Rightarrow> bind_em (setup_interfaces env) (\<lambda>_. bind_em setup_nft (\<lambda>_. connect env))
      | Switch \<Rightarrow> bind_em (setup_interfaces env) (\<lambda>_. bind_em (setup_bridge env) (\<lambda>_. connect env))
      | Client \<Rightarrow> bind_em (setup_interfaces env) (\<lambda>_. connect env))"

definition add_network_body :: "env \<Rightarrow> json \<Rightarrow> unit em" where
  "add_network_body env component =
     bind_em (lift_em (get_member ''role'' component)) (\<lambda>(component1, role).
     bind_em (lift_em (case map_of known_network_roles role of
                         None \<Rightarrow> Throw (OutOfRange ''_Map_base::at'') | Some r \<Rightarrow> Ret r)) (\<lambda>role_enum.
     bind_em (modify_em (\<lambda>s. case current s of None \<Rightarrow> s\<lparr>current := Some component1\<rparr> | Some _ \<Rightarrow> s)) (\<lambda>_.
     bind_em (lift_em (json_subscript ''external'' component1)) (\<lambda>(component2, external).
     bind_em (lift_em (json_subscript ''default'' component2)) (\<lambda>(component3, dflt).
     bind_em (enter_namespace env component3 external dflt) (\<lambda>_.
     bind_em (publish_namespace env) (\<lambda>_. setup_role env role_enum)))))))"

text \<open>The function-try-block: any exception removes the component and then fails an assertion.\<close>

definition add_network :: "env \<Rightarrow> json \<Rightarrow> unit em" where
  "add_network env component s =
     (case add_network_body env component s of
        (Throw e, s') \<Rightarrow> (Abort, s'\<lparr>current := None\<rparr>)
      | r \<Rightarrow> r)"

section \<open>Requests\<close>

text \<open>What \<open>AddComponent\<close> answers: an error, or true.\<close>

datatype add_reply = ComponentAlreadyActive | Added

definition add_component :: "env \<Rightarrow> (string \<Rightarrow> json res) \<Rightarrow> int \<Rightarrow> string \<Rightarrow> string \<Rightarrow> add_reply em" where
  "add_component env parse read type_str config_str =
     bind_em (assert_em (read \<ge> 0)) (\<lambda>_.
     bind_em (assert_em (map_of known_components type_str \<noteq> None)) (\<lambda>_.
     bind_em (get_em current) (\<lambda>cur.
       if cur \<noteq> None then ret_em ComponentAlreadyActive
       else bind_em (lift_em (parse config_str)) (\<lambda>component.
            bind_em (add_network env component) (\<lambda>_. ret_em Added)))))"

definition shutdown :: "env \<Rightarrow> unit em" where
  "shutdown env = bind_em (run_connection_cleanups env) (\<lambda>_. run_cleanups env)"

text \<open>
  \<open>main\<close>: requests are handled in order until a shutdown request (exit status 0), a failure of the
  bus or an exception (clean-ups are run, exit status 1). \<open>None\<close> while it is still waiting.
\<close>

datatype request = AddComponent int string string | Shutdown | ProcessFailed

fun serve :: "env \<Rightarrow> (string \<Rightarrow> json res) \<Rightarrow> request list \<Rightarrow> nat option em" where
  "serve env parse [] s = (Ret None, s)"
| "serve env parse (Shutdown # rs) s = bind_em (shutdown env) (\<lambda>_. ret_em (Some 0)) s"
| "serve env parse (ProcessFailed # rs) s = bind_em (shutdown env) (\<lambda>_. ret_em (Some 1)) s"
| "serve env parse (AddComponent read type_str config_str # rs) s =
     (case add_component env parse read type_str config_str s of
        (Ret _, s') \<Rightarrow> serve env parse rs s'
      | (Throw e, s') \<Rightarrow> bind_em (shutdown env) (\<lambda>_. ret_em (Some 1)) s'
      | (Abort, s') \<Rightarrow> (Abort, s'))"

definition entityd_start :: "string \<Rightarrow> entityd" where
  "entityd_start name = \<lparr>entity_id = name, current = None, cleanups = [], connection_cleanups = [], log = []\<rparr>"

definition entityd_main :: "env \<Rightarrow> (string \<Rightarrow> json res) \<Rightarrow> int \<Rightarrow> string \<Rightarrow> request list \<Rightarrow> nat option res \<times> entityd" where
  "entityd_main env parse installed name rs =
     (if installed < 0 then bind_em (shutdown env) (\<lambda>_. ret_em (Some 1)) (entityd_start name)
      else serve env parse rs (entityd_start name))"

end
