(* ===== verification/Entityd_Properties.thy ===== *)
theory Entityd_Properties
  imports Entityd "HOL-Library.Sublist"
begin

text \<open>
  What the entity daemon does to the system: the commands for each role as scripts that pair a
  command with the clean-up registered for it, that setting up a network is running its script,
  and that shutting down undoes it in reverse order.
\<close>

section \<open>Addresses\<close>

lemma nth_address:
  assumes "CHR ''/'' \<notin> set p" "CHR ''/'' \<notin> set d" "CHR ''.'' \<notin> set d"
  shows "nth_address_in_subnet (p @ ''.'' @ d @ ''/24'') n include_mask =
    Ret (p @ ''.'' @ show_dec n @ (if include_mask then ''/24'' else ''''))"
proof -
  have "find_char (CHR ''/'') ((p @ ''.'' @ d) @ CHR ''/'' # ''24'') = Some (length (p @ ''.'' @ d))"
    by (rule find_char_append) (use assms in auto)
  moreover have "rfind_char (CHR ''.'') (p @ CHR ''.'' # d) = Some (length p)"
    by (rule rfind_char_append[OF assms(3)])
  ultimately show ?thesis
    by (simp add: nth_address_in_subnet_def substr_def)
qed

section \<open>Scripts\<close>

fun run_script :: "env \<Rightarrow> (string \<times> action option) list \<Rightarrow> action list em" where
  "run_script env [] = ret_em []"
| "run_script env ((c, u) # cs) =
     bind_em (annotated_system env c) (\<lambda>_.
     bind_em (run_script env cs) (\<lambda>us. ret_em (case u of None \<Rightarrow> us | Some a \<Rightarrow> a # us)))"

definition undos :: "(string \<times> action option) list \<Rightarrow> action list" where
  "undos cs = List.map_filter snd cs"

definition commands :: "(string \<times> action option) list \<Rightarrow> action list" where
  "commands cs = map (\<lambda>c. System (fst c)) cs"

lemma undos_simps [simp]:
  "undos [] = []" "undos ((c, None) # cs) = undos cs" "undos ((c, Some a) # cs) = a # undos cs"
  "undos (cs @ cs') = undos cs @ undos cs'"
  by (auto simp: undos_def List.map_filter_def)

lemma commands_simps [simp]:
  "commands [] = []" "commands (c # cs) = System (fst c) # commands cs"
  "commands (cs @ cs') = commands cs @ commands cs'"
  by (auto simp: commands_def)

lemma bind_em_assoc: "bind_em (bind_em m f) g = bind_em m (\<lambda>x. bind_em (f x) g)"
  by (rule ext) (auto simp: bind_em_def split: prod.splits res.splits)

lemma bind_em_ret [simp]:
  "bind_em (ret_em x) f = f x" "bind_em (lift_em (Ret x)) f = f x" "bind_em m ret_em = m"
  by (rule ext, simp add: bind_em_def ret_em_def lift_em_def split: prod.splits res.splits)+

text \<open>
  Which answers are failures, and how far a sequence of actions gets: up to and including the first that
  fails, given what was done before it.
\<close>

fun fails :: "action \<Rightarrow> int \<Rightarrow> bool" where
  "fails (System c) r \<longleftrightarrow> r \<noteq> 0"
| "fails Unshare r \<longleftrightarrow> r \<noteq> 0"
| "fails (CreateDirectories p) r \<longleftrightarrow> r < 0"
| "fails (OpenCreate p) r \<longleftrightarrow> r = - 1"
| "fails (BindMount p) r \<longleftrightarrow> r \<noteq> 0"
| "fails (OpenNs p) r \<longleftrightarrow> r = - 1"
| "fails (Setns p) r \<longleftrightarrow> False"
| "fails (Umount p) r \<longleftrightarrow> False"

fun attempt :: "env \<Rightarrow> action list \<Rightarrow> action list \<Rightarrow> bool \<times> action list" where
  "attempt env h [] = (True, h)"
| "attempt env h (a # as) = (if fails a (env h a) then (False, h @ [a]) else attempt env (h @ [a]) as)"

lemma attempt_append:
  "attempt env h (as @ bs) = (case attempt env h as of (True, h') \<Rightarrow> attempt env h' bs | (False, h') \<Rightarrow> (False, h'))"
  by (induction env h as rule: attempt.induct) auto

lemma attempt_True: "attempt env h as = (True, h') \<Longrightarrow> h' = h @ as"
  by (induction env h as rule: attempt.induct) (auto split: if_splits)

lemma attempt_False: "attempt env h as = (False, h') \<Longrightarrow> prefix h' (h @ as)"
  by (induction env h as rule: attempt.induct) (auto split: if_splits)

lemma attempt_ok: "(\<And>h a. env h a = 0) \<Longrightarrow> attempt env h as = (True, h @ as)"
proof (induction as arbitrary: h)
  case (Cons a as)
  have "\<not> fails a 0"
    by (cases a) auto
  then show ?case
    using Cons by simp
qed simp

lemma attempt_cases:
  obtains (all) "attempt env h as = (True, h @ as)" | (failed) h' where "attempt env h as = (False, h')"
proof -
  obtain b h' where run: "attempt env h as = (b, h')"
    by fastforce
  show thesis
  proof (cases b)
    case True
    then show thesis
      using all run attempt_True by metis
  qed (use failed run in simp)
qed

text \<open>A script runs its commands to the first that fails and then throws; otherwise it yields its clean-ups.\<close>

lemma run_script_outcome:
  "case attempt env (log s) (commands cs) of
     (True, h) \<Rightarrow> run_script env cs s = (Ret (undos cs), s\<lparr>log := h\<rparr>)
   | (False, h) \<Rightarrow> \<exists>e. run_script env cs s = (Throw e, s\<lparr>log := h\<rparr>)"
proof (induction cs arbitrary: s)
  case (Cons c cs)
  obtain a u where c: "c = (a, u)" by (cases c)
  let ?s = "s\<lparr>log := log s @ [System a]\<rparr>"
  show ?case
  proof (cases "env (log s) (System a) = 0")
    case False
    then show ?thesis
      by (simp add: c annotated_system_def bind_em_def perform_def lift_em_def)
  next
    case True
    then have "run_script env (c # cs) s =
        bind_em (run_script env cs) (\<lambda>us. ret_em (case u of None \<Rightarrow> us | Some a \<Rightarrow> a # us)) ?s"
      by (simp add: c annotated_system_def bind_em_def perform_def ret_em_def)
    then show ?thesis
      using Cons.IH[of ?s] True c by (cases u) (auto simp: bind_em_def ret_em_def split: prod.splits bool.splits)
  qed
qed (simp add: ret_em_def)

lemma run_script_append:
  "run_script env (cs @ cs') =
     bind_em (run_script env cs) (\<lambda>us. bind_em (run_script env cs') (\<lambda>us'. ret_em (us @ us')))"
proof (induction cs)
  case (Cons c cs)
  obtain a u where c: "c = (a, u)" by (cases c)
  show ?case
    unfolding c append_Cons run_script.simps Cons.IH
    by (simp add: bind_em_assoc) (cases u; simp)
qed simp

section \<open>The scripts of the roles\<close>

definition in_ns :: "string \<Rightarrow> string \<Rightarrow> string" where
  "in_ns n c = ''ip netns exec nonsense:'' @ n @ '' ip '' @ c"

definition interfaces_script :: "string \<Rightarrow> (string \<times> action option) list" where
  "interfaces_script name =
     [(''ip link add nu-'' @ name @ '' type veth peer nd-'' @ name, Some (System (''ip link del nu-'' @ name))),
      (''ip link set nu-'' @ name @ '' up'', None)]"

definition bridge_script :: "string \<Rightarrow> (string \<times> action option) list" where
  "bridge_script name =
     [(''ip link add nb-'' @ name @ '' type bridge'', Some (System (''ip link del nb-'' @ name))),
      (''ip link set nb-'' @ name @ '' up'', None),
      (''ip link set nu-'' @ name @ '' master nb-'' @ name, None)]"

definition move_script :: "string \<Rightarrow> string \<Rightarrow> (string \<times> action option) list" where
  "move_script name u =
     [(''ip link set nd-'' @ name @ '' netns nonsense:'' @ u,
       Some (System (in_ns u (''link set nd-'' @ name @ '' netns nonsense:'' @ name))))]"

text \<open>A route to \<open>net\<close> in the namespace above each switch on the way up.\<close>

definition routes_script :: "string \<Rightarrow> (string \<times> string) list \<Rightarrow> (string \<times> action option) list" where
  "routes_script net hops =
     map (\<lambda>(n, via). (in_ns n (''route add '' @ net @ '' via '' @ via),
                      Some (System (in_ns n (''route del '' @ net))))) hops"

definition link_up_script :: "string \<Rightarrow> string \<Rightarrow> (string \<times> action option) list" where
  "link_up_script name u =
     [(in_ns u (''link set nd-'' @ name @ '' up''),
       Some (System (in_ns u (''link set nd-'' @ name @ '' down''))))]"

definition address_script :: "string \<Rightarrow> string \<Rightarrow> string \<Rightarrow> (string \<times> action option) list" where
  "address_script addr dev gateway =
     [(''ip addr add '' @ addr @ '' dev '' @ dev, Some (System (''ip addr del '' @ addr @ '' dev '' @ dev))),
      (''ip route add default via '' @ gateway, Some (System ''ip route del default''))]"

text \<open>A switch on the network \<open>p.d/24\<close> below \<open>u\<close>.\<close>

definition switch_script :: "string \<Rightarrow> string \<Rightarrow> string \<Rightarrow> string \<Rightarrow> (string \<times> string) list \<Rightarrow>
    (string \<times> action option) list" where
  "switch_script name u p d hops =
     [(in_ns u (''addr add '' @ p @ ''.1/24 dev nd-'' @ name),
       Some (System (in_ns u (''addr del '' @ p @ ''.1/24 dev nd-'' @ name))))]
     @ routes_script (p @ ''.'' @ d @ ''/24'') hops
     @ link_up_script name u @ address_script (p @ ''.2/24'') (''nb-'' @ name) (p @ ''.1'')"

text \<open>A client below the switch \<open>u\<close>, whose network is \<open>p.d/24\<close>.\<close>

definition client_script :: "string \<Rightarrow> string \<Rightarrow> string \<Rightarrow> (string \<times> action option) list" where
  "client_script name u p =
     [(in_ns u (''link set nd-'' @ name @ '' master nb-'' @ u), None)]
     @ link_up_script name u @ address_script (p @ ''.3/24'') (''nu-'' @ name) (p @ ''.1'')"

lemmas script_defs = interfaces_script_def bridge_script_def move_script_def link_up_script_def
  address_script_def switch_script_def client_script_def in_ns_def

section \<open>Network components as the daemon sends them\<close>

definition network_parts :: "string \<Rightarrow> string \<Rightarrow> bool" where
  "network_parts p d \<longleftrightarrow> CHR ''/'' \<notin> set p \<and> CHR ''/'' \<notin> set d \<and> CHR ''.'' \<notin> set d"

text \<open>
  The switches above a component: each names its own uplink, has an address \<open>p.d/24\<close>, and is
  reached in the namespace of its uplink at \<open>p.2\<close>. The chain ends at a component of another role.
\<close>

inductive uplink_chain :: "json \<Rightarrow> (string \<times> string) list \<Rightarrow> bool" where
  chain_end: "map_of m ''role'' = Some (JString r) \<Longrightarrow> r \<noteq> ''switch'' \<Longrightarrow> uplink_chain (JObject m) []"
| chain_hop: "map_wf m \<Longrightarrow> map_of m ''role'' = Some (JString ''switch'') \<Longrightarrow>
    map_of m '':uplink-name'' = Some (JString n) \<Longrightarrow>
    map_of m ''address'' = Some (JString (p @ ''.'' @ d @ ''/24'')) \<Longrightarrow> network_parts p d \<Longrightarrow>
    map_of m ''uplink'' = Some u \<Longrightarrow> uplink_chain u hops \<Longrightarrow>
    uplink_chain (JObject m) ((n, p @ ''.2'') # hops)"

definition switch_component :: "json \<Rightarrow> string \<Rightarrow> string \<Rightarrow> string \<Rightarrow> (string \<times> string) list \<Rightarrow> bool" where
  "switch_component j u p d hops \<longleftrightarrow>
     (\<exists>m up. j = JObject m \<and> map_wf m \<and> map_of m ''role'' = Some (JString ''switch'') \<and>
        map_of m '':uplink-name'' = Some (JString u) \<and>
        map_of m ''address'' = Some (JString (p @ ''.'' @ d @ ''/24'')) \<and> network_parts p d \<and>
        map_of m ''uplink'' = Some up \<and> uplink_chain up hops)"

definition client_component :: "json \<Rightarrow> string \<Rightarrow> string \<Rightarrow> string \<Rightarrow> bool" where
  "client_component j u p d \<longleftrightarrow>
     (\<exists>m up. j = JObject m \<and> map_wf m \<and> map_of m ''role'' = Some (JString ''client'') \<and>
        map_of m '':uplink-name'' = Some (JString u) \<and> map_of m ''uplink'' = Some (JObject up) \<and>
        map_of up ''address'' = Some (JString (p @ ''.'' @ d @ ''/24'')) \<and> network_parts p d)"

lemma get_member_present: "json_find k j = Some (JString s) \<Longrightarrow> get_member k j = Ret (j, s)"
  by (simp add: get_member_def)

lemma show_dec_small: "show_dec (Suc 0) = ''1''" "show_dec 2 = ''2''" "show_dec 3 = ''3''"
  by code_simp+

lemma nth_address_parts:
  "network_parts p d \<Longrightarrow> nth_address_in_subnet (p @ ''.'' @ d @ ''/24'') n b =
     Ret (p @ ''.'' @ show_dec n @ (if b then ''/24'' else ''''))"
  by (rule nth_address) (auto simp: network_parts_def)

lemma json_put_present: "map_wf m \<Longrightarrow> map_of m k = Some v \<Longrightarrow> json_put [k] v (JObject m) = JObject m"
  by simp

lemma setup_interfaces_script:
  "setup_interfaces env =
     bind_em (get_em entity_id) (\<lambda>name. bind_em (run_script env (interfaces_script name)) add_cleanups)"
  by (simp add: setup_interfaces_def interfaces_script_def bind_em_assoc)

lemma setup_bridge_script:
  "setup_bridge env =
     bind_em (get_em entity_id) (\<lambda>name. bind_em (run_script env (bridge_script name)) add_cleanups)"
  by (simp add: setup_bridge_def bridge_script_def bind_em_assoc)

lemma uplink_routes_script:
  "uplink_chain u hops \<Longrightarrow>
     uplink_routes env net u clean s =
       bind_em (run_script env (routes_script net hops)) (\<lambda>us. ret_em (u, clean @ us)) s"
proof (induction arbitrary: clean s rule: uplink_chain.induct)
  case (chain_end m r)
  then show ?case
    by (simp add: uplink_routes.simps[of _ _ "JObject m"] uplink_route_def routes_script_def bind_em_def ret_em_def)
next
  case (chain_hop m n p d u hops)
  let ?add = "in_ns n (''route add '' @ net @ '' via '' @ p @ ''.2'')"
  let ?del = "System (in_ns n (''route del '' @ net))"
  have route: "uplink_route env net (JObject m) clean =
      bind_em (annotated_system env ?add) (\<lambda>_. ret_em (JObject m, Some (u, clean @ [?del])))"
    using chain_hop(1-6) nth_address_parts[OF chain_hop(5)]
    by (simp add: uplink_route_def get_member_present show_dec_small in_ns_def)
  have put: "json_put [''uplink''] u (JObject m) = JObject m"
    by (rule json_put_present[OF chain_hop(1,6)])
  show ?case
  proof (cases "annotated_system env ?add s")
    case (Pair r s')
    then show ?thesis
      using put by (subst uplink_routes.simps)
        (cases r; auto simp: route bind_em_def routes_script_def chain_hop.IH ret_em_def
          simp del: json_put.simps split: prod.splits res.splits)
  qed
qed

lemma connect_switch_script:
  assumes "json_find ''address'' cmp = Some (JString (p @ ''.'' @ d @ ''/24''))" "network_parts p d"
    and "json_find ''uplink'' cmp = Some up" "uplink_chain up hops" "cmp = JObject m" "map_wf m"
  shows "connect_switch env name u cmp clean =
    bind_em (run_script env (switch_script name u p d hops)) (\<lambda>us. ret_em (cmp, clean @ us))"
proof -
  have put: "json_put [''uplink''] up cmp = cmp"
    using json_put_present[OF assms(6)] assms(3,5) by simp
  have routes: "uplink_routes env net up cl =
      bind_em (run_script env (routes_script net hops)) (\<lambda>us. ret_em (up, cl @ us))" for net cl
    by (rule ext) (rule uplink_routes_script[OF assms(4)])
  show ?thesis
    unfolding connect_switch_def get_member_present[OF assms(1)]
    using assms(3) put nth_address_parts[OF assms(2)]
    by (simp add: routes bind_em_assoc run_script_append switch_script_def link_up_script_def
        address_script_def in_ns_def show_dec_small del: json_put.simps)
qed

lemma connect_other_script:
  assumes "json_find ''uplink'' cmp = Some up" "json_find ''address'' up = Some (JString (p @ ''.'' @ d @ ''/24''))"
    and "network_parts p d" "cmp = JObject m" "map_wf m"
  shows "connect_other env name u cmp clean =
    bind_em (run_script env (client_script name u p)) (\<lambda>us. ret_em (cmp, clean @ us))"
proof -
  have put: "json_put [''uplink''] up cmp = cmp"
    using json_put_present[OF assms(5)] assms(1,4) by simp
  show ?thesis
    unfolding connect_other_def
    using assms(1) put nth_address_parts[OF assms(3)] get_member_present[OF assms(2)]
    by (simp add: bind_em_assoc client_script_def link_up_script_def
        address_script_def in_ns_def show_dec_small del: json_put.simps)
qed

section \<open>Setting up a network runs its scripts\<close>

fun run_stages :: "env \<Rightarrow> (string \<times> action option) list list \<Rightarrow> unit em" where
  "run_stages env [] = ret_em ()"
| "run_stages env (cs # css) =
     bind_em (run_script env cs) (\<lambda>us. bind_em (add_cleanups us) (\<lambda>_. run_stages env css))"

definition run_network :: "env \<Rightarrow> (string \<times> action option) list list \<Rightarrow> (string \<times> action option) list \<Rightarrow>
    unit em" where
  "run_network env css conn =
     bind_em (run_stages env css) (\<lambda>_. bind_em (run_script env conn) add_connection_cleanups)"

lemma get_em_bind [simp]: "bind_em (get_em f) g s = g (f s) s"
  by (simp add: bind_em_def get_em_def)

text \<open>Running commands touches the log only; adding clean-ups keeps the name and the component.\<close>

lemma run_script_frame:
  "run_script env cs s = (r, s') \<Longrightarrow> entity_id s' = entity_id s \<and> current s' = current s"
  using run_script_outcome[of env cs s] by (auto split: prod.splits bool.splits)

lemma bind_em_congI:
  "(\<And>x s'. m s = (Ret x, s') \<Longrightarrow> f x s' = g x s') \<Longrightarrow> bind_em m f s = bind_em m g s"
  by (auto simp: bind_em_def split: prod.splits res.splits)

lemma modify_current: "current s = Some j \<Longrightarrow> bind_em (modify_em (\<lambda>s. s\<lparr>current := Some j\<rparr>)) f s = f () s"
  by (cases s) (simp add: bind_em_def modify_em_def)

lemma connect_switch_runs:
  assumes "switch_component j u p d hops" "current s = Some j" "entity_id s = name"
  shows "connect env s =
    bind_em (run_script env (move_script name u @ switch_script name u p d hops)) add_connection_cleanups s"
proof -
  obtain m up where m: "j = JObject m" "map_wf m" "map_of m ''role'' = Some (JString ''switch'')"
      "map_of m '':uplink-name'' = Some (JString u)" "network_parts p d"
      "map_of m ''address'' = Some (JString (p @ ''.'' @ d @ ''/24''))" "map_of m ''uplink'' = Some up"
      "uplink_chain up hops"
    using assms(1) by (auto simp: switch_component_def)
  have sw: "connect_switch env name u j clean =
      bind_em (run_script env (switch_script name u p d hops)) (\<lambda>us. ret_em (j, clean @ us))" for clean
    by (rule connect_switch_script[where m = m]) (use m in auto)
  have un: "get_member '':uplink-name'' j = Ret (j, u)"
    by (rule get_member_present) (use m in simp)
  have "connect env s =
      bind_em (run_script env (move_script name u @ switch_script name u p d hops))
        (\<lambda>us. bind_em (modify_em (\<lambda>s. s\<lparr>current := Some j\<rparr>)) (\<lambda>_. add_connection_cleanups us)) s"
    using assms(2,3) m(1,3) sw un
    by (simp add: connect_def Let_def run_script_append move_script_def bind_em_assoc in_ns_def)
  also have "\<dots> = bind_em (run_script env (move_script name u @ switch_script name u p d hops))
      add_connection_cleanups s"
    by (rule bind_em_congI) (use run_script_frame assms(2) in \<open>simp add: modify_current\<close>)
  finally show ?thesis .
qed

lemma connect_client_runs:
  assumes "client_component j u p d" "current s = Some j" "entity_id s = name"
  shows "connect env s =
    bind_em (run_script env (move_script name u @ client_script name u p)) add_connection_cleanups s"
proof -
  obtain m up where m: "j = JObject m" "map_wf m" "map_of m ''role'' = Some (JString ''client'')"
      "map_of m '':uplink-name'' = Some (JString u)" "network_parts p d"
      "map_of up ''address'' = Some (JString (p @ ''.'' @ d @ ''/24''))"
      "map_of m ''uplink'' = Some (JObject up)"
    using assms(1) by (auto simp: client_component_def)
  have ot: "connect_other env name u j clean =
      bind_em (run_script env (client_script name u p)) (\<lambda>us. ret_em (j, clean @ us))" for clean
    by (rule connect_other_script[where m = m and up = "JObject up" and d = d]) (use m in auto)
  have un: "get_member '':uplink-name'' j = Ret (j, u)"
    by (rule get_member_present) (use m in simp)
  have "connect env s =
      bind_em (run_script env (move_script name u @ client_script name u p))
        (\<lambda>us. bind_em (modify_em (\<lambda>s. s\<lparr>current := Some j\<rparr>)) (\<lambda>_. add_connection_cleanups us)) s"
    using assms(2,3) m(1,3) ot un
    by (simp add: connect_def Let_def run_script_append move_script_def bind_em_assoc in_ns_def)
  also have "\<dots> = bind_em (run_script env (move_script name u @ client_script name u p))
      add_connection_cleanups s"
    by (rule bind_em_congI) (use run_script_frame assms(2) in \<open>simp add: modify_current\<close>)
  finally show ?thesis .
qed

lemma add_cleanups_bind [simp]:
  "bind_em (add_cleanups us) f s = f () (s\<lparr>cleanups := cleanups s @ us\<rparr>)"
  by (simp add: add_cleanups_def bind_em_def modify_em_def)

lemma setup_stage:
  assumes "\<And>s'. entity_id s' = entity_id s \<Longrightarrow> current s' = current s \<Longrightarrow> f s' = g s'"
  shows "bind_em (bind_em (run_script env cs) add_cleanups) (\<lambda>_. f) s =
    bind_em (run_script env cs) (\<lambda>us. bind_em (add_cleanups us) (\<lambda>_. g)) s"
  unfolding bind_em_assoc
  by (rule bind_em_congI) (use run_script_frame assms in auto)

lemma setup_switch_runs:
  assumes "switch_component j u p d hops" "current s = Some j" "entity_id s = name"
  shows "setup_role env Switch s =
    run_network env [interfaces_script name, bridge_script name]
      (move_script name u @ switch_script name u p d hops) s"
proof -
  have conn: "connect env s' =
      bind_em (run_script env (move_script name u @ switch_script name u p d hops)) add_connection_cleanups s'"
    if "entity_id s' = name" "current s' = Some j" for s'
    using connect_switch_runs[OF assms(1)] that by blast
  have bridge: "bind_em (setup_bridge env) (\<lambda>_. connect env) s' =
      bind_em (run_script env (bridge_script name)) (\<lambda>us. bind_em (add_cleanups us) (\<lambda>_.
        bind_em (run_script env (move_script name u @ switch_script name u p d hops)) add_connection_cleanups)) s'"
    if "entity_id s' = name" "current s' = Some j" for s'
    using setup_stage[of s' "connect env" _ env "bridge_script name"] conn that
    by (simp add: setup_bridge_script bind_em_assoc)
  show ?thesis
    using setup_stage[of s "bind_em (setup_bridge env) (\<lambda>_. connect env)" _ env "interfaces_script name"] bridge assms(2,3)
    by (simp add: setup_role_def setup_interfaces_script run_network_def bind_em_assoc)
qed

lemma setup_client_runs:
  assumes "client_component j u p d" "current s = Some j" "entity_id s = name"
  shows "setup_role env Client s =
    run_network env [interfaces_script name] (move_script name u @ client_script name u p) s"
proof -
  have conn: "connect env s' =
      bind_em (run_script env (move_script name u @ client_script name u p)) add_connection_cleanups s'"
    if "entity_id s' = name" "current s' = Some j" for s'
    using connect_client_runs[OF assms(1)] that by blast
  show ?thesis
    using setup_stage[of s "connect env" _ env "interfaces_script name"] conn assms(2,3)
    by (simp add: setup_role_def setup_interfaces_script run_network_def bind_em_assoc)
qed

section \<open>Outcomes\<close>

definition all_commands :: "(string \<times> action option) list list \<Rightarrow> (string \<times> action option) list \<Rightarrow> action list" where
  "all_commands css conn = commands (concat css @ conn)"

lemma run_stages_outcome:
  "case attempt env (log s) (commands (concat css)) of
     (True, h) \<Rightarrow> run_stages env css s = (Ret (), s\<lparr>log := h, cleanups := cleanups s @ undos (concat css)\<rparr>)
   | (False, h) \<Rightarrow> \<exists>e s'. run_stages env css s = (Throw e, s') \<and> log s' = h"
proof (induction css arbitrary: s)
  case (Cons cs css)
  show ?case
  proof (cases rule: attempt_cases[of env "log s" "commands cs"])
    case all
    let ?s = "s\<lparr>log := log s @ commands cs, cleanups := cleanups s @ undos cs\<rparr>"
    have "run_stages env (cs # css) s = run_stages env css ?s"
      using run_script_outcome[of env cs s] all by (simp add: bind_em_def[of "run_script env cs"])
    then show ?thesis
      using Cons.IH[of ?s] all by (auto simp: attempt_append split: prod.splits bool.splits)
  next
    case (failed h)
    then show ?thesis
      using run_script_outcome[of env cs s] by (auto simp: attempt_append bind_em_def)
  qed
qed (simp add: ret_em_def)

lemma run_network_outcome:
  "case attempt env (log s) (all_commands css conn) of
     (True, h) \<Rightarrow> run_network env css conn s =
       (Ret (), s\<lparr>log := h, cleanups := cleanups s @ undos (concat css),
                  connection_cleanups := connection_cleanups s @ undos conn\<rparr>)
   | (False, h) \<Rightarrow> \<exists>e s'. run_network env css conn s = (Throw e, s') \<and> log s' = h"
proof (cases rule: attempt_cases[of env "log s" "commands (concat css)"])
  case all
  let ?s = "s\<lparr>log := log s @ commands (concat css), cleanups := cleanups s @ undos (concat css)\<rparr>"
  have run: "run_network env css conn s = bind_em (run_script env conn) add_connection_cleanups ?s"
    using run_stages_outcome[of env css s] all by (simp add: run_network_def bind_em_def[of "run_stages env css"])
  show ?thesis
    using run_script_outcome[of env conn ?s] run all
    by (auto simp: all_commands_def attempt_append bind_em_def add_connection_cleanups_def modify_em_def
        split: prod.splits bool.splits)
next
  case (failed h)
  then show ?thesis
    using run_stages_outcome[of env css s]
    by (auto simp: run_network_def all_commands_def attempt_append bind_em_def)
qed

lemma perform_all_log:
  "perform_all env as s = (Ret (), s\<lparr>log := log s @ as\<rparr>)"
  by (induction as arbitrary: s) (auto simp: ret_em_def bind_em_def perform_def)

lemma shutdown_log:
  "shutdown env s = (Ret (), s\<lparr>log := log s @ rev (cleanups s @ connection_cleanups s),
     cleanups := [], connection_cleanups := []\<rparr>)"
  by (simp add: shutdown_def run_cleanups_def run_connection_cleanups_def bind_em_def get_em_def
      perform_all_log modify_em_def)

section \<open>Adding the network component\<close>

definition netns_path :: "string \<Rightarrow> string" where
  "netns_path name = ''/var/run/netns/nonsense:'' @ name"

text \<open>What is done before the interfaces are set up, for a component with a namespace of its own.\<close>

definition namespace_actions :: "string \<Rightarrow> action list" where
  "namespace_actions name =
     [Unshare, CreateDirectories ''/var/run/netns'', Umount (netns_path name), OpenCreate (netns_path name),
      BindMount (netns_path name)]"

definition own_namespace :: "json \<Rightarrow> bool" where
  "own_namespace j \<longleftrightarrow> json_find ''external'' j = None \<and> json_find ''default'' j = None"

definition in_namespace :: "string \<Rightarrow> json \<Rightarrow> entityd \<Rightarrow> entityd" where
  "in_namespace name j s =
     s\<lparr>current := Some j, log := log s @ namespace_actions name, cleanups := cleanups s @ [Umount (netns_path name)]\<rparr>"

lemma publish_outcome:
  assumes "entity_id s = name"
  shows "case attempt env (log s) (tl (namespace_actions name)) of
      (True, h) \<Rightarrow> publish_namespace env s =
        (Ret (), s\<lparr>log := h, cleanups := cleanups s @ [Umount (netns_path name)]\<rparr>)
    | (False, h) \<Rightarrow> \<exists>r s'. publish_namespace env s = (r, s') \<and> r \<noteq> Ret () \<and> log s' = h"
  using assms
  by (auto simp: publish_namespace_def netns_path_def namespace_actions_def bind_em_def get_em_def perform_def
      lift_em_def assert_em_def ret_em_def add_cleanups_def modify_em_def Let_def)

lemma null_member:
  assumes "is_object j" "json_find k j = None"
  obtains j' where "json_subscript k j = Ret (j', JNull)" "is_object j'"
    "\<And>k'. k' \<noteq> k \<Longrightarrow> json_find k' j' = json_find k' j"
  using assms by (cases j) auto

lemma add_network_body_eq:
  assumes "json_find ''role'' j = Some (JString r)" "map_of known_network_roles r = Some re"
    and "own_namespace j" "current s = None" "s' = s\<lparr>current := Some j, log := log s @ [Unshare]\<rparr>"
  shows "add_network_body env j s =
      (if env (log s) Unshare = 0
       then bind_em (publish_namespace env) (\<lambda>_. setup_role env re) s' else (Abort, s'))"
proof -
  have obj: "is_object j"
    using assms(1) by (cases j) auto
  obtain j1 where j1: "json_subscript ''external'' j = Ret (j1, JNull)" "is_object j1"
      "\<And>k'. k' \<noteq> ''external'' \<Longrightarrow> json_find k' j1 = json_find k' j"
    by (rule null_member[OF obj]) (use assms(3) in \<open>auto simp: own_namespace_def\<close>)
  obtain j2 where j2: "json_subscript ''default'' j1 = Ret (j2, JNull)"
    by (rule null_member[OF j1(2), of "''default''"]) (use assms(3) j1(3) in \<open>auto simp: own_namespace_def\<close>)
  show ?thesis
    using assms j1(1) j2 get_member_present[OF assms(1)]
    by (simp add: add_network_body_def enter_namespace_def member_bool_def bind_em_def[of "modify_em _"]
        modify_em_def bind_em_assoc) (simp add: bind_em_def perform_def assert_em_def lift_em_def)
qed

lemma add_network_body_enters:
  assumes "json_find ''role'' j = Some (JString r)" "map_of known_network_roles r = Some re"
    and "own_namespace j" "current s = None" "entity_id s = name"
  shows "case attempt env (log s) (namespace_actions name) of
      (True, h) \<Rightarrow> add_network_body env j s = setup_role env re (in_namespace name j s)
    | (False, h) \<Rightarrow> \<exists>r s'. add_network_body env j s = (r, s') \<and> r \<noteq> Ret () \<and> log s' = h"
proof -
  let ?t = "s\<lparr>current := Some j, log := log s @ [Unshare]\<rparr>"
  note body = add_network_body_eq[OF assms(1-4) refl, of env]
  have ns: "namespace_actions name = Unshare # tl (namespace_actions name)"
    by (simp add: namespace_actions_def)
  have "entity_id ?t = name"
    using assms(5) by simp
  note pub = publish_outcome[OF this, of env]
  show ?thesis
  proof (cases "env (log s) Unshare = 0")
    case False
    then show ?thesis
      using body by (simp add: namespace_actions_def)
  next
    case True
    then have split: "attempt env (log s) (namespace_actions name) = attempt env (log ?t) (tl (namespace_actions name))"
      by (subst ns) simp
    show ?thesis
    proof (cases rule: attempt_cases[of env "log ?t" "tl (namespace_actions name)"])
      case all
      then show ?thesis
        using pub body True split by (simp add: bind_em_def in_namespace_def namespace_actions_def)
    next
      case (failed h)
      then obtain r s' where "publish_namespace env ?t = (r, s')" "r \<noteq> Ret ()" "log s' = h"
        using pub by auto
      then show ?thesis
        using body True split failed by (cases r) (auto simp: bind_em_def)
    qed
  qed
qed

section \<open>Properties\<close>

text \<open>What is done when the set-up of a network succeeds, and undone at shutdown.\<close>

definition up_log :: "string \<Rightarrow> (string \<times> action option) list list \<Rightarrow> (string \<times> action option) list \<Rightarrow>
    action list" where
  "up_log name css conn = namespace_actions name @ all_commands css conn"

definition down_log :: "string \<Rightarrow> (string \<times> action option) list list \<Rightarrow> (string \<times> action option) list \<Rightarrow>
    action list" where
  "down_log name css conn = rev (Umount (netns_path name) # undos (concat css @ conn))"

text \<open>
  The actions are done in order. If none fails, the component is active, and shutdown undoes the actions.
  Otherwise the process ends with the first that fails: nothing is done after it, and nothing is undone.
\<close>

definition all_or_abort :: "env \<Rightarrow> string \<Rightarrow> json \<Rightarrow> (string \<times> action option) list list \<Rightarrow>
    (string \<times> action option) list \<Rightarrow> bool" where
  "all_or_abort env name j css conn \<longleftrightarrow>
     (case attempt env [] (up_log name css conn) of
        (True, h) \<Rightarrow> \<exists>s. add_network env j (entityd_start name) = (Ret (), s) \<and> current s = Some j \<and>
          log s = up_log name css conn \<and> log (snd (shutdown env s)) = up_log name css conn @ down_log name css conn
      | (False, h) \<Rightarrow> \<exists>s. add_network env j (entityd_start name) = (Abort, s) \<and> log s = h)"

lemma add_network_fails:
  "add_network_body env j s = (r, s') \<Longrightarrow> r \<noteq> Ret () \<Longrightarrow> \<exists>t. add_network env j s = (Abort, t) \<and> log t = log s'"
  by (cases r) (auto simp: add_network_def)

lemma network_up_and_down:
  assumes role: "json_find ''role'' j = Some (JString r)" "map_of known_network_roles r = Some re"
    and "own_namespace j"
    and runs: "\<And>s. current s = Some j \<Longrightarrow> entity_id s = name \<Longrightarrow>
      setup_role env re s = run_network env css conn s"
  shows "all_or_abort env name j css conn"
proof -
  let ?start = "entityd_start name"
  let ?t = "in_namespace name j ?start"
  have start: "current ?start = None" "entity_id ?start = name" "log ?start = []"
    by (simp_all add: entityd_start_def)
  have t: "current ?t = Some j" "entity_id ?t = name" "log ?t = namespace_actions name"
      "cleanups ?t = [Umount (netns_path name)]" "connection_cleanups ?t = []"
    by (simp_all add: in_namespace_def entityd_start_def)
  note enters = add_network_body_enters[OF role assms(3) start(1,2), of env, unfolded start(3)]
  show ?thesis
  proof (cases rule: attempt_cases[of env "[]" "namespace_actions name"])
    case (failed h)
    then obtain r s' where "add_network_body env j ?start = (r, s')" "r \<noteq> Ret ()" "log s' = h"
      using enters by auto
    then show ?thesis
      using failed add_network_fails[of env j ?start r s'] by (simp add: all_or_abort_def up_log_def attempt_append)
  next
    case ns: all
    then have body: "add_network_body env j ?start = run_network env css conn ?t"
      using enters runs[OF t(1,2)] by simp
    note net = run_network_outcome[of env css conn ?t, unfolded t]
    show ?thesis
    proof (cases rule: attempt_cases[of env "namespace_actions name" "all_commands css conn"])
      case all
      then show ?thesis
        using ns body net t
        by (simp add: all_or_abort_def add_network_def up_log_def down_log_def attempt_append shutdown_log)
    next
      case (failed h)
      then obtain e s' where "run_network env css conn ?t = (Throw e, s')" "log s' = h"
        using net by auto
      then show ?thesis
        using ns body failed by (simp add: all_or_abort_def add_network_def up_log_def attempt_append)
    qed
  qed
qed

lemma switch_all_or_abort:
  assumes "switch_component j u p d hops" "own_namespace j"
  shows "all_or_abort env name j [interfaces_script name, bridge_script name]
    (move_script name u @ switch_script name u p d hops)"
proof (rule network_up_and_down)
  show "json_find ''role'' j = Some (JString ''switch'')"
    using assms(1) by (auto simp: switch_component_def)
  show "map_of known_network_roles ''switch'' = Some Switch"
    by simp
qed (use assms setup_switch_runs in auto)

lemma client_all_or_abort:
  assumes "client_component j u p d" "own_namespace j"
  shows "all_or_abort env name j [interfaces_script name] (move_script name u @ client_script name u p)"
proof (rule network_up_and_down)
  show "json_find ''role'' j = Some (JString ''client'')"
    using assms(1) by (auto simp: client_component_def)
  show "map_of known_network_roles ''client'' = Some Client"
    by simp
qed (use assms setup_client_runs in auto)

text \<open>
  For a network \<open>p.d/24\<close> the n-th address keeps the prefix and replaces the last octet, with
  or without the mask.
\<close>

theorem nth_address_replaces_last_octet:
  assumes "CHR ''/'' \<notin> set p" "CHR ''/'' \<notin> set d" "CHR ''.'' \<notin> set d"
  shows "nth_address_in_subnet (p @ ''.'' @ d @ ''/24'') n include_mask =
    Ret (p @ ''.'' @ show_dec n @ (if include_mask then ''/24'' else ''''))"
  by (rule nth_address[OF assms])

theorem nth_address_replaces_last_octet_witness:
  "nth_address_in_subnet ''192.168.2.0/24'' 3 True = Ret ''192.168.2.3/24''"
  using nth_address_replaces_last_octet[of "''192.168.2''" "''0''" 3 True]
  by (simp add: show_dec_small)

text \<open>
  C3: setting up a switch with a namespace of its own (neither external nor the default one) below any
  chain of switches issues exactly the commands of its script, in order: a veth pair and a bridge, the
  address in the uplink's namespace, a route to the new network in every namespace above, the own
  address and the default route. If none of them fails, shutdown undoes them in exactly the reverse
  order; otherwise the process ends with the first that fails, nothing is issued after it, and there is
  no clean-up.
\<close>

theorem switch_up_and_down:
  assumes "switch_component j u p d hops" "own_namespace j"
  shows "all_or_abort env name j [interfaces_script name, bridge_script name]
    (move_script name u @ switch_script name u p d hops)"
  by (rule switch_all_or_abort[OF assms])

text \<open>
  Setting up a client below a switch issues exactly the commands of its script and shutdown undoes
  them in reverse order, or the process ends with the first that fails.
\<close>

theorem client_up_and_down:
  assumes "client_component j u p d" "own_namespace j"
  shows "all_or_abort env name j [interfaces_script name] (move_script name u @ client_script name u p)"
  by (rule client_all_or_abort[OF assms])

named_theorems keeps \<open>computations that leave the active component alone\<close>

definition keeps_current :: "'a em \<Rightarrow> bool" where
  "keeps_current m \<longleftrightarrow> (\<forall>s. current (snd (m s)) = current s)"

lemma keeps_bind [keeps]: "keeps_current m \<Longrightarrow> (\<And>x. keeps_current (f x)) \<Longrightarrow> keeps_current (bind_em m f)"
  unfolding keeps_current_def bind_em_def
  by (auto split: prod.splits res.splits) (metis snd_conv)+

lemma keeps_prim [keeps]:
  "keeps_current (ret_em x)" "keeps_current (lift_em r)" "keeps_current (perform env a)"
  "keeps_current (assert_em b)" "keeps_current (get_em f)" "keeps_current (add_cleanups us)"
  by (simp_all add: keeps_current_def ret_em_def lift_em_def perform_def assert_em_def get_em_def
      add_cleanups_def modify_em_def)

lemma keeps_if [keeps]: "keeps_current m \<Longrightarrow> keeps_current m' \<Longrightarrow> keeps_current (if b then m else m')"
  by simp

lemma keeps_enter: "keeps_current (enter_namespace env j e d)"
  unfolding enter_namespace_def by (intro keeps)

lemma keeps_publish: "keeps_current (publish_namespace env)"
  unfolding publish_namespace_def Let_def by (intro keeps)

lemma keeps_interfaces: "keeps_current (setup_interfaces env)"
  unfolding setup_interfaces_def annotated_system_def by (intro keeps)

lemma keeps_currentD: "keeps_current m \<Longrightarrow> m s = (r, s') \<Longrightarrow> current s' = current s"
  unfolding keeps_current_def by (metis snd_conv)

text \<open>
  C39: a client whose uplink has no address (a client directly below a root, which the
  configuration accepts) can never be set up: the process ends with a failed assertion, whatever
  the commands return.
\<close>

theorem client_without_switch_aborts:
  assumes "json_find ''role'' j = Some (JString ''client'')"
    and "json_find ''uplink'' j = Some (JObject up)" "map_of up ''address'' = None"
    and "current s = None"
  shows "fst (add_network env j s) = Abort"
proof -
  have con: "fst (connect env t) \<noteq> Ret ()" if cur: "current t = Some j" for t
  proof
    assume "fst (connect env t) = Ret ()"
    then obtain t' where run: "connect env t = (Ret (), t')"
      by (cases "connect env t") auto
    then obtain j1 u where j1: "get_member '':uplink-name'' j = Ret (j1, u)"
      using cur by (auto simp: connect_def)
    have obj: "is_object j" "json_find ''role'' j1 = json_find ''role'' j"
        "json_find ''uplink'' j1 = json_find ''uplink'' j"
      using get_member_keeps(2)[OF j1] assms(1) by (cases j; simp)+
    have "get_member ''address'' (JObject up) = Throw (TypeError 303
        (''incompatible ReferenceType for get_ref, actual type is '' @ type_name JNull))"
      using assms(3) by (simp add: get_member_def)
    then show False
      using run cur j1 obj(2,3) assms(1,2)
      by (auto simp: connect_def connect_other_def Let_def)
  qed
  have "fst (add_network_body env j s) \<noteq> Ret ()"
  proof
    assume "fst (add_network_body env j s) = Ret ()"
    then obtain s' where "add_network_body env j s = (Ret (), s')"
      by (cases "add_network_body env j s") auto
    then obtain a b c t1 t2 t3 where
        t: "enter_namespace env a b c (s\<lparr>current := Some j\<rparr>) = (Ret (), t1)"
        "publish_namespace env t1 = (Ret (), t2)" "setup_interfaces env t2 = (Ret (), t3)"
        "connect env t3 = (Ret (), s')"
      using assms(4) get_member_present[OF assms(1)] known_network_roles_client[THEN iffD2, OF refl]
      by (clarsimp simp: add_network_body_def setup_role_def modify_em_def)
    have "current t3 = Some j"
      using keeps_currentD[OF keeps_enter t(1)] keeps_currentD[OF keeps_publish t(2)]
        keeps_currentD[OF keeps_interfaces t(3)] by simp
    then show False
      using con[of t3] t(4) by simp
  qed
  then show ?thesis
    by (cases "add_network_body env j s"; cases "fst (add_network_body env j s)") (auto simp: add_network_def)
qed

section \<open>Witnesses\<close>

text \<open>The switch \<open>sw2\<close> below the switch \<open>sw1\<close> below \<open>root\<close>, as the daemon sends it.\<close>

definition sample_sw1 :: json where
  "sample_sw1 = JObject
     [('':uplink-name'', JString ''root''), (''address'', JString ''10.0.1.0/24''), (''role'', JString ''switch''),
      (''uplink'', JObject [(''role'', JString ''root'')])]"

definition sample_sw2 :: json where
  "sample_sw2 = JObject
     [('':uplink-name'', JString ''sw1''), (''address'', JString ''10.0.2.0/24''), (''role'', JString ''switch''),
      (''uplink'', sample_sw1)]"

definition sample_client :: json where
  "sample_client = JObject
     [('':uplink-name'', JString ''sw1''), (''role'', JString ''client''), (''uplink'', sample_sw1)]"

lemma sample_key_order:
  "'':uplink-name'' < ''address''" "'':uplink-name'' < ''role''" "'':uplink-name'' < ''uplink''"
  "''address'' < ''role''" "''address'' < ''uplink''" "''role'' < ''uplink''"
  by code_simp+

lemma sample_keys_wf:
  "map_wf [('':uplink-name'', a :: json), (''address'', b), (''role'', c), (''uplink'', d)]"
  "map_wf [('':uplink-name'', a), (''role'', c), (''uplink'', d)]"
  by (simp_all add: map_wf_def sample_key_order)

lemma sample_sw2_switch:
  "switch_component sample_sw2 ''sw1'' ''10.0.2'' ''0'' [(''root'', ''10.0.1.2'')]"
proof -
  have "uplink_chain sample_sw1 [(''root'', ''10.0.1'' @ ''.2'')]"
    unfolding sample_sw1_def
    by (rule chain_hop[where d = "''0''" and u = "JObject [(''role'', JString ''root'')]"])
      (auto simp: sample_keys_wf network_parts_def intro: chain_end)
  then show ?thesis
    by (auto simp: switch_component_def sample_sw2_def sample_keys_wf network_parts_def)
qed

theorem switch_up_and_down_witness:
  "\<exists>s. add_network (\<lambda>_ _. 0) sample_sw2 (entityd_start ''sw2'') = (Ret (), s) \<and>
     log (snd (shutdown (\<lambda>_ _. 0) s)) =
       log s @ down_log ''sw2'' [interfaces_script ''sw2'', bridge_script ''sw2'']
         (move_script ''sw2'' ''sw1'' @ switch_script ''sw2'' ''sw1'' ''10.0.2'' ''0'' [(''root'', ''10.0.1.2'')])"
  using switch_up_and_down[OF sample_sw2_switch, of "\<lambda>_ _. 0" "''sw2''"]
  by (auto simp: own_namespace_def sample_sw2_def all_or_abort_def attempt_ok)

theorem client_up_and_down_witness:
  "client_component sample_client ''sw1'' ''10.0.1'' ''0'' \<and>
   (\<exists>s. add_network (\<lambda>_ _. 0) sample_client (entityd_start ''cl'') = (Ret (), s) \<and>
     last (log s) = System ''ip route add default via 10.0.1.1'')"
proof -
  have cl: "client_component sample_client ''sw1'' ''10.0.1'' ''0''"
    by (auto simp: client_component_def sample_client_def sample_sw1_def sample_keys_wf network_parts_def)
  show ?thesis
    using client_up_and_down[OF cl, of "\<lambda>_ _. 0" "''cl''"] cl
    by (auto simp: own_namespace_def sample_client_def all_or_abort_def attempt_ok up_log_def all_commands_def
        client_script_def address_script_def)
qed

theorem client_without_switch_aborts_witness:
  "fst (add_network (\<lambda>_ _. 0) (JObject [('':uplink-name'', JString ''root''), (''role'', JString ''client''),
      (''uplink'', JObject [(''role'', JString ''root'')])]) (entityd_start ''cl'')) = Abort"
  by (rule client_without_switch_aborts[where up = "[(''role'', JString ''root'')]"])
    (auto simp: entityd_start_def)

end
