(* ===== verification/Entity_Start_Properties.thy ===== *)
theory Entity_Start_Properties
  imports Entity_Start Config_Valid Entityd_Properties
begin

text \<open>
  What \<open>Start\<close> and \<open>Stop\<close> of an entity do: the order in which a chain of uplinks is started, what is
  sent to each entity daemon, and what is left behind when something fails.
\<close>

section \<open>Running coroutines\<close>

lemma cm_run [simp]:
  "ret_cm x w = Some (Next x, w)" "get_cm g w = Some (Next (g w), w)" "modify_cm f w = Some (Next (), f w)"
  "stop_cm r w = Some (Stop r, w)" "die_cm w = Some (Died, w)"
  "perform_cm env e w = Some (Next (env (effects w) e), w\<lparr>effects := effects w @ [e]\<rparr>)"
  by (simp_all add: ret_cm_def get_cm_def modify_cm_def stop_cm_def die_cm_def perform_cm_def)

lemma bind_cm_run [simp]:
  "m w = Some (Next x, w1) \<Longrightarrow> bind_cm m f w = f x w1"
  "m w = Some (Stop r, w1) \<Longrightarrow> bind_cm m f w = Some (Stop r, w1)"
  "m w = Some (Died, w1) \<Longrightarrow> bind_cm m f w = Some (Died, w1)"
  "m w = None \<Longrightarrow> bind_cm m f w = None"
  by (simp_all add: bind_cm_def)

lemma bind_cm_cases:
  assumes "bind_cm m f w = Some (r, w')"
  obtains (go_on) x w1 where "m w = Some (Next x, w1)" "f x w1 = Some (r, w')"
  | (stopped) q where "m w = Some (Stop q, w')" "r = Stop q"
  | (died) "m w = Some (Died, w')" "r = Died"
  using assms by (auto simp: bind_cm_def split: option.splits co.splits)

lemma bind_cm_assoc: "bind_cm (bind_cm m f) g = bind_cm m (\<lambda>x. bind_cm (f x) g)"
  by (rule ext) (auto simp: bind_cm_def split: option.splits co.splits)

text \<open>
  Relations between the world before and after that every effect respects are respected by the
  coroutines built from them; with entering an entity into the table of live entities, by \<open>start\<close>.
\<close>

locale effect_relation =
  fixes R :: "string \<Rightarrow> world \<Rightarrow> world \<Rightarrow> bool"
  assumes refl [intro, simp]: "R n w w"
    and trans: "R n w w1 \<Longrightarrow> R n w1 w2 \<Longrightarrow> R n w w2"
    and perform: "R n w (w\<lparr>effects := effects w @ [e]\<rparr>)"
begin

definition resp_R :: "string \<Rightarrow> 'a cm \<Rightarrow> bool" where
  "resp_R n m \<longleftrightarrow> (\<forall>w r w'. m w = Some (r, w') \<longrightarrow> R n w w')"

lemma resp_bind: "resp_R n m \<Longrightarrow> (\<And>x. resp_R n (f x)) \<Longrightarrow> resp_R n (bind_cm m f)"
  unfolding resp_R_def by (blast elim: bind_cm_cases intro: trans)

lemma resp_prim:
  "resp_R n (ret_cm x)" "resp_R n (stop_cm q)" "resp_R n die_cm" "resp_R n (get_cm g)"
  "resp_R n (perform_cm env e)" "resp_R n (await_signal env e)"
  using perform by (auto simp: resp_R_def await_signal_def Let_def split: if_splits)

lemma resp_if: "resp_R n m \<Longrightarrow> resp_R n m' \<Longrightarrow> resp_R n (if b then m else m')"
  by simp

lemma resp_yield: "resp_R n (yield_cm c)" "resp_R n (assert_cm b)"
  by (simp_all add: yield_cm_def assert_cm_def resp_prim)

lemma resp_lift: "resp_R n (lift_cm r)"
  by (cases r) (simp_all add: lift_cm_def resp_prim)

lemma resp_call: "resp_R n (call_method env e)"
  unfolding call_method_def
  by (intro resp_bind resp_prim resp_if) (auto simp: resp_prim split: option.splits)

lemma perform_two: "R n w (w\<lparr>effects := (effects w @ [a]) @ [b]\<rparr>)"
  using trans[OF perform[of n w a] perform[of n "w\<lparr>effects := effects w @ [a]\<rparr>" b]] by simp

lemma perform_three: "R n w (w\<lparr>effects := ((effects w @ [a]) @ [b]) @ [c]\<rparr>)"
  using trans[OF perform_two[of n w a b] perform[of n "w\<lparr>effects := (effects w @ [a]) @ [b]\<rparr>" c]] by simp

lemma wait_R: "wait_ready env w = Some y \<Longrightarrow> R n w (snd y)"
proof (induction env w y rule: wait_ready.raw_induct[rotated 1, consumes 1, case_names unfold])
  case (unfold step env w y)
  note IH = unfold(1) and run = unfold(2)
  let ?w3 = "w\<lparr>effects := ((effects w @ [BusIsOpen]) @ [BusIsReady]) @ [BusProcess]\<rparr>"
  consider "y = (fst y, w\<lparr>effects := effects w @ [BusIsOpen]\<rparr>)"
    | "y = (fst y, w\<lparr>effects := (effects w @ [BusIsOpen]) @ [BusIsReady]\<rparr>)"
    | "y = (fst y, ?w3)" | "step env ?w3 = Some y"
    using run by (auto simp: Let_def split: if_splits)
  then show ?case
  proof cases
    case 4
    show ?thesis
      by (rule trans[OF perform_three IH[OF 4]])
  qed (metis snd_conv perform perform_two perform_three)+
qed

lemma resp_wait: "resp_R n (wait_ready env)"
  using wait_R by (fastforce simp: resp_R_def)

lemma resp_item: "resp_R n (item_component cfg type j)"
proof -
  have "R n w w'" if "item_component cfg type j w = Some (r, w')" for w r w'
    using that resp_lift[of n] resp_prim(1)[of n j]
    by (auto simp: item_component_def resp_R_def bind_eq_Some_conv split: if_splits)
  then show ?thesis
    by (auto simp: resp_R_def)
qed

lemmas resp_rules = resp_bind resp_prim resp_if resp_yield resp_call resp_item resp_wait

lemma resp_items: "resp_R n (add_items env name items)"
  by (induction items) (auto intro!: resp_rules simp del: cm_run)

lemma resp_unit: "resp_R n (start_unit env u scope)"
  unfolding start_unit_def by (intro resp_rules)

lemma resp_units: "resp_R n (start_units env m pid)"
  unfolding start_units_def by (intro resp_rules resp_unit)

lemma resp_slice: "resp_R n (stop_slice env m)"
  unfolding stop_slice_def by (intro resp_rules)

lemma resp_bus: "resp_R n (connect_bus env n)"
  unfolding connect_bus_def by (intro resp_rules)

end

locale entering_relation = effect_relation +
  assumes enter: "R n w (w\<lparr>live := map_set n pid (live w)\<rparr>)"
begin

lemma resp_enter: "resp_R n (modify_cm (\<lambda>w. case map_of (live w) n of
    None \<Rightarrow> w\<lparr>live := map_set n pid (live w)\<rparr> | Some _ \<Rightarrow> w))"
  using enter by (auto simp: resp_R_def modify_cm_def split: option.splits)

lemma resp_connect: "resp_R n (connect_entityd env n)"
  unfolding connect_entityd_def by (intro resp_rules resp_bus resp_enter)

lemma resp_self: "resp_R (entity_name ent) (start_self env ent)"
  unfolding start_self_def by (intro resp_rules resp_items resp_units resp_connect)

end

section \<open>Frame of a start\<close>

definition start_frame :: "string \<Rightarrow> world \<Rightarrow> world \<Rightarrow> bool" where
  "start_frame n w w' \<longleftrightarrow> conf w' = conf w \<and> held w' = held w \<and> prefix (effects w) (effects w') \<and>
     (\<forall>m. m \<noteq> n \<longrightarrow> map_of (live w') m = map_of (live w) m) \<and>
     (map_of (live w) n \<noteq> None \<longrightarrow> map_of (live w') n \<noteq> None)"

interpretation frame: entering_relation start_frame
  by unfold_locales (auto simp: start_frame_def intro: prefix_order.trans)

text \<open>A coroutine that only performs effects.\<close>

definition only_effects :: "string \<Rightarrow> world \<Rightarrow> world \<Rightarrow> bool" where
  "only_effects n w w' \<longleftrightarrow>
     conf w' = conf w \<and> held w' = held w \<and> live w' = live w \<and> prefix (effects w) (effects w')"

interpretation quiet: effect_relation only_effects
  by unfold_locales (auto simp: only_effects_def intro: prefix_order.trans)

text \<open>The steps of a start that the specification speaks about.\<close>

datatype milestone = Forked string | Sent_component string string json | Asked_shutdown string

fun milestones_of :: "effect \<Rightarrow> milestone list" where
  "milestones_of (Fork n) = [Forked n]"
| "milestones_of (AddComponentCall n type j) = [Sent_component n type j]"
| "milestones_of (ShutdownCall n) = [Asked_shutdown n]"
| "milestones_of e = []"

definition milestones :: "effect list \<Rightarrow> milestone list" where
  "milestones es = concat (map milestones_of es)"

lemma milestones_simps [simp]:
  "milestones [] = []" "milestones (e # es) = milestones_of e @ milestones es"
  "milestones (es @ es') = milestones es @ milestones es'"
  by (simp_all add: milestones_def)

section \<open>Starting on a healthy system\<close>

text \<open>Every call succeeds, the connection to an entity daemon becomes ready and jobs finish.\<close>

definition healthy :: "system \<Rightarrow> bool" where
  "healthy env \<longleftrightarrow>
     (\<forall>h e. status (env h e) \<ge> 0 \<and> failure (env h e) = None \<and> reading (env h e) \<ge> 0 \<and> flag (env h e)) \<and>
     (\<forall>h n. status (env h (Fork n)) > 0) \<and> (\<forall>h. status (env h BusIsReady) > 0) \<and>
     (\<forall>h e. (\<exists>j. e = AwaitJob j \<or> e = AwaitUnit j) \<longrightarrow> answer (env h e) = ''done'')"

lemma healthyD:
  assumes "healthy env"
  shows "status (env h e) \<ge> 0" "failure (env h e) = None" "reading (env h e) \<ge> 0" "flag (env h e)"
    "status (env h (Fork n)) > 0" "status (env h BusIsReady) > 0"
    "answer (env h (AwaitJob j)) = ''done''" "answer (env h (AwaitUnit j)) = ''done''"
  using assms unfolding healthy_def by blast+

lemma healthy_run:
  assumes "healthy env"
  shows "call_method env e w = Some (Next (env (effects w) e), w\<lparr>effects := effects w @ [e]\<rparr>)"
    "await_signal env e w = Some (Next (env (effects w) e), w\<lparr>effects := effects w @ [e]\<rparr>)"
    "yield_cm (status (env h e)) w = Some (Next (), w)" "yield_cm (reading (env h e)) w = Some (Next (), w)"
    "assert_cm (status (env h e) \<ge> 0) w = Some (Next (), w)" "assert_cm (flag (env h e)) w = Some (Next (), w)"
    "assert_cm (status (env h BusIsReady) > 0) w = Some (Next (), w)"
proof -
  have "\<not> status (env h e) < 0" "\<not> reading (env h e) < 0" for h e
    using healthyD(1,3)[OF assms] by (simp_all add: not_less)
  note ok = this healthyD[OF assms]
  show "call_method env e w = Some (Next (env (effects w) e), w\<lparr>effects := effects w @ [e]\<rparr>)"
      "await_signal env e w = Some (Next (env (effects w) e), w\<lparr>effects := effects w @ [e]\<rparr>)"
      "yield_cm (status (env h e)) w = Some (Next (), w)" "yield_cm (reading (env h e)) w = Some (Next (), w)"
      "assert_cm (status (env h e) \<ge> 0) w = Some (Next (), w)" "assert_cm (flag (env h e)) w = Some (Next (), w)"
      "assert_cm (status (env h BusIsReady) > 0) w = Some (Next (), w)"
    by (simp_all add: ok call_method_def await_signal_def yield_cm_def assert_cm_def)
qed

lemma healthy_wait:
  assumes "healthy env"
  shows "\<exists>es. wait_ready env w = Some (Next (), w\<lparr>effects := effects w @ es\<rparr>) \<and> milestones es = []"
proof -
  have "status (env h BusIsReady) \<noteq> 0" for h
    using healthyD(6)[OF assms, of h] by simp
  then have "wait_ready env w = Some (Next (), w\<lparr>effects := effects w @ [BusIsOpen]\<rparr>) \<or>
      wait_ready env w = Some (Next (), w\<lparr>effects := effects w @ [BusIsOpen, BusIsReady]\<rparr>)"
    by (subst (1 2) wait_ready.simps) (auto simp: Let_def)
  then show ?thesis
    by (elim disjE) (rule exI, rule conjI, assumption, simp)+
qed

lemma healthy_connect:
  assumes "healthy env" "map_of (live w) n = None"
  shows "\<exists>pid es. connect_entityd env n w =
      Some (Next pid, w\<lparr>live := map_set n pid (live w), effects := effects w @ es\<rparr>) \<and>
    milestones es = [Forked n]"
proof -
  define h where "h = effects w @ [SocketPair]"
  define pid where "pid = status (env h (Fork n))"
  have pid: "\<not> status (env (effects w) SocketPair) < 0" "\<not> pid < 0"
    using healthyD(1)[OF assms(1)] by (simp_all add: pid_def not_less)
  define w1 where "w1 = w\<lparr>live := map_set n pid (live w),
      effects := h @ [Fork n, BusNew, BusSetFd, BusSetClient, RegisterBus n, BusStart]\<rparr>"
  obtain es where es: "wait_ready env w1 = Some (Next (), w1\<lparr>effects := effects w1 @ es\<rparr>)" "milestones es = []"
    using healthy_wait[OF assms(1)] by blast
  have "connect_entityd env n w = Some (Next pid, w1\<lparr>effects := effects w1 @ es @ [BusIsReady]\<rparr>)"
    using pid assms(2) es(1)
    by (simp add: connect_entityd_def connect_bus_def healthy_run[OF assms(1)] h_def[symmetric] pid_def[symmetric]
        w1_def)
  then show ?thesis
    using es(2) by (intro exI[of _ pid] exI[of _ "SocketPair # Fork n # BusNew # BusSetFd # BusSetClient #
          RegisterBus n # BusStart # es @ [BusIsReady]"]) (simp add: w1_def h_def)
qed

lemma healthy_unit:
  assumes "healthy env"
  shows "\<exists>es. start_unit env u scope w = Some (Next (), w\<lparr>effects := effects w @ es\<rparr>) \<and> milestones es = []"
proof -
  let ?job = "answer (env (effects w) (StartTransientUnit u scope))"
  have "start_unit env u scope w =
      Some (Next (), w\<lparr>effects := effects w @ [StartTransientUnit u scope, AwaitJob ?job]\<rparr>)"
    by (simp add: start_unit_def healthy_run[OF assms] healthyD(7)[OF assms])
  then show ?thesis
    by (rule_tac exI, rule_tac conjI, assumption, simp)
qed

lemma healthy_units:
  assumes "healthy env"
  shows "\<exists>es. start_units env n pid w = Some (Next (), w\<lparr>effects := effects w @ es\<rparr>) \<and> milestones es = []"
proof -
  let ?w1 = "w\<lparr>effects := effects w @ [SubscribeJobRemoved]\<rparr>"
  obtain es where es: "start_unit env (slice_name n) None ?w1 = Some (Next (), ?w1\<lparr>effects := effects ?w1 @ es\<rparr>)"
      "milestones es = []"
    using healthy_unit[OF assms] by blast
  let ?w2 = "?w1\<lparr>effects := effects ?w1 @ es\<rparr>"
  obtain es' where es': "start_unit env (scope_name n) (Some (slice_name n, pid)) ?w2 =
        Some (Next (), ?w2\<lparr>effects := effects ?w2 @ es'\<rparr>)" "milestones es' = []"
    using healthy_unit[OF assms] by blast
  have "start_units env n pid w = Some (Next (), w\<lparr>effects := effects w @ (SubscribeJobRemoved # es @ es')\<rparr>)"
    using es(1) es'(1) by (simp add: start_units_def healthy_run[OF assms])
  then show ?thesis
    using es(2) es'(2) by (intro exI conjI) (assumption, simp)
qed

text \<open>The component that is sent for an item of the entity.\<close>

definition sent_form :: "config \<Rightarrow> string \<Rightarrow> json \<Rightarrow> json" where
  "sent_form cfg type j =
     (if type = ''network'' then (case deep_uplink_info cfg j of Some (Ret j') \<Rightarrow> j' | _ \<Rightarrow> j) else j)"

lemma healthy_items:
  assumes "healthy env"
    and "\<And>j. (''network'', j) \<in> set items \<Longrightarrow> \<exists>j'. deep_uplink_info (conf w) j = Some (Ret j')"
  shows "\<exists>es. add_items env n items w = Some (Next (), w\<lparr>effects := effects w @ es\<rparr>) \<and>
    milestones es = map (\<lambda>(type, j). Sent_component n type (sent_form (conf w) type j)) items"
  using assms(2)
proof (induction items arbitrary: w)
  case (Cons x items)
  obtain type j where x: "x = (type, j)"
    by (cases x)
  let ?c = "sent_form (conf w) type j"
  have "type = ''network'' \<Longrightarrow> \<exists>j'. deep_uplink_info (conf w) j = Some (Ret j')"
    using Cons.prems[of j] x by simp
  then have sent: "item_component (conf w) type j w = Some (Next ?c, w)"
    by (auto simp: item_component_def sent_form_def lift_cm_def)
  let ?w1 = "w\<lparr>effects := effects w @ [AddComponentCall n type ?c]\<rparr>"
  have "\<exists>es. add_items env n items ?w1 = Some (Next (), ?w1\<lparr>effects := effects ?w1 @ es\<rparr>) \<and>
      milestones es = map (\<lambda>(type, j). Sent_component n type (sent_form (conf ?w1) type j)) items"
    by (rule Cons.IH) (use Cons.prems in auto)
  then obtain es where es: "add_items env n items ?w1 = Some (Next (), ?w1\<lparr>effects := effects ?w1 @ es\<rparr>)"
      "milestones es = map (\<lambda>(type, j). Sent_component n type (sent_form (conf w) type j)) items"
    by auto
  have "add_items env n (x # items) w =
      Some (Next (), w\<lparr>effects := effects w @ (AddComponentCall n type ?c # es)\<rparr>)"
    using es(1) by (simp add: x sent healthy_run[OF assms(1)])
  then show ?case
    using es(2) x by (intro exI conjI) (assumption, simp)
qed (auto intro: exI[of _ "[]"])

definition start_milestones :: "config \<Rightarrow> entity \<Rightarrow> milestone list" where
  "start_milestones cfg ent =
     Forked (entity_name ent) #
     map (\<lambda>(type, j). Sent_component (entity_name ent) type (sent_form cfg type j)) (json_items (entity_self ent))"

lemma healthy_self:
  assumes "healthy env" "map_of (live w) (entity_name ent) = None"
    and "\<And>j. (''network'', j) \<in> set (json_items (entity_self ent)) \<Longrightarrow>
      \<exists>j'. deep_uplink_info (conf w) j = Some (Ret j')"
  shows "\<exists>pid es. start_self env ent w =
      Some (Next (), w\<lparr>live := map_set (entity_name ent) pid (live w), effects := effects w @ es\<rparr>) \<and>
    milestones es = start_milestones (conf w) ent"
proof -
  let ?n = "entity_name ent"
  obtain pid es1 where 1: "connect_entityd env ?n w =
      Some (Next pid, w\<lparr>live := map_set ?n pid (live w), effects := effects w @ es1\<rparr>)" "milestones es1 = [Forked ?n]"
    using healthy_connect[OF assms(1,2)] by blast
  let ?w1 = "w\<lparr>live := map_set ?n pid (live w), effects := effects w @ es1\<rparr>"
  obtain es2 where 2: "start_units env ?n pid ?w1 = Some (Next (), ?w1\<lparr>effects := effects ?w1 @ es2\<rparr>)"
      "milestones es2 = []"
    using healthy_units[OF assms(1)] by blast
  let ?w2 = "?w1\<lparr>effects := effects ?w1 @ es2\<rparr>"
  have "\<exists>es3. add_items env ?n (json_items (entity_self ent)) ?w2 =
        Some (Next (), ?w2\<lparr>effects := effects ?w2 @ es3\<rparr>) \<and>
      milestones es3 = map (\<lambda>(type, j). Sent_component ?n type (sent_form (conf ?w2) type j))
        (json_items (entity_self ent))"
    by (rule healthy_items[OF assms(1)]) (use assms(3) in auto)
  then obtain es3 where 3: "add_items env ?n (json_items (entity_self ent)) ?w2 =
        Some (Next (), ?w2\<lparr>effects := effects ?w2 @ es3\<rparr>)"
      "milestones es3 = map (\<lambda>(type, j). Sent_component ?n type (sent_form (conf w) type j))
        (json_items (entity_self ent))"
    by auto
  have "start_self env ent w =
      Some (Next (), w\<lparr>live := map_set ?n pid (live w), effects := effects w @ (es1 @ es2 @ es3)\<rparr>)"
    using 1(1) 2(1) 3(1) by (simp add: start_self_def)
  then show ?thesis
    using 1(2) 2(2) 3(2) by (intro exI conjI) (assumption, simp add: start_milestones_def)
qed

section \<open>Chains of uplinks\<close>

text \<open>The uplinks of an entity, nearest first; a cycle has no such list.\<close>

inductive uplinks :: "config \<Rightarrow> string \<Rightarrow> string list \<Rightarrow> bool" for cfg where
  top: "n \<notin> reserved_keys \<Longrightarrow> try_get cfg n = Some ent \<Longrightarrow> uplink_of (entity_self ent) = Ret None \<Longrightarrow>
    uplinks cfg n []"
| below: "n \<notin> reserved_keys \<Longrightarrow> try_get cfg n = Some ent \<Longrightarrow> uplink_of (entity_self ent) = Ret (Some u) \<Longrightarrow>
    uplinks cfg u us \<Longrightarrow> uplinks cfg n (u # us)"

inductive_cases uplinks_NilE: "uplinks cfg n []"
inductive_cases uplinks_ConsE: "uplinks cfg n (u # us)"

lemma uplinks_deterministic: "uplinks cfg n us \<Longrightarrow> uplinks cfg n vs \<Longrightarrow> us = vs"
proof (induction arbitrary: vs rule: uplinks.induct)
  case (top n ent)
  show ?case
    using top.prems by cases (use top.hyps in auto)
next
  case (below n ent u us)
  note IH = below.IH
  from below.prems show ?case
  proof cases
    case (below ent' u' us')
    then have "u' = u"
      using \<open>try_get cfg n = Some ent\<close> \<open>uplink_of (entity_self ent) = Ret (Some u)\<close> by simp
    then show ?thesis
      using below IH by simp
  qed (use below.hyps in auto)
qed

lemma uplinks_suffix: "uplinks cfg n (xs @ m # vs) \<Longrightarrow> uplinks cfg m vs"
proof (induction xs arbitrary: n)
  case Nil
  then show ?case
    by (auto elim: uplinks.cases)
next
  case (Cons x xs)
  then have "uplinks cfg x (xs @ m # vs)"
    by (auto elim: uplinks.cases)
  then show ?case
    by (rule Cons.IH)
qed

lemma uplinks_distinct: "uplinks cfg n us \<Longrightarrow> distinct (n # us)"
proof (induction rule: uplinks.induct)
  case (below n ent u us)
  have up: "uplinks cfg n (u # us)"
    by (rule uplinks.below[OF below.hyps])
  have "n \<notin> set (u # us)"
  proof
    assume "n \<in> set (u # us)"
    then obtain xs vs where split: "u # us = xs @ n # vs"
      by (meson split_list)
    then have "uplinks cfg n vs"
      using up uplinks_suffix[of cfg n xs n vs] by simp
    then have "vs = u # us"
      using up uplinks_deterministic by blast
    then show False
      using arg_cong[OF split, of length] by simp
  qed
  then show ?case
    using below.IH by simp
qed simp

lemma try_get_Some: "try_get cfg n = Some e \<longleftrightarrow>
    json_find n (configuration cfg) = Some (entity_self e) \<and> entity_name e = n"
  by (cases e) (auto simp: try_get_def split: option.splits)

lemma valid_network_of:
  assumes "valid_config (configuration cfg)" "n \<notin> reserved_keys" "try_get cfg n = Some ent"
    and "json_find ''network'' (entity_self ent) = Some net"
  shows "\<exists>m. net = JObject m \<and> map_wf m \<and> valid_network (configuration cfg) n m"
proof -
  have self: "json_find n (configuration cfg) = Some (entity_self ent)"
    using assms(3) by (simp add: try_get_Some)
  then have "valid_entity (configuration cfg) n" "wf_json (entity_self ent)"
    using assms(1,2) wf_json_find by (auto simp: valid_config_def set_obj_keys)
  then show ?thesis
    using self assms(4) wf_json_find[OF _ assms(4)]
    by (cases "entity_self ent"; cases net) (auto simp: valid_entity_def)
qed

lemma deep_uplink_top: "json_find ''uplink'' j = None \<Longrightarrow> deep_uplink_info cfg j = Some (Ret j)"
  by (subst deep_uplink_info.simps) simp

lemma deep_uplink_below:
  assumes "map_of m ''uplink'' = Some (JString u)" "try_get cfg u = Some ent"
    and "json_find ''network'' (entity_self ent) = Some net" "net \<noteq> JNull"
    and "deep_uplink_info cfg net = Some (Ret up)"
  shows "deep_uplink_info cfg (JObject m) =
    Some (Ret (JObject (map_set ''uplink'' up (map_set '':uplink-name'' (JString u) m))))"
  using assms by (subst deep_uplink_info.simps) (auto split: option.splits)

lemma uplink_of_valid:
  assumes "valid_config (configuration cfg)" "n \<notin> reserved_keys" "try_get cfg n = Some ent"
    and "uplink_of (entity_self ent) = Ret (Some u)"
  shows "\<exists>m up m'. json_find ''network'' (entity_self ent) = Some (JObject m) \<and>
    map_of m ''uplink'' = Some (JString u) \<and> try_get cfg u = Some up \<and>
    json_find ''network'' (entity_self up) = Some (JObject m') \<and> map_of m' ''role'' \<noteq> Some (JString ''client'')"
proof -
  obtain net where net: "json_find ''network'' (entity_self ent) = Some net"
    using assms(4) by (auto simp: uplink_of_def split: option.splits)
  then obtain m where m: "net = JObject m" "valid_network (configuration cfg) n m"
    using valid_network_of[OF assms(1-3)] by blast
  then obtain j where j: "map_of m ''uplink'' = Some j" "to_string j = Ret u"
    using assms(4) net by (auto simp: uplink_of_def split: option.splits)
  then have u: "j = JString u"
    by (cases j) auto
  have "uplink_ok (configuration cfg) (JString u)"
    using m(2) j(1) u by (auto simp: valid_network_def split: option.splits json.splits)
  then obtain e m' where "json_find u (configuration cfg) = Some e" "json_find ''network'' e = Some (JObject m')"
      "map_of m' ''role'' \<noteq> Some (JString ''client'')"
    by (auto simp: uplink_ok_def split: option.splits json.splits)
  then show ?thesis
    using net m(1) j(1) u by (auto simp: try_get_def)
qed

lemma uplink_of_None:
  "json_find ''network'' self = Some net \<Longrightarrow> uplink_of self = Ret None \<Longrightarrow> json_find ''uplink'' net = None"
proof -
  have "to_string j \<noteq> Ret s \<or> j = JString s" for j s
    by (cases j) auto
  then show "json_find ''network'' self = Some net \<Longrightarrow> uplink_of self = Ret None \<Longrightarrow> json_find ''uplink'' net = None"
    by (auto simp: uplink_of_def split: option.splits)
qed

lemma chain_deep:
  assumes "uplinks cfg n us" "valid_config (configuration cfg)" "try_get cfg n = Some ent"
    and "json_find ''network'' (entity_self ent) = Some net"
  shows "\<exists>j. deep_uplink_info cfg net = Some (Ret j)"
  using assms
proof (induction arbitrary: ent net rule: uplinks.induct)
  case (top n e)
  then show ?case
    using deep_uplink_top uplink_of_None by fastforce
next
  case (below n e u us)
  then obtain m up m' where m: "net = JObject m" "map_of m ''uplink'' = Some (JString u)" "try_get cfg u = Some up"
      "json_find ''network'' (entity_self up) = Some (JObject m')"
    using uplink_of_valid[of cfg n ent u] by auto
  with below.IH[OF below.prems(1)] obtain j where "deep_uplink_info cfg (JObject m') = Some (Ret j)"
    by blast
  then show ?case
    using deep_uplink_below[OF m(2-4)] m(1) by simp
qed

section \<open>Starting a chain\<close>

definition is_live :: "world \<Rightarrow> string \<Rightarrow> bool" where
  "is_live w n \<longleftrightarrow> map_of (live w) n \<noteq> None"

text \<open>What is left to start: the entity and its uplinks up to the first that is live.\<close>

definition pending :: "world \<Rightarrow> string list \<Rightarrow> string list" where
  "pending w ns = takeWhile (\<lambda>n. \<not> is_live w n) ns"

definition milestones_for :: "config \<Rightarrow> string \<Rightarrow> milestone list" where
  "milestones_for cfg n = (case try_get cfg n of None \<Rightarrow> [] | Some ent \<Rightarrow> start_milestones cfg ent)"

definition chain_started :: "string list \<Rightarrow> world \<Rightarrow> world \<Rightarrow> bool" where
  "chain_started ns w w' \<longleftrightarrow> conf w' = conf w \<and> held w' = held w \<and>
     (\<exists>es. effects w' = effects w @ es \<and>
       milestones es = concat (map (milestones_for (conf w)) (rev (pending w ns)))) \<and>
     (\<forall>n. is_live w' n \<longleftrightarrow> is_live w n \<or> n \<in> set (pending w ns)) \<and>
     (map_wf (live w) \<longrightarrow> map_wf (live w'))"

lemma is_live_simps [simp]:
  "is_live (w\<lparr>effects := es\<rparr>) = is_live w" "is_live (w\<lparr>held := hs\<rparr>) = is_live w"
  "is_live (w\<lparr>live := map_set n pid (live w)\<rparr>) m \<longleftrightarrow> m = n \<or> is_live w m"
  by (auto simp: is_live_def fun_eq_iff)

lemma start_top:
  assumes "healthy env" "\<not> is_live w (entity_name ent)" "try_get (conf w) (entity_name ent) = Some ent"
    and "\<And>net. json_find ''network'' (entity_self ent) = Some net \<Longrightarrow> \<exists>j. deep_uplink_info (conf w) net = Some (Ret j)"
    and "entity_self ent \<in> {JNull, JArray []} \<or> (\<exists>m. entity_self ent = JObject m \<and> map_wf m)"
  shows "\<exists>w'. start_self env ent w = Some (Next (), w') \<and> chain_started [entity_name ent] w w'"
proof -
  have "\<exists>j'. deep_uplink_info (conf w) j = Some (Ret j')" if "(''network'', j) \<in> set (json_items (entity_self ent))" for j
    using assms(4)[of j] assms(5) that by (auto simp: map_wf_def strict_sorted_iff)
  then obtain pid es where "start_self env ent w =
      Some (Next (), w\<lparr>live := map_set (entity_name ent) pid (live w), effects := effects w @ es\<rparr>)"
      "milestones es = start_milestones (conf w) ent"
    using healthy_self[OF assms(1), of w ent] assms(2) by (auto simp: is_live_def)
  then show ?thesis
    using assms(2,3) by (auto simp: chain_started_def pending_def milestones_for_def)
qed

lemma valid_shape:
  assumes "valid_config (configuration cfg)" "n \<notin> reserved_keys" "try_get cfg n = Some ent"
  shows "entity_self ent \<in> {JNull, JArray []} \<or> (\<exists>m. entity_self ent = JObject m \<and> map_wf m)"
proof -
  have self: "json_find n (configuration cfg) = Some (entity_self ent)"
    using assms(3) by (simp add: try_get_Some)
  then have "valid_entity (configuration cfg) n" "wf_json (entity_self ent)"
    using assms(1,2) wf_json_find by (auto simp: valid_config_def set_obj_keys)
  then show ?thesis
    using self by (cases "entity_self ent") (auto simp: valid_entity_def)
qed

lemma entity_start_live:
  "is_live w (entity_name ent) \<Longrightarrow> entity_name ent \<notin> set (held w) \<Longrightarrow> entity_start env ent w = Some (Next (), w)"
  by (subst entity_start.simps) (simp add: Let_def is_live_def give_token_def)

lemma entity_start_top:
  "\<not> is_live w (entity_name ent) \<Longrightarrow> entity_name ent \<notin> set (held w) \<Longrightarrow>
   uplink_of (entity_self ent) = Ret None \<Longrightarrow>
   entity_start env ent w =
     give_token (entity_name ent) (start_self env ent (w\<lparr>held := entity_name ent # held w\<rparr>))"
  by (subst entity_start.simps) (simp add: Let_def is_live_def)

lemma entity_start_below:
  "\<not> is_live w (entity_name ent) \<Longrightarrow> entity_name ent \<notin> set (held w) \<Longrightarrow>
   uplink_of (entity_self ent) = Ret (Some u) \<Longrightarrow> try_get (conf w) u = Some up \<Longrightarrow>
   entity_start env ent w =
     give_token (entity_name ent)
       (bind_cm (entity_start env up) (\<lambda>_. start_self env ent) (w\<lparr>held := entity_name ent # held w\<rparr>))"
  by (subst entity_start.simps)
    (simp add: Let_def is_live_def bind_cm_def split: option.splits prod.splits co.splits)

text \<open>\<open>start\<close> never changes the configuration, gives its tokens back and leaves live entities live.\<close>

definition start_kept :: "world \<Rightarrow> world \<Rightarrow> bool" where
  "start_kept w w' \<longleftrightarrow> conf w' = conf w \<and> held w' = held w \<and> (\<forall>m. is_live w m \<longrightarrow> is_live w' m)"

lemma start_self_kept: "start_self env ent w = Some (r, w') \<Longrightarrow> start_kept w w'"
proof -
  assume "start_self env ent w = Some (r, w')"
  then have fr: "start_frame (entity_name ent) w w'"
    using frame.resp_self unfolding frame.resp_R_def by blast
  have "is_live w' m" if "is_live w m" for m
    using fr that by (cases "m = entity_name ent") (auto simp: start_frame_def is_live_def)
  then show "start_kept w w'"
    using fr by (simp add: start_kept_def start_frame_def)
qed

lemma start_kept_token: "start_kept (w\<lparr>held := n # held w\<rparr>) w' \<Longrightarrow> start_kept w (w'\<lparr>held := remove1 n (held w')\<rparr>)"
  by (simp add: start_kept_def is_live_def)

lemma entity_start_kept: "entity_start env ent w = Some (r, w') \<Longrightarrow> start_kept w w'"
proof (induction env ent w arbitrary: r w' rule: entity_start.induct)
  case (1 env ent w)
  let ?n = "entity_name ent" and ?w = "w\<lparr>held := entity_name ent # held w\<rparr>"
  note run = "1.prems"[unfolded entity_start.simps[of env ent w] Let_def]
  have free: "?n \<notin> set (held w)"
    using run by (auto split: if_splits)
  have self: "start_kept w w"
    by (simp add: start_kept_def)
  show ?case
  proof (cases "is_live w ?n")
    case True
    then show ?thesis
      using entity_start_live[OF True free, of env] "1.prems" self by simp
  next
    case False
    show ?thesis
    proof (cases "\<exists>u up. uplink_of (entity_self ent) = Ret (Some u) \<and> try_get (conf w) u = Some up")
      case True
      then obtain u up where up: "uplink_of (entity_self ent) = Ret (Some u)" "try_get (conf w) u = Some up"
        by blast
      obtain w2 where w2: "bind_cm (entity_start env up) (\<lambda>_. start_self env ent) ?w = Some (r, w2)"
          "w' = w2\<lparr>held := remove1 ?n (held w2)\<rparr>"
        using "1.prems" entity_start_below[OF False free up, of env] by (auto simp: give_token_def)
      have IH: "start_kept ?w w1" if "entity_start env up ?w = Some (r1, w1)" for r1 w1
        using "1.IH"[OF refl refl, of "Some u" u up] free False up that by (auto simp: is_live_def)
      from w2(1) have "start_kept ?w w2"
      proof (cases rule: bind_cm_cases)
        case (go_on x w1)
        then show ?thesis
          using IH[OF go_on(1)] start_self_kept[OF go_on(2)] by (simp add: start_kept_def)
      qed (use IH in blast)+
      then show ?thesis
        using w2(2) start_kept_token by simp
    next
      case alone: False
      show ?thesis
      proof (cases "uplink_of (entity_self ent) = Ret None")
        case True
        then obtain w2 where "start_self env ent ?w = Some (r, w2)" "w' = w2\<lparr>held := remove1 ?n (held w2)\<rparr>"
          using "1.prems" entity_start_top[OF False free, of env] by (auto simp: give_token_def)
        then show ?thesis
          using start_self_kept start_kept_token by blast
      next
        case none: False
        have "w' = ?w\<lparr>held := remove1 ?n (held ?w)\<rparr>"
          using run free False alone none
          by (cases "uplink_of (entity_self ent)") (auto simp: give_token_def is_live_def split: option.splits)
        then show ?thesis
          by (simp add: start_kept_def is_live_def)
      qed
    qed
  qed
qed

lemma chain_started_held:
  "chain_started ns (w\<lparr>held := n # held w\<rparr>) w' \<Longrightarrow> chain_started ns w (w'\<lparr>held := remove1 n (held w')\<rparr>)"
  by (simp add: chain_started_def pending_def)

lemma chain_started_not_live:
  assumes "chain_started us w w1" "\<not> is_live w n" "n \<notin> set us"
  shows "\<not> is_live w1 n"
proof -
  have "n \<notin> set (pending w us)"
    using assms(3) set_takeWhileD by (fastforce simp: pending_def)
  then show ?thesis
    using assms(1,2) by (simp add: chain_started_def)
qed

lemma chain_started_append:
  assumes "chain_started us w w1" "chain_started [n] w1 w2" "\<not> is_live w n" "n \<notin> set us"
  shows "chain_started (n # us) w w2"
proof -
  have "\<not> is_live w1 n"
    using assms(1,3,4) by (rule chain_started_not_live)
  then have p: "pending w1 [n] = [n]" "pending w (n # us) = n # pending w us"
    using assms(3) by (simp_all add: pending_def)
  then show ?thesis
    using assms(1,2) unfolding chain_started_def p by force
qed

lemma start_link:
  assumes "uplinks cfg n us" "healthy env" "valid_config (configuration cfg)"
    and "conf w = cfg" "try_get cfg n = Some ent" "\<not> is_live w n"
  obtains w' where "start_self env ent w = Some (Next (), w')" "chain_started [n] w w'"
proof -
  have n: "entity_name ent = n"
    using assms(5) by (simp add: try_get_Some)
  have "n \<notin> reserved_keys"
    using assms(1) by cases
  have "\<exists>w'. start_self env ent w = Some (Next (), w') \<and> chain_started [entity_name ent] w w'"
  proof (rule start_top)
    show "\<exists>j. deep_uplink_info (conf w) net = Some (Ret j)"
      if "json_find ''network'' (entity_self ent) = Some net" for net
      using assms(1)
    proof cases
      case (top e)
      then show ?thesis
        using deep_uplink_top uplink_of_None[OF that] assms(5) by fastforce
    next
      case (below e u us')
      then show ?thesis
        using chain_deep[OF assms(1)] assms that by auto
    qed
  qed (use assms n \<open>n \<notin> reserved_keys\<close> valid_shape[of cfg n] in auto)
  then show thesis
    using that n by auto
qed

lemma start_chain:
  assumes "uplinks cfg n us" "healthy env" "valid_config (configuration cfg)"
    and "conf w = cfg" "try_get cfg n = Some ent" "set (n # us) \<inter> set (held w) = {}"
  shows "\<exists>w'. entity_start env ent w = Some (Next (), w') \<and> chain_started (n # us) w w'"
  using assms
proof (induction arbitrary: ent w rule: uplinks.induct)
  case (top n e)
  let ?w = "w\<lparr>held := n # held w\<rparr>"
  have n: "entity_name ent = n" "e = ent"
    using top by (auto simp: try_get_Some)
  show ?case
  proof (cases "is_live w n")
    case True
    then show ?thesis
      using top n entity_start_live[of w ent env] by (auto simp: chain_started_def pending_def)
  next
    case False
    then have "\<not> is_live ?w n" "conf ?w = cfg"
      using top.prems(3) by (simp_all add: is_live_def)
    from start_link[OF uplinks.top[OF top.hyps] top.prems(1,2) this(2) top.prems(4) this(1)]
    obtain w' where "start_self env ent ?w = Some (Next (), w')" "chain_started [n] ?w w'" .
    then show ?thesis
      using entity_start_top[of w ent env] False top n chain_started_held
      by (auto simp: give_token_def)
  qed
next
  case (below n e u us)
  let ?w = "w\<lparr>held := n # held w\<rparr>"
  have n: "entity_name ent = n" "e = ent"
    using below by (auto simp: try_get_Some)
  have dist: "distinct (n # u # us)"
    by (rule uplinks_distinct[OF uplinks.below[OF below.hyps]])
  obtain up where up: "try_get cfg u = Some up"
    using uplink_of_valid[of cfg n ent u] below n by auto
  show ?case
  proof (cases "is_live w n")
    case True
    then show ?thesis
      using below n entity_start_live[of w ent env] by (auto simp: chain_started_def pending_def)
  next
    case False
    obtain w1 where w1: "entity_start env up ?w = Some (Next (), w1)" "chain_started (u # us) ?w w1"
      using below.IH[of ?w up] below.prems dist up by auto
    have conf: "conf w1 = cfg" "\<not> is_live w1 n"
      using w1(2) below.prems(3) chain_started_not_live[OF w1(2), of n] dist False by (simp_all add: chain_started_def)
    obtain w' where w': "start_self env ent w1 = Some (Next (), w')" "chain_started [n] w1 w'"
      using start_link[OF uplinks.below[OF below.hyps] below.prems(1,2) conf(1) below.prems(4) conf(2)] .
    have "chain_started (n # u # us) ?w w'"
      by (rule chain_started_append[OF w1(2) w'(2)]) (use False dist in auto)
    then have "chain_started (n # u # us) w (w'\<lparr>held := remove1 n (held w')\<rparr>)"
      by (rule chain_started_held)
    then show ?thesis
      using entity_start_below[of w ent u up env] False below.hyps below.prems n up w1(1) w'(1) by (simp add: give_token_def)
  qed
qed

section \<open>What the entity daemon receives\<close>

definition network_of :: "config \<Rightarrow> string \<Rightarrow> object \<Rightarrow> bool" where
  "network_of cfg n m \<longleftrightarrow> json_at [n, ''network''] (configuration cfg) = Some (JObject m)"

text \<open>The switches above, as the configuration has them: each with its uplink and an address \<open>p.d/24\<close>.\<close>

inductive switch_chain :: "config \<Rightarrow> string \<Rightarrow> (string \<times> string) list \<Rightarrow> bool" for cfg where
  chain_top: "network_of cfg u m \<Longrightarrow> map_of m ''role'' = Some (JString r) \<Longrightarrow> r \<noteq> ''switch'' \<Longrightarrow>
    switch_chain cfg u []"
| chain_switch: "network_of cfg u m \<Longrightarrow> map_of m ''role'' = Some (JString ''switch'') \<Longrightarrow>
    map_of m ''uplink'' = Some (JString v) \<Longrightarrow>
    map_of m ''address'' = Some (JString (p @ ''.'' @ d @ ''/24'')) \<Longrightarrow> network_parts p d \<Longrightarrow>
    switch_chain cfg v hops \<Longrightarrow> switch_chain cfg u ((v, p @ ''.2'') # hops)"

lemma network_of_entity:
  "network_of cfg n m \<longleftrightarrow> (\<exists>ent. try_get cfg n = Some ent \<and> json_find ''network'' (entity_self ent) = Some (JObject m))"
  by (auto simp: network_of_def try_get_def split: option.splits)

lemma network_of_unique: "network_of cfg n m \<Longrightarrow> network_of cfg n m' \<Longrightarrow> m = m'"
  by (simp add: network_of_def)

text \<open>The deep form of a network: the same members, with the uplink's deep form in place of its name.\<close>

lemma network_deep:
  assumes "uplinks cfg n us" "valid_config (configuration cfg)" "network_of cfg n m"
  shows "map_wf m \<and> (map_of m ''uplink'' = None \<and> deep_uplink_info cfg (JObject m) = Some (Ret (JObject m)) \<or>
    (\<exists>u us' m' j. map_of m ''uplink'' = Some (JString u) \<and> uplinks cfg u us' \<and> network_of cfg u m' \<and>
       deep_uplink_info cfg (JObject m') = Some (Ret j) \<and>
       deep_uplink_info cfg (JObject m) =
         Some (Ret (JObject (map_set ''uplink'' j (map_set '':uplink-name'' (JString u) m))))))"
  using assms(1)
proof cases
  case (top ent)
  then have net: "json_find ''network'' (entity_self ent) = Some (JObject m)"
    using assms(3) by (auto simp: network_of_entity)
  then show ?thesis
    using valid_network_of[OF assms(2) top(2,3) net] uplink_of_None[OF net top(4)] deep_uplink_top by fastforce
next
  case (below ent u us')
  then have net: "json_find ''network'' (entity_self ent) = Some (JObject m)"
    using assms(3) by (auto simp: network_of_entity)
  obtain up m' where up: "map_of m ''uplink'' = Some (JString u)" "try_get cfg u = Some up"
      "json_find ''network'' (entity_self up) = Some (JObject m')"
    using uplink_of_valid[OF assms(2) below(2-4)] net by auto
  then obtain j where "deep_uplink_info cfg (JObject m') = Some (Ret j)"
    using chain_deep[OF below(5) assms(2)] by blast
  then show ?thesis
    using deep_uplink_below[OF up] up below(5) valid_network_of[OF assms(2) below(2,3) net]
    by (auto simp: network_of_entity)
qed

lemma switch_chain_deep:
  assumes "switch_chain cfg n hops" "uplinks cfg n us" "valid_config (configuration cfg)" "network_of cfg n m"
    and "deep_uplink_info cfg (JObject m) = Some (Ret j)"
  shows "uplink_chain j hops"
  using assms
proof (induction arbitrary: us m j rule: switch_chain.induct)
  case (chain_top u m0 r)
  then have "m0 = m"
    using network_of_unique by blast
  then show ?case
    using network_deep[OF chain_top.prems(1-3)] chain_top uplink_chain.chain_end by auto
next
  case (chain_switch u m0 v p d hops)
  have m0: "m0 = m"
    using chain_switch network_of_unique by blast
  then obtain us' m' j' where deep: "uplinks cfg v us'" "network_of cfg v m'"
      "deep_uplink_info cfg (JObject m') = Some (Ret j')"
      "j = JObject (map_set ''uplink'' j' (map_set '':uplink-name'' (JString v) m))" "map_wf m"
    using network_deep[OF chain_switch.prems(1-3)] chain_switch.hyps chain_switch.prems(4) by auto
  have "uplink_chain j' hops"
    by (rule chain_switch.IH[OF deep(1) chain_switch.prems(2) deep(2,3)])
  then show ?case
    unfolding deep(4) using m0 deep(5) chain_switch.hyps
    by (intro uplink_chain.chain_hop) auto
qed

lemma own_namespace_deep:
  "own_namespace (JObject m) \<Longrightarrow>
   own_namespace (JObject (map_set ''uplink'' j (map_set '':uplink-name'' v m)))"
  by (simp add: own_namespace_def)

section \<open>The shape of what is sent\<close>

text \<open>Every uplink is in place of its name, which is kept beside it.\<close>

inductive deep_shape :: "json \<Rightarrow> bool" where
  shape_top: "json_find ''uplink'' j = None \<Longrightarrow> deep_shape j"
| shape_below: "json_find ''uplink'' j = Some u \<Longrightarrow> json_find '':uplink-name'' j = Some (JString n) \<Longrightarrow>
    deep_shape u \<Longrightarrow> deep_shape j"

lemma get_ref_string_Ret: "get_ref_string u = Ret n \<longleftrightarrow> u = JString n"
  by (cases u) auto

lemma deep_uplink_cases:
  assumes "(case json_find ''uplink'' component of
        None \<Rightarrow> Some (Ret component)
      | Some u \<Rightarrow>
          (case bind_res (get_ref_string u) (\<lambda>name.
                  case try_get cfg name of
                    None \<Rightarrow> Abort
                  | Some uplink_ent \<Rightarrow> json_subscript ''network'' (entity_self uplink_ent)) of
             Throw e \<Rightarrow> Some (Throw e)
           | Abort \<Rightarrow> Some Abort
           | Ret (self', uplink) \<Rightarrow>
               if uplink = JNull then Some Abort
               else Option.bind (deep cfg uplink) (\<lambda>r.
                 Some (bind_res r (\<lambda>uplink'.
                   bind_res (json_subscript '':uplink-name'' component) (\<lambda>(component1, _).
                     Ret (json_put [''uplink''] uplink' (json_put ['':uplink-name''] u component1)))))))) = Some (Ret j)"
  obtains (plain) "json_find ''uplink'' component = None" "j = component"
  | (nested) n ent self' uplink up component1 v where "json_find ''uplink'' component = Some (JString n)"
      "try_get cfg n = Some ent" "json_subscript ''network'' (entity_self ent) = Ret (self', uplink)"
      "deep cfg uplink = Some (Ret up)" "json_subscript '':uplink-name'' component = Ret (component1, v)"
      "j = json_put [''uplink''] up (json_put ['':uplink-name''] (JString n) component1)"
  using assms
  by (auto simp: get_ref_string_Ret bind_eq_Some_conv split: option.splits res.splits if_splits)

lemma deep_uplink_shape:
  "deep_uplink_info cfg j = Some r \<Longrightarrow> wf_json (configuration cfg) \<Longrightarrow> wf_json j \<Longrightarrow> r = Ret j' \<Longrightarrow>
     wf_json j' \<and> deep_shape j'"
proof (induction cfg j r arbitrary: j' rule: deep_uplink_info.raw_induct[rotated 1, consumes 1, case_names unfold])
  case (unfold deep cfg j r)
  from unfold(2)[unfolded unfold(5)] show ?case
  proof (cases rule: deep_uplink_cases)
    case plain
    then show ?thesis
      using unfold(4) by (auto intro: shape_top)
  next
    case (nested n ent self' uplink up j1 v)
    have "wf_json (entity_self ent)"
      using nested(2) unfold(3) wf_json_find by (auto simp: try_get_Some)
    then have up: "wf_json up" "deep_shape up"
      using unfold(1)[OF nested(4) unfold(3) _ refl] wf_json_subscript[OF _ nested(3)] by auto
    have j1: "wf_json j1" "is_object j1" "json_find '':uplink-name'' j1 = Some v" "json_find ''uplink'' j1 = Some (JString n)"
      using wf_json_subscript[OF unfold(4) nested(5)] json_subscript_find[OF nested(5)] nested(1,5)
      by (cases j; auto split: option.splits)+
    then show ?thesis
      using up nested(6) by (auto intro!: wf_json_put shape_below[where u = up and n = n])
  qed
qed

section \<open>Replies and failures\<close>

lemma reply_ok:
  "reply_method_return bus \<ge> 0 \<Longrightarrow>
   co_return_reply bus w [] = Ret \<lparr>sent = [MethodReturn []], ret_error = None, state = w\<rparr>"
  by (simp add: co_return_reply_def co_return_def reply_status_def replies_def)

lemma emplace_live:
  "is_live (case map_of (live w) n of None \<Rightarrow> w\<lparr>live := map_set n pid (live w)\<rparr> | Some _ \<Rightarrow> w) n"
  by (simp add: is_live_def split: option.splits)

lemma connect_leaves_live:
  assumes "connect_entityd env n w = Some (Next pid, w')"
  shows "is_live w' n"
proof -
  obtain w1 where "connect_bus env n (case map_of (live w1) n of
      None \<Rightarrow> w1\<lparr>live := map_set n pid (live w1)\<rparr> | Some _ \<Rightarrow> w1) = Some (Next (), w')"
    using assms unfolding connect_entityd_def by (auto elim!: bind_cm_cases split: if_splits)
  with emplace_live[where w = w1] show ?thesis
    using frame.resp_bus[of n env] by (auto simp: frame.resp_R_def start_frame_def is_live_def)
qed

lemma method_start_chain:
  assumes "valid_config (configuration (conf w))" "uplinks (conf w) n us" "held w = []"
    and "healthy env" "reply_method_return bus \<ge> 0" "read \<ge> 0"
  shows "\<exists>w'. method_start bus env read n w =
      Some (Ret \<lparr>sent = [MethodReturn []], ret_error = None, state = w'\<rparr>) \<and> chain_started (n # us) w w'"
proof -
  obtain ent where ent: "try_get (conf w) n = Some ent"
    using assms(2) by cases auto
  obtain w' where "entity_start env ent w = Some (Next (), w')" "chain_started (n # us) w w'"
    using start_chain[OF assms(2,4,1) _ ent, of w] assms(3) by auto
  then show ?thesis
    using assms(5,6) ent by (auto simp: method_start_def finish_call_def reply_ok)
qed

section \<open>Properties\<close>

text \<open>
  C6: on a system where every call succeeds, \<open>Start\<close> of an entity whose uplinks end somewhere is
  answered, once, without error. The entity and its uplinks up to the first that is already live
  are started in the order from the uplinks down: each entity daemon is forked and sent all
  components of its entity before the next is forked. Afterwards exactly these are live in addition.
\<close>

theorem start_brings_up_chain:
  assumes "valid_config (configuration (conf w))" "uplinks (conf w) n us" "held w = []"
    and "healthy env" "reply_method_return bus \<ge> 0" "read \<ge> 0"
  shows "\<exists>w'. method_start bus env read n w =
      Some (Ret \<lparr>sent = [MethodReturn []], ret_error = None, state = w'\<rparr>) \<and> chain_started (n # us) w w'"
  by (rule method_start_chain[OF assms])

text \<open>
  The network component of a switch that \<open>start\<close> sends to its entity daemon is one that the daemon
  knows how to set up: it carries the addresses of all switches above.
\<close>

lemma sent_switch_component:
  assumes "valid_config (configuration cfg)" "uplinks cfg n us" "network_of cfg n m"
    and "map_of m ''role'' = Some (JString ''switch'')" "map_of m ''uplink'' = Some (JString u)"
    and "map_of m ''address'' = Some (JString (p @ ''.'' @ d @ ''/24''))" "network_parts p d"
    and "switch_chain cfg u hops" "own_namespace (JObject m)"
  shows "switch_component (sent_form cfg ''network'' (JObject m)) u p d hops"
    "own_namespace (sent_form cfg ''network'' (JObject m))"
proof -
  obtain us' m' j where deep: "uplinks cfg u us'" "network_of cfg u m'" "map_wf m"
      "deep_uplink_info cfg (JObject m') = Some (Ret j)"
      "sent_form cfg ''network'' (JObject m) = JObject (map_set ''uplink'' j (map_set '':uplink-name'' (JString u) m))"
    using network_deep[OF assms(2,1,3)] assms(5) by (auto simp: sent_form_def)
  then have "uplink_chain j hops"
    using switch_chain_deep assms(1,8) by blast
  then show "switch_component (sent_form cfg ''network'' (JObject m)) u p d hops"
    using deep(3) assms(4,6,7) by (auto simp: deep(5) switch_component_def)
  show "own_namespace (sent_form cfg ''network'' (JObject m))"
    unfolding deep(5) by (rule own_namespace_deep[OF assms(9)])
qed

text \<open>
  The network component of a client that \<open>start\<close> sends to its entity daemon carries the address of
  the switch above.
\<close>

lemma sent_client_component:
  assumes "valid_config (configuration cfg)" "uplinks cfg n us" "network_of cfg n m"
    and "map_of m ''role'' = Some (JString ''client'')" "map_of m ''uplink'' = Some (JString u)"
    and "network_of cfg u m'" "map_of m' ''address'' = Some (JString (p @ ''.'' @ d @ ''/24''))"
    and "network_parts p d" "own_namespace (JObject m)"
  shows "client_component (sent_form cfg ''network'' (JObject m)) u p d"
    "own_namespace (sent_form cfg ''network'' (JObject m))"
proof -
  obtain us' j where deep: "uplinks cfg u us'" "map_wf m" "deep_uplink_info cfg (JObject m') = Some (Ret j)"
      "sent_form cfg ''network'' (JObject m) = JObject (map_set ''uplink'' j (map_set '':uplink-name'' (JString u) m))"
    using network_deep[OF assms(2,1,3)] network_of_unique[OF assms(6)] assms(5)
    by (auto simp: sent_form_def)
  obtain mj where "j = JObject mj" "map_of mj ''address'' = map_of m' ''address''"
    using network_deep[OF deep(1) assms(1,6)] deep(3) by auto
  then show "client_component (sent_form cfg ''network'' (JObject m)) u p d"
    using deep(2) assms(4,7,8) by (auto simp: deep(4) client_component_def)
  show "own_namespace (sent_form cfg ''network'' (JObject m))"
    unfolding deep(4) by (rule own_namespace_deep[OF assms(9)])
qed

text \<open>
  The component that is sent for a network is a well-formed JSON value in which every uplink, up to
  the top, is the network component of that uplink, with its name beside it.
\<close>

theorem sent_component_shape:
  assumes "deep_uplink_info cfg j = Some (Ret j')" "wf_json (configuration cfg)" "wf_json j"
  shows "wf_json j' \<and> deep_shape j'"
  by (rule deep_uplink_shape[OF assms refl])

text \<open>
  A cycle of uplinks, which validation accepts, is never started: \<open>Start\<close> of an entity from which
  the uplinks lead around in a set of entities that are not live does not return, whatever the system
  answers, and the caller gets no reply.
\<close>

theorem start_of_cycle_never_answers:
  assumes "n \<in> S" "read \<ge> 0"
    and "\<And>x. x \<in> S \<Longrightarrow> \<not> is_live w x \<and>
      (\<exists>ent u. try_get (conf w) x = Some ent \<and> uplink_of (entity_self ent) = Ret (Some u) \<and> u \<in> S)"
  shows "method_start bus env read n w = None"
proof -
  have "entity_start env ent w = None" if "try_get (conf w) n = Some ent" for ent
    using assms(1,3) that
  proof (induction env ent w arbitrary: n rule: entity_start.induct)
    case (1 env ent w)
    have name: "entity_name ent = n"
      using "1.prems"(3) by (simp add: try_get_Some)
    obtain u where u: "uplink_of (entity_self ent) = Ret (Some u)" "u \<in> S" "\<not> is_live w n"
      using "1.prems" by force
    then obtain up where up: "try_get (conf w) u = Some up"
      using "1.prems"(2) by blast
    show ?case
    proof (cases "n \<in> set (held w)")
      case True
      then show ?thesis
        using name by (subst entity_start.simps) simp
    next
      case False
      let ?w = "w\<lparr>held := n # held w\<rparr>"
      have "entity_start env up ?w = None"
        using "1.IH"[OF refl refl _ _ u(1) refl up u(2)] name False u(3) up "1.prems"(2)
        by (simp add: is_live_def)
      then show ?thesis
        using entity_start_below[of w ent u up env] u up name False by (simp add: give_token_def)
    qed
  qed
  then show ?thesis
    using assms by (force simp: method_start_def finish_call_def)
qed

text \<open>
  C40: a failed \<open>Start\<close> is not repeated. Let the name be read and replies be sent without
  error, and let \<open>Start\<close> be called for an entity that is not live, of which no token is
  held, and which has no uplink or one whose own \<open>start\<close> succeeds; if its entity daemon is
  then connected but its units cannot be started, \<open>Start\<close> ends with that error, yet the
  entity is in the table of live entities. In every world in which it is there, and as long as its token
  is free, every later \<open>Start\<close> of it, whatever the system would answer, replies success and
  does nothing at all; and no \<open>Start\<close> of any entity takes it out of the table again.
\<close>

theorem failed_start_repeats_as_success:
  assumes "try_get (conf w) n = Some ent" "\<not> is_live w n" "n \<notin> set (held w)"
    and "read \<ge> 0" "reply_method_return bus \<ge> 0"
    and "(uplink_of (entity_self ent) = Ret None \<and> w0 = w\<lparr>held := n # held w\<rparr>) \<or>
      (\<exists>u up. uplink_of (entity_self ent) = Ret (Some u) \<and> try_get (conf w) u = Some up \<and>
        entity_start env up (w\<lparr>held := n # held w\<rparr>) = Some (Next (), w0))"
    and "connect_entityd env n w0 = Some (Next pid, w1)"
    and "start_units env n pid w1 = Some (Stop r, w2)"
  shows "method_start bus env read n w = Some (co_return bus [] None (w2\<lparr>held := held w\<rparr>) r) \<and>
    is_live w2 n \<and> conf w2 = conf w \<and>
    (\<forall>env' v. is_live v n \<and> try_get (conf v) n \<noteq> None \<and> n \<notin> set (held v) \<longrightarrow>
      method_start bus env' read n v = Some (Ret \<lparr>sent = [MethodReturn []], ret_error = None, state = v\<rparr>)) \<and>
    (\<forall>env' v e r' v'. is_live v n \<and> entity_start env' e v = Some (r', v') \<longrightarrow> is_live v' n)"
proof (intro conjI allI impI)
  have name: "entity_name ent = n"
    using assms(1) by (simp add: try_get_Some)
  have frames: "start_frame n w0 w1" "start_frame n w1 w2"
    using frame.resp_connect[of n env] frame.resp_units[of n env n pid] assms(7,8)
    by (auto simp: frame.resp_R_def)
  then show "is_live w2 n"
    using connect_leaves_live[OF assms(7)] by (auto simp: start_frame_def is_live_def)
  have kept: "start_kept (w\<lparr>held := n # held w\<rparr>) w0"
    using assms(6) entity_start_kept by (auto simp: start_kept_def is_live_def)
  then have held: "held w2 = n # held w"
    using frames by (simp add: start_frame_def start_kept_def)
  show "conf w2 = conf w"
    using kept frames by (simp add: start_frame_def start_kept_def)
  have self: "start_self env ent w0 = Some (Stop r, w2)"
    using assms(7,8) name by (simp add: start_self_def)
  have "entity_start env ent w = Some (Stop r, w2\<lparr>held := held w\<rparr>)"
    using assms(6)
  proof (elim disjE exE conjE)
    assume "uplink_of (entity_self ent) = Ret None" "w0 = w\<lparr>held := n # held w\<rparr>"
    then show ?thesis
      using entity_start_top[of w ent env] assms(2,3) name self held by (simp add: give_token_def)
  next
    fix u up
    assume "uplink_of (entity_self ent) = Ret (Some u)" "try_get (conf w) u = Some up"
      "entity_start env up (w\<lparr>held := n # held w\<rparr>) = Some (Next (), w0)"
    then show ?thesis
      using entity_start_below[of w ent u up env] assms(2,3) name self held
      by (simp add: give_token_def)
  qed
  then show "method_start bus env read n w = Some (co_return bus [] None (w2\<lparr>held := held w\<rparr>) r)"
    using assms(1,4) by (simp add: method_start_def finish_call_def)
next
  fix env' v assume v: "is_live v n \<and> try_get (conf v) n \<noteq> None \<and> n \<notin> set (held v)"
  then obtain e where "try_get (conf v) n = Some e" "entity_name e = n"
    by (auto simp: try_get_Some)
  then show "method_start bus env' read n v = Some (Ret \<lparr>sent = [MethodReturn []], ret_error = None, state = v\<rparr>)"
    using entity_start_live[of v e env'] assms(4,5) v by (simp add: method_start_def finish_call_def reply_ok)
next
  fix env' v e r' v' assume "is_live v n \<and> entity_start env' e v = Some (r', v')"
  then show "is_live v' n"
    using entity_start_kept by (auto simp: start_kept_def)
qed

text \<open>
  When \<open>socketpair\<close> or \<open>fork\<close> fails, the coroutine returns the positive \<open>errno\<close>, for which no reply is
  sent: \<open>Start\<close> ends without an answer to the caller.
\<close>

theorem start_failure_without_reply:
  assumes "try_get (conf w) n = Some ent" "uplink_of (entity_self ent) = Ret None"
    and "\<not> is_live w n" "held w = []" "read \<ge> 0"
    and "status (env (effects w) SocketPair) < 0 \<or> status (env (effects w @ [SocketPair]) (Fork n)) < 0"
  shows "\<exists>ou. method_start bus env read n w = Some (Ret ou) \<and> sent ou = [] \<and> ret_error ou = None \<and>
    live (state ou) = live w"
proof -
  have name: "entity_name ent = n"
    using assms(1) by (simp add: try_get_Some)
  obtain es c where "connect_entityd env n (w\<lparr>held := [n]\<rparr>) =
      Some (Stop (reply_status c), w\<lparr>held := [n], effects := effects w @ es\<rparr>)" "c > 0"
    using assms(6) by (cases "status (env (effects w) SocketPair) < 0") (auto simp: connect_entityd_def)
  then have "entity_start env ent w = Some (Stop (reply_status c), w\<lparr>effects := effects w @ es\<rparr>)" "c > 0"
    using entity_start_top[of w ent env] assms name by (simp_all add: start_self_def give_token_def)
  then show ?thesis
    using assms(1,5)
    by (simp add: method_start_def finish_call_def co_return_def reply_status_def replies_def)
qed

section \<open>Stopping\<close>

text \<open>Stopping from the point where the entity daemon has shut down.\<close>

lemma stop_self_outcome:
  assumes "stop_self env n pid w = Some (r, w')"
    and "\<not> status (env (effects w) (ShutdownCall n)) < 0" "failure (env (effects w) (ShutdownCall n)) = None"
    and "r \<noteq> Died"
  shows "conf w' = conf w \<and> held w' = held w \<and> live w' = map_erase n (live w) \<and>
    prefix (effects w @ [ShutdownCall n, WaitPid pid, UnregisterBus n]) (effects w')"
proof -
  let ?w = "w\<lparr>effects := effects w @ [ShutdownCall n, WaitPid pid, UnregisterBus n], live := map_erase n (live w)\<rparr>"
  have "stop_slice env n ?w = Some (r, w')"
    using assms by (auto simp: stop_self_def call_method_def assert_cm_def split: if_splits)
  then have "only_effects n ?w w'"
    using quiet.resp_slice[of n env n] by (simp add: quiet.resp_R_def)
  then show ?thesis
    by (simp add: only_effects_def)
qed

text \<open>
  C23: \<open>stop\<close> of an entity that is not live is an error and does nothing. For a live one, when the entity
  daemon refuses to shut down, its error is returned and the entity stays live; otherwise the entity
  is forgotten after its process was waited for, also when its slice cannot be stopped. No other
  entity's state changes.
\<close>

theorem stop_outcomes:
  assumes "entity_stop env ent w = Some (r, w')" "entity_name ent = n"
  shows "case map_of (live w) n of
      None \<Rightarrow> w' = w \<and> r = Stop (reply_error_t (Some (''info.griwes.nonsense.EntityNotStarted'',
        ''Failed to stop entity '' @ n @ '': entity is not running.'')))
    | Some pid \<Rightarrow>
        let a = env (effects w) (ShutdownCall n) in
        if status a < 0 then r = Died
        else case failure a of
          Some (errno, name, message) \<Rightarrow>
            r = Stop (reply_status_error (- errno) (Some (name, message))) \<and>
            w' = w\<lparr>effects := effects w @ [ShutdownCall n]\<rparr>
        | None \<Rightarrow> r \<noteq> Died \<longrightarrow> live w' = map_erase n (live w) \<and> conf w' = conf w \<and> held w' = held w \<and>
            prefix (effects w @ [ShutdownCall n, WaitPid pid, UnregisterBus n]) (effects w')"
proof (cases "map_of (live w) n")
  case None
  then show ?thesis
    using assms by (auto simp: entity_stop_def Let_def give_token_def split: if_splits)
next
  case (Some pid)
  let ?w = "w\<lparr>held := n # held w\<rparr>"
  obtain w1 where run: "stop_self env n pid ?w = Some (r, w1)" "w' = w1\<lparr>held := remove1 n (held w1)\<rparr>"
    using Some assms by (auto simp: entity_stop_def Let_def give_token_def split: if_splits)
  let ?a = "env (effects w) (ShutdownCall n)"
  consider "status ?a < 0" | e where "\<not> status ?a < 0" "failure ?a = Some e" | "\<not> status ?a < 0" "failure ?a = None"
    by fastforce
  then show ?thesis
  proof cases
    case 3
    then show ?thesis
      using stop_self_outcome[OF run(1)] run(2) Some by (auto simp: Let_def)
  qed (use run Some in \<open>auto simp: stop_self_def call_method_def Let_def\<close>)
qed

text \<open>
  C26: starting and then stopping an entity on a healthy system leaves exactly the uplinks that were
  started for it live in addition, and the entity itself not live, so that it can be started again.
\<close>

theorem start_stop_roundtrip:
  assumes "valid_config (configuration (conf w))" "uplinks (conf w) n us" "held w = []"
    and "healthy env" "healthy env'" "try_get (conf w) n = Some ent" "map_wf (live w)"
  shows "\<exists>w1 w2. entity_start env ent w = Some (Next (), w1) \<and> entity_stop env' ent w1 = Some (Next (), w2) \<and>
    is_live w1 n \<and> \<not> is_live w2 n \<and>
    (\<forall>m. m \<noteq> n \<longrightarrow> (is_live w2 m \<longleftrightarrow> is_live w m \<or> m \<in> set (pending w (n # us))))"
proof -
  obtain w1 where w1: "entity_start env ent w = Some (Next (), w1)" "chain_started (n # us) w w1"
    using start_chain[OF assms(2,4,1) _ assms(6), of w] assms(3) by auto
  have name: "entity_name ent = n"
    using assms(6) by (simp add: try_get_Some)
  have live: "is_live w1 n" "map_wf (live w1)" "held w1 = []"
      "\<And>m. is_live w1 m \<longleftrightarrow> is_live w m \<or> m \<in> set (pending w (n # us))"
    using w1(2) assms(3,7) by (auto simp: chain_started_def pending_def)
  obtain es where "entity_stop env' ent w1 = Some (Next (), w1\<lparr>live := map_erase n (live w1), effects := es, held := []\<rparr>)"
    using live(1,3) name healthyD(8)[OF assms(5)]
    by (auto simp: entity_stop_def Let_def is_live_def give_token_def stop_self_def stop_slice_def healthy_run[OF assms(5)])
  moreover have "is_live (w1\<lparr>live := map_erase n (live w1), effects := es, held := []\<rparr>) m \<longleftrightarrow> m \<noteq> n \<and> is_live w1 m" for m
    using live(2) by (simp add: is_live_def)
  ultimately show ?thesis
    using w1(1) live(1,4) by (intro exI conjI) (assumption, assumption, auto)
qed

text \<open>
  The systemd slices of two entities are the same exactly when their names differ only in dots
  against dashes, so distinct entities can share a slice; their scopes are always distinct.
\<close>

theorem slice_names_collide:
  "(slice_name a = slice_name b \<longleftrightarrow>
     list_all2 (\<lambda>c d. c = d \<or> (c \<in> {CHR ''.'', CHR ''-''} \<and> d \<in> {CHR ''.'', CHR ''-''})) a b) \<and>
   (scope_name a = scope_name b \<longleftrightarrow> a = b)"
proof -
  have "dashed a = dashed b \<longleftrightarrow>
      list_all2 (\<lambda>c d. c = d \<or> (c \<in> {CHR ''.'', CHR ''-''} \<and> d \<in> {CHR ''.'', CHR ''-''})) a b"
  proof (induction a arbitrary: b)
    case Nil
    then show ?case
      by (auto simp: dashed_def)
  next
    case (Cons c a)
    then show ?case
      by (cases b) (auto simp: dashed_def)
  qed
  then show ?thesis
    by (simp add: slice_name_def scope_name_def)
qed

section \<open>Witnesses\<close>

text \<open>A root, a switch below it, a client below the switch, and an entity that is its own uplink.\<close>

definition rt_net :: object where
  "rt_net = [('':role'', json_of_role Root), (''role'', JString ''root'')]"

definition sw_net :: object where
  "sw_net = [('':role'', json_of_role Switch), (''address'', JString ''10.0.1.0/24''),
     (''role'', JString ''switch''), (''uplink'', JString ''rt'')]"

definition cl_net :: object where
  "cl_net = [('':role'', json_of_role Client), (''role'', JString ''client''), (''uplink'', JString ''sw'')]"

definition xx_net :: object where
  "xx_net = [('':role'', json_of_role Switch), (''role'', JString ''switch''), (''uplink'', JString ''xx'')]"

definition sample_net :: config where
  "sample_net = \<lparr>mutable = False, configuration = JObject
     [(''!metadata'', JObject [(''version'', JUInt 1)]),
      (''cl'', JObject [(''network'', JObject cl_net)]), (''rt'', JObject [(''network'', JObject rt_net)]),
      (''sw'', JObject [(''network'', JObject sw_net)]), (''xx'', JObject [(''network'', JObject xx_net)])],
     installed = True\<rparr>"

definition sample_ent :: "string \<Rightarrow> object \<Rightarrow> entity" where
  "sample_ent n m = \<lparr>entity_name = n, entity_self = JObject [(''network'', JObject m)]\<rparr>"

definition sample_world :: world where
  "sample_world = \<lparr>conf = sample_net, live = [], held = [], effects = []\<rparr>"

definition sample_system :: system where
  "sample_system h e = \<lparr>status = 1, failure = None, reading = 0, answer = ''done'', flag = True\<rparr>"

definition good_bus :: bus where
  "good_bus = \<lparr>reply_method_error = 0, reply_method_errno = 0, reply_method_return = 1\<rparr>"

lemma sample_net_valid: "valid_config (configuration sample_net)"
  by code_simp

lemma sample_healthy: "healthy sample_system"
  by (simp add: healthy_def sample_system_def)

lemma sample_get [simp]:
  "try_get sample_net ''rt'' = Some (sample_ent ''rt'' rt_net)" "try_get sample_net ''sw'' = Some (sample_ent ''sw'' sw_net)"
  "try_get sample_net ''cl'' = Some (sample_ent ''cl'' cl_net)" "try_get sample_net ''xx'' = Some (sample_ent ''xx'' xx_net)"
  by (simp_all add: try_get_def sample_net_def sample_ent_def)

lemma sample_network:
  "network_of sample_net ''rt'' rt_net" "network_of sample_net ''sw'' sw_net" "network_of sample_net ''cl'' cl_net"
  by (simp_all add: network_of_entity sample_ent_def)

lemma sample_world_simps [simp]:
  "conf sample_world = sample_net" "held sample_world = []" "live sample_world = []" "effects sample_world = []"
  "\<not> is_live sample_world n"
  by (simp_all add: sample_world_def is_live_def)

lemma sample_ent_simps [simp]:
  "entity_name (sample_ent n m) = n" "uplink_of (entity_self (sample_ent n rt_net)) = Ret None"
  "uplink_of (entity_self (sample_ent n sw_net)) = Ret (Some ''rt'')"
  "uplink_of (entity_self (sample_ent n cl_net)) = Ret (Some ''sw'')"
  "uplink_of (entity_self (sample_ent n xx_net)) = Ret (Some ''xx'')"
  by (simp_all add: sample_ent_def uplink_of_def rt_net_def sw_net_def cl_net_def xx_net_def)

lemma sample_uplinks: "uplinks sample_net ''sw'' [''rt'']" "uplinks sample_net ''cl'' [''sw'', ''rt'']"
proof -
  have "uplinks sample_net ''rt'' []"
    by (rule uplinks.top[OF _ sample_get(1)]) (simp_all add: reserved_keys_def)
  then show sw: "uplinks sample_net ''sw'' [''rt'']"
    by (rule uplinks.below[OF _ sample_get(2), rotated 2]) (simp_all add: reserved_keys_def)
  show "uplinks sample_net ''cl'' [''sw'', ''rt'']"
    by (rule uplinks.below[OF _ sample_get(3) _ sw]) (simp_all add: reserved_keys_def)
qed

theorem start_brings_up_chain_witness:
  "\<exists>w'. method_start good_bus sample_system 1 ''cl'' sample_world =
      Some (Ret \<lparr>sent = [MethodReturn []], ret_error = None, state = w'\<rparr>) \<and>
    is_live w' ''cl'' \<and> is_live w' ''sw'' \<and> is_live w' ''rt''"
proof -
  obtain w' where "method_start good_bus sample_system 1 ''cl'' sample_world =
      Some (Ret \<lparr>sent = [MethodReturn []], ret_error = None, state = w'\<rparr>)"
      "chain_started [''cl'', ''sw'', ''rt''] sample_world w'"
    using start_brings_up_chain[of sample_world "''cl''" "[''sw'', ''rt'']" sample_system good_bus 1]
      sample_uplinks sample_net_valid sample_healthy by (auto simp: good_bus_def)
  then show ?thesis
    by (auto simp: chain_started_def pending_def)
qed

theorem sent_component_shape_witness:
  "\<exists>j. deep_uplink_info sample_net (JObject cl_net) = Some (Ret j) \<and> wf_json j \<and> deep_shape j"
proof -
  obtain j where "deep_uplink_info sample_net (JObject cl_net) = Some (Ret j)"
    using network_deep[OF sample_uplinks(2) sample_net_valid sample_network(3)] by auto
  moreover have "wf_json (configuration sample_net)" "wf_json (JObject cl_net)"
    by code_simp+
  ultimately show ?thesis
    using sent_component_shape by blast
qed

theorem start_of_cycle_never_answers_witness:
  "method_start good_bus sample_system 1 ''xx'' sample_world = None"
  by (rule start_of_cycle_never_answers[where S = "{''xx''}"]) simp_all

text \<open>A system on which units cannot be started.\<close>

definition failing_system :: system where
  "failing_system h e =
     \<lparr>status = 1, failure = (case e of StartTransientUnit u s \<Rightarrow> Some (5, ''e'', ''no'') | _ \<Rightarrow> None),
      reading = 0, answer = ''no'', flag = True\<rparr>"

theorem failed_start_repeats_as_success_witness:
  "\<exists>w1. method_start good_bus failing_system 1 ''rt'' sample_world =
      Some (co_return good_bus [] None w1 (reply_status_error (- 5) (Some (''e'', ''no'')))) \<and>
    method_start good_bus sample_system 1 ''rt'' w1 =
      Some (Ret \<lparr>sent = [MethodReturn []], ret_error = None, state = w1\<rparr>)"
proof -
  have ready: "wait_ready failing_system v = Some (Next (), v\<lparr>effects := effects v @ [BusIsOpen, BusIsReady]\<rparr>)" for v
    by (subst wait_ready.simps) (simp add: failing_system_def Let_def)
  obtain w1 where 1: "connect_entityd failing_system ''rt'' (sample_world\<lparr>held := [''rt'']\<rparr>) = Some (Next 1, w1)"
    by (simp add: connect_entityd_def connect_bus_def ready failing_system_def yield_cm_def assert_cm_def)
  obtain w2 where 2: "start_units failing_system ''rt'' 1 w1 =
      Some (Stop (reply_status_error (- 5) (Some (''e'', ''no''))), w2)"
    by (simp add: start_units_def start_unit_def call_method_def failing_system_def assert_cm_def)
  have ok: "(1 :: int) \<ge> 0" "reply_method_return good_bus \<ge> 0"
    by (simp_all add: good_bus_def)
  note both = failed_start_repeats_as_success[where ent = "sample_ent ''rt'' rt_net", OF _ _ _ ok _ 1 2]
  have "method_start good_bus failing_system 1 ''rt'' sample_world =
      Some (co_return good_bus [] None (w2\<lparr>held := []\<rparr>) (reply_status_error (- 5) (Some (''e'', ''no''))))"
    and "is_live w2 ''rt''" "conf w2 = conf sample_world"
    and again: "\<And>v. is_live v ''rt'' \<Longrightarrow> try_get (conf v) ''rt'' \<noteq> None \<Longrightarrow> ''rt'' \<notin> set (held v) \<Longrightarrow>
      method_start good_bus sample_system 1 ''rt'' v =
        Some (Ret \<lparr>sent = [MethodReturn []], ret_error = None, state = v\<rparr>)"
    using both[of sample_world] by auto
  then show ?thesis
    using again[of "w2\<lparr>held := []\<rparr>"] by (auto simp: is_live_def)
qed

theorem start_failure_without_reply_witness:
  "\<exists>ou. method_start good_bus (\<lambda>h e. (sample_system h e)\<lparr>status := - 24\<rparr>) 1 ''rt'' sample_world = Some (Ret ou) \<and>
    sent ou = []"
  using start_failure_without_reply[of sample_world "''rt''" "sample_ent ''rt'' rt_net" 1
      "\<lambda>h e. (sample_system h e)\<lparr>status := - 24\<rparr>" good_bus]
  by auto

theorem stop_outcomes_witness:
  "entity_stop sample_system (sample_ent ''rt'' rt_net) sample_world =
     Some (Stop (reply_error_t (Some (''info.griwes.nonsense.EntityNotStarted'',
       ''Failed to stop entity rt: entity is not running.''))), sample_world)"
proof -
  obtain r w' where run: "entity_stop sample_system (sample_ent ''rt'' rt_net) sample_world = Some (r, w')"
    by (simp add: entity_stop_def Let_def give_token_def)
  then show ?thesis
    using stop_outcomes[OF run] by simp
qed

theorem start_stop_roundtrip_witness:
  "\<exists>w1 w2. entity_start sample_system (sample_ent ''cl'' cl_net) sample_world = Some (Next (), w1) \<and>
     entity_stop sample_system (sample_ent ''cl'' cl_net) w1 = Some (Next (), w2) \<and>
     is_live w1 ''cl'' \<and> \<not> is_live w2 ''cl'' \<and> is_live w2 ''sw''"
  using start_stop_roundtrip[of sample_world "''cl''" "[''sw'', ''rt'']" sample_system sample_system
      "sample_ent ''cl'' cl_net"] sample_uplinks sample_net_valid sample_healthy
  by (fastforce simp: pending_def)

end
