(* ===== verification/Entity_Calls.thy ===== *)
theory Entity_Calls
  imports Lock_Order Entity_Start_Properties
begin

text \<open>
  The coroutines that \<open>Start\<close> and \<open>Stop\<close> make (\<open>daemon/controller.cpp\<close>, \<open>daemon/entity.cpp\<close>) as runs
  of the coroutine machine, with all their suspensions. \<open>start\<close> holds the token of its entity while
  it awaits \<open>start\<close> of the uplink, so tokens are taken up the chain of uplinks; if every chain ends,
  calls that run interleaved finish. The runs are those of the sequential model \<open>entity_start\<close> and
  \<open>entity_stop\<close>, with one suspension per asynchronous effect.
\<close>

section \<open>The runs\<close>

definition has_uplink :: "config \<Rightarrow> string \<Rightarrow> string \<Rightarrow> bool" where
  "has_uplink cfg n u \<longleftrightarrow>
     (case try_get cfg n of None \<Rightarrow> False | Some ent \<Rightarrow> uplink_of (entity_self ent) = Ret (Some u))"

text \<open>
  \<open>entity::start\<close>: an entity that is live returns at once; another one first awaits
  \<open>start\<close> of its uplink, if it has one, and then is suspended \<open>k\<close> times until
  it succeeds or fails. A run has only what the coroutine machine sees: the loop that processes the new
  bus until it is ready blocks the whole process and suspends nothing (\<open>wait_ready\<close> has
  it), and where an assertion ends the process there is no run. In the same way \<open>stop_run\<close>
  has no part for the blocking \<open>waitpid\<close>.
\<close>

inductive start_run :: "config \<Rightarrow> string \<Rightarrow> instr list \<Rightarrow> bool" for cfg where
  start_live: "start_run cfg n [Acquire n, Return, Release n]"
| start_alone: "try_get cfg n = Some ent \<Longrightarrow> (\<And>u. \<not> has_uplink cfg n u) \<Longrightarrow>
    e \<in> {Return, Fail} \<Longrightarrow> start_run cfg n (Acquire n # replicate k Pause @ [e, Release n])"
| start_linked: "has_uplink cfg n u \<Longrightarrow> try_get cfg u = Some uplink \<Longrightarrow> start_run cfg u q \<Longrightarrow>
    e \<in> {Return, Fail} \<Longrightarrow> start_run cfg n (Acquire n # Call q # replicate k Pause @ [e, Release n])"

inductive stop_run :: "string \<Rightarrow> instr list \<Rightarrow> bool" where
  stop_any: "e \<in> {Return, Fail} \<Longrightarrow> stop_run n (Acquire n # replicate k Pause @ [e, Release n])"

text \<open>The methods of the controller: a name that cannot be read or does not exist is refused.\<close>

inductive method_run :: "config \<Rightarrow> instr list \<Rightarrow> bool" for cfg where
  method_refused: "method_run cfg [Fail]"
| method_starts: "try_get cfg n = Some ent \<Longrightarrow> start_run cfg n q \<Longrightarrow> e \<in> {Return, Fail} \<Longrightarrow>
    method_run cfg [Call q, e]"
| method_stops: "try_get cfg n = Some ent \<Longrightarrow> stop_run n q \<Longrightarrow> e \<in> {Return, Fail} \<Longrightarrow>
    method_run cfg [Call q, e]"

lemma work_part [simp]:
  assumes "e \<in> {Return, Fail}"
  shows "wf_code (replicate k Pause @ [e, Release n])" "tokens (replicate k Pause @ [e, Release n]) = [n]"
    "ordered r T (replicate k Pause @ [e, Release n])"
  using assms by (induction k; auto)+

lemma start_run_wf: "start_run cfg n p \<Longrightarrow> wf_code p \<and> tokens p = []"
  by (induction rule: start_run.induct) auto

lemma stop_run_wf: "stop_run n p \<Longrightarrow> wf_code p \<and> tokens p = []"
  by (auto elim!: stop_run.cases)

lemma method_run_wf: "method_run cfg p \<Longrightarrow> wf_code p \<and> tokens p = []"
  by (auto elim!: method_run.cases dest: start_run_wf stop_run_wf)

section \<open>Chains of uplinks that end\<close>

inductive ends_after :: "config \<Rightarrow> string \<Rightarrow> nat \<Rightarrow> bool" for cfg where
  ends_here: "(\<And>u. \<not> has_uplink cfg n u) \<Longrightarrow> ends_after cfg n 0"
| ends_above: "has_uplink cfg n u \<Longrightarrow> ends_after cfg u k \<Longrightarrow> ends_after cfg n (Suc k)"

inductive_cases ends_here_cases: "ends_after cfg n 0"
inductive_cases ends_above_cases: "ends_after cfg n (Suc k)"

definition uplinks_end :: "config \<Rightarrow> bool" where
  "uplinks_end cfg \<longleftrightarrow> (\<forall>n. \<exists>k. ends_after cfg n k)"

lemma has_uplink_unique: "has_uplink cfg n u \<Longrightarrow> has_uplink cfg n v \<Longrightarrow> u = v"
  by (auto simp: has_uplink_def split: option.splits)

lemma ends_after_unique: "ends_after cfg n k \<Longrightarrow> ends_after cfg n l \<Longrightarrow> k = l"
proof (induction arbitrary: l rule: ends_after.induct)
  case (ends_above n u k)
  from ends_above.prems show ?case
  proof (cases rule: ends_after.cases)
    case (ends_above v j)
    then show ?thesis
      using has_uplink_unique[OF ends_above(2)] ends_above.hyps \<open>has_uplink cfg n u\<close> \<open>\<And>l. ends_after cfg u l \<Longrightarrow> k = l\<close>
      by blast
  qed (use ends_above.hyps in blast)
qed (auto elim: ends_after.cases)

lemma uplinks_ends_after: "uplinks cfg n us \<Longrightarrow> ends_after cfg n (length us)"
  by (induction rule: uplinks.induct) (auto intro!: ends_after.intros simp: has_uplink_def)

definition depth :: "config \<Rightarrow> string \<Rightarrow> nat" where
  "depth cfg n = (THE k. ends_after cfg n k)"

lemma depth_eq: "ends_after cfg n k \<Longrightarrow> depth cfg n = k"
  unfolding depth_def using ends_after_unique by blast

lemma depth_below:
  assumes "uplinks_end cfg" "has_uplink cfg n u"
  shows "depth cfg u < depth cfg n"
proof -
  obtain k where k: "ends_after cfg u k"
    using assms(1) by (auto simp: uplinks_end_def)
  show ?thesis
    using depth_eq[OF k] depth_eq[OF ends_above[OF assms(2) k]] by simp
qed

lemma start_run_ordered:
  assumes "uplinks_end cfg" "start_run cfg n p" "\<forall>k \<in> set T. depth cfg n < depth cfg k"
  shows "ordered (depth cfg) T p"
  using assms(2,3)
proof (induction arbitrary: T rule: start_run.induct)
  case (start_linked n u uplink q e k)
  have "depth cfg u < depth cfg n"
    using depth_below[OF assms(1)] start_linked.hyps by blast
  then have "ordered (depth cfg) (T @ [n]) q"
    using start_linked.prems by (intro start_linked.IH) auto
  then show ?case
    using start_linked.prems start_linked.hyps by auto
qed auto

lemma method_run_ordered:
  assumes "uplinks_end cfg" "method_run cfg p"
  shows "ordered (depth cfg) [] p"
  using assms(2) start_run_ordered[OF assms(1), of _ _ "[]"] by (auto elim!: method_run.cases stop_run.cases)

text \<open>Runs on a configuration are runs on every later one, which keeps its entities.\<close>

lemma start_run_mono:
  assumes "start_run cfg n p" "\<And>n e. try_get cfg n = Some e \<Longrightarrow>
    (\<exists>e'. try_get cfg' n = Some e') \<and> (\<forall>u. has_uplink cfg' n u \<longleftrightarrow> has_uplink cfg n u)"
  shows "start_run cfg' n p"
  using assms(1)
proof (induction rule: start_run.induct)
  case (start_alone n ent e k)
  then show ?case
    using assms(2)[of n ent] by (auto intro!: start_run.start_alone)
next
  case (start_linked n u uplink q e k)
  obtain ent where "try_get cfg n = Some ent"
    using start_linked.hyps(1) by (auto simp: has_uplink_def split: option.splits)
  then show ?case
    using assms(2)[of n ent] assms(2)[of u uplink] start_linked by (auto intro!: start_run.start_linked)
qed (rule start_run.start_live)

lemma method_run_mono:
  assumes "method_run cfg p" "\<And>n e. try_get cfg n = Some e \<Longrightarrow>
    (\<exists>e'. try_get cfg' n = Some e') \<and> (\<forall>u. has_uplink cfg' n u \<longleftrightarrow> has_uplink cfg n u)"
  shows "method_run cfg' p"
  using assms(1)
proof cases
  case (method_starts n ent q e)
  obtain ent' where ent': "try_get cfg' n = Some ent'"
    using assms(2)[OF method_starts(2)] by blast
  have "start_run cfg' n q"
    by (rule start_run_mono[OF method_starts(3)]) (rule assms(2))
  then show ?thesis
    unfolding method_starts(1) using method_starts(4) by (rule method_run.method_starts[OF ent'])
next
  case (method_stops n ent q e)
  then show ?thesis
    using assms(2)[of n ent] method_run.method_stops by metis
qed (simp add: method_refused)

section \<open>The sequential model makes these runs\<close>

text \<open>The effects that suspend the coroutine: D-Bus calls and waiting for a signal.\<close>

fun suspends :: "effect \<Rightarrow> bool" where
  "suspends (StartTransientUnit u s) = True"
| "suspends (AwaitJob j) = True"
| "suspends (AddComponentCall n t c) = True"
| "suspends (ShutdownCall n) = True"
| "suspends (StopUnit u) = True"
| "suspends (AwaitUnit u) = True"
| "suspends _ = False"

text \<open>
  A level of a call is an entity whose token the call takes, what the call does for this entity, and how
  it ends there. The code of a call is fixed by its levels, from the entity that is named up the
  uplinks: take the token, await \<open>start\<close> of the level above, be suspended once for each
  effect that suspends.
\<close>

type_synonym level = "string \<times> effect list \<times> instr"

fun start_code :: "level list \<Rightarrow> instr list" where
  "start_code [] = []"
| "start_code ((n, es, e) # ls) =
     Acquire n # (if ls = [] then [] else [Call (start_code ls)]) @
     replicate (length (filter suspends es)) Pause @ [e, Release n]"

text \<open>What the levels do, the uppermost first.\<close>

definition all_effects :: "level list \<Rightarrow> effect list" where
  "all_effects ls = concat (rev (map (fst \<circ> snd) ls))"

lemma all_effects_simps [simp]: "all_effects [] = []" "all_effects ((n, es, e) # ls) = all_effects ls @ es"
  by (simp_all add: all_effects_def)

text \<open>
  The tokens that \<open>start\<close> takes, in this order: that of the entity, and unless the entity
  is live or has no uplink, those that \<open>start\<close> of its uplink takes.
\<close>

inductive takes :: "config \<Rightarrow> (string \<times> int) list \<Rightarrow> string \<Rightarrow> string list \<Rightarrow> bool" for cfg lv where
  takes_live: "map_of lv n \<noteq> None \<Longrightarrow> takes cfg lv n [n]"
| takes_alone: "map_of lv n = None \<Longrightarrow> (\<And>u. \<not> has_uplink cfg n u) \<Longrightarrow> takes cfg lv n [n]"
| takes_linked: "map_of lv n = None \<Longrightarrow> has_uplink cfg n u \<Longrightarrow> takes cfg lv u us \<Longrightarrow> takes cfg lv n (n # us)"

lemma takes_nonempty: "takes cfg lv n ns \<Longrightarrow> ns \<noteq> []"
  by (cases rule: takes.cases) auto

definition ending :: "'a co \<Rightarrow> instr" where
  "ending r = (case r of Next _ \<Rightarrow> Return | _ \<Rightarrow> Fail)"

lemma ending_cases [simp]: "ending r \<in> {Return, Fail}" "ending r = Return \<or> ending r = Fail"
  by (auto simp: ending_def split: co.splits)

text \<open>
  What each level does is either nothing, or what the body of \<open>start\<close> after the uplink does
  for that entity, after all that was done for the levels above.
\<close>

definition works :: "system \<Rightarrow> config \<Rightarrow> effect list \<Rightarrow> level \<Rightarrow> bool" where
  "works env cfg h l \<longleftrightarrow>
     (case l of (n, es, e) \<Rightarrow> es = [] \<and> e = Return \<or>
        (\<exists>ent w r w'. try_get cfg n = Some ent \<and> start_self env ent w = Some (r, w') \<and>
           conf w = cfg \<and> effects w = h \<and> effects w' = h @ es \<and> e = ending r))"

fun all_work :: "system \<Rightarrow> config \<Rightarrow> effect list \<Rightarrow> level list \<Rightarrow> bool" where
  "all_work env cfg h [] \<longleftrightarrow> True"
| "all_work env cfg h (l # ls) \<longleftrightarrow> all_work env cfg h ls \<and> works env cfg (h @ all_effects ls) l"

text \<open>Either every level succeeds, or one fails, and then those below it do nothing any more.\<close>

definition all_succeed :: "level list \<Rightarrow> bool" where
  "all_succeed ls \<longleftrightarrow> (\<forall>l \<in> set ls. snd (snd l) = Return)"

definition one_fails :: "level list \<Rightarrow> bool" where
  "one_fails ls \<longleftrightarrow> (\<exists>below n es above. ls = below @ (n, es, Fail) # above \<and>
     (\<forall>l \<in> set below. snd l = ([], Return)) \<and> all_succeed above)"

lemma one_fails_here: "all_succeed ls \<Longrightarrow> one_fails ((n, es, Fail) # ls)"
  unfolding one_fails_def by (rule exI[of _ "[]"]) simp

lemma one_fails_above: "one_fails ls \<Longrightarrow> one_fails ((n, [], Return) # ls)"
  unfolding one_fails_def
proof (elim exE conjE)
  fix below m es above
  assume "ls = below @ (m, es, Fail) # above" "\<forall>l \<in> set below. snd l = ([], Return)" "all_succeed above"
  then show "\<exists>below m es above. (n, [], Return) # ls = below @ (m, es, Fail) # above \<and>
      (\<forall>l \<in> set below. snd l = ([], Return)) \<and> all_succeed above"
    by (intro exI[of _ "(n, [], Return) # below"] exI[of _ m] exI[of _ es] exI[of _ above]) simp
qed

definition ends_as :: "level list \<Rightarrow> 'a co \<Rightarrow> bool" where
  "ends_as ls r \<longleftrightarrow> (case r of Next _ \<Rightarrow> all_succeed ls | Stop _ \<Rightarrow> one_fails ls | Died \<Rightarrow> False)"

definition appended :: "string \<Rightarrow> world \<Rightarrow> world \<Rightarrow> bool" where
  "appended n w w' \<longleftrightarrow> (\<exists>es. effects w' = effects w @ es)"

interpretation appended: entering_relation appended
  by unfold_locales (auto simp: appended_def)

text \<open>The levels of a call of \<open>start\<close>.\<close>

definition start_levels :: "system \<Rightarrow> world \<Rightarrow> string \<Rightarrow> unit co \<Rightarrow> world \<Rightarrow> level list \<Rightarrow> bool" where
  "start_levels env w n r w' ls \<longleftrightarrow>
     start_run (conf w) n (start_code ls) \<and> takes (conf w) (live w) n (map fst ls) \<and>
     effects w' = effects w @ all_effects ls \<and> all_work env (conf w) (effects w) ls \<and> ends_as ls r"

lemma start_levels_held [simp]:
  "start_levels env (w\<lparr>held := a\<rparr>) n r w' ls = start_levels env w n r w' ls"
  "start_levels env w n r (w'\<lparr>held := a\<rparr>) ls = start_levels env w n r w' ls"
  by (simp_all add: start_levels_def)

lemma own_level:
  assumes "start_self env ent w = Some (r, w')" "r \<noteq> Died" "try_get cfg (entity_name ent) = Some ent" "conf w = cfg"
  obtains es where "effects w' = effects w @ es" "works env cfg (effects w) (entity_name ent, es, ending r)"
proof -
  have "appended (entity_name ent) w w'"
    using appended.resp_self assms(1) unfolding appended.resp_R_def by blast
  then obtain es where "effects w' = effects w @ es"
    by (auto simp: appended_def)
  then show thesis
    using that[of es] assms unfolding works_def by blast
qed

lemma alone_levels:
  assumes "start_self env ent w = Some (r, w')" "r \<noteq> Died" "entity_name ent = n" "\<not> is_live w n"
    and "try_get (conf w) n = Some ent" "uplink_of (entity_self ent) = Ret None"
  shows "\<exists>ls. start_levels env w n r w' ls"
proof -
  obtain es where es: "effects w' = effects w @ es" "works env (conf w) (effects w) (n, es, ending r)"
    using own_level[OF assms(1,2)] assms(3,5) by blast
  have top: "\<not> has_uplink (conf w) n u" for u
    using assms(5,6) by (simp add: has_uplink_def)
  have "start_run (conf w) n (start_code [(n, es, ending r)])"
    using start_alone[OF assms(5) top, of "ending r"] by simp
  moreover have "ends_as [(n, es, ending r)] r"
    using assms(2) one_fails_here[of "[]"] by (auto simp: ends_as_def ending_def all_succeed_def split: co.splits)
  ultimately have "start_levels env w n r w' [(n, es, ending r)]"
    using es top assms(4) by (auto simp: start_levels_def is_live_def intro: takes_alone)
  then show ?thesis ..
qed

lemma linked_levels:
  assumes run: "bind_cm (entity_start env uplink) (\<lambda>_. start_self env ent) w = Some (r, w')" "r \<noteq> Died"
    and ent: "entity_name ent = n" "try_get (conf w) n = Some ent" "has_uplink (conf w) n u"
      "try_get (conf w) u = Some uplink" "\<not> is_live w n"
    and IH: "\<And>r1 w1. entity_start env uplink w = Some (r1, w1) \<Longrightarrow> r1 \<noteq> Died \<Longrightarrow>
      \<exists>ls. start_levels env w u r1 w1 ls"
  shows "\<exists>ls. start_levels env w n r w' ls"
proof -
  have linked: "start_run (conf w) n (start_code ((n, es, e) # ls))"
    if "start_levels env w u r1 w1 ls" "e \<in> {Return, Fail}" for es e ls and r1 :: "unit co" and w1
    using start_linked[OF ent(3,4) _ that(2), of "start_code ls" "length (filter suspends es)"] that(1)
      takes_nonempty by (auto simp: start_levels_def)
  have taken: "takes (conf w) (live w) n (n # map fst ls)"
    if "start_levels env w u r1 w1 ls" for ls and r1 :: "unit co" and w1
    using that ent(3,5) by (auto simp: start_levels_def is_live_def intro: takes_linked)
  from run(1) show ?thesis
  proof (cases rule: bind_cm_cases)
    case (go_on x w1)
    obtain ls where ls: "start_levels env w u (Next x) w1 ls"
      using IH[OF go_on(1)] by auto
    have "conf w1 = conf w"
      using entity_start_kept[OF go_on(1)] by (simp add: start_kept_def)
    then obtain es where es: "effects w' = effects w1 @ es" "works env (conf w) (effects w1) (n, es, ending r)"
      using own_level[OF go_on(2) run(2)] ent(1,2) by blast
    have "ends_as ((n, es, ending r) # ls) r"
      using ls run(2) one_fails_here[of ls] 
      by (auto simp: start_levels_def ends_as_def ending_def all_succeed_def split: co.splits)
    then have "start_levels env w n r w' ((n, es, ending r) # ls)"
      using linked[OF ls, of "ending r" es] taken[OF ls] ls es by (simp add: start_levels_def)
    then show ?thesis ..
  next
    case (stopped x)
    obtain ls where ls: "start_levels env w u (Stop x :: unit co) w' ls"
      using IH[OF stopped(1)] by auto
    have "ends_as ((n, [], Return) # ls) r"
      using ls stopped(2) one_fails_above[of ls n] by (simp add: start_levels_def ends_as_def)
    then have "start_levels env w n r w' ((n, [], Return) # ls)"
      using linked[OF ls, of Return "[]"] taken[OF ls] ls by (simp add: start_levels_def works_def)
    then show ?thesis ..
  qed (use run(2) in simp)
qed

lemma give_token_Some:
  assumes "give_token n m = Some (r, w')"
  obtains w2 where "m = Some (r, w2)" "w' = w2\<lparr>held := remove1 n (held w2)\<rparr>"
  using assms by (auto simp: give_token_def)

lemma start_makes_run:
  assumes "entity_start env ent w = Some (r, w')" "r \<noteq> Died"
    and "try_get (conf w) (entity_name ent) = Some ent"
  shows "\<exists>ls. start_levels env w (entity_name ent) r w' ls"
  using assms
proof (induction env ent w arbitrary: r w' rule: entity_start.induct)
  case (1 env ent w)
  let ?n = "entity_name ent" and ?w = "w\<lparr>held := entity_name ent # held w\<rparr>"
  note run = "1.prems"(1)
  have free: "?n \<notin> set (held w)"
    using run by (subst (asm) entity_start.simps) (auto simp: Let_def split: if_splits)
  show ?case
  proof (cases "is_live w ?n")
    case True
    have "start_levels env w ?n r w' [(?n, [], Return)]"
      using run entity_start_live[OF True free, of env] True start_live
      by (auto simp: start_levels_def works_def ends_as_def all_succeed_def is_live_def intro: takes_live)
    then show ?thesis ..
  next
    case False
    then consider "uplink_of (entity_self ent) = Ret None"
      | u uplink where "uplink_of (entity_self ent) = Ret (Some u)" "try_get (conf w) u = Some uplink"
      using run "1.prems"(2) free
      by (subst (asm) entity_start.simps)
        (auto simp: Let_def is_live_def give_token_def split: res.splits option.splits)
    then show ?thesis
    proof cases
      case 1
      then obtain w2 where w2: "start_self env ent ?w = Some (r, w2)" "w' = w2\<lparr>held := remove1 ?n (held w2)\<rparr>"
        using run entity_start_top[OF False free, of env] give_token_Some by metis
      have "\<exists>ls. start_levels env ?w ?n r w2 ls"
        by (rule alone_levels[OF w2(1) "1.prems"(2) refl]) (use False "1.prems"(3) 1 in \<open>simp_all add: is_live_def\<close>)
      then show ?thesis
        using w2(2) by simp
    next
      case 2
      then obtain w2 where w2: "bind_cm (entity_start env uplink) (\<lambda>_. start_self env ent) ?w = Some (r, w2)"
          "w' = w2\<lparr>held := remove1 ?n (held w2)\<rparr>"
        using run entity_start_below[OF False free, of u uplink env] give_token_Some by metis
      have up: "has_uplink (conf ?w) ?n u" "\<not> is_live ?w ?n" "try_get (conf ?w) ?n = Some ent"
          "try_get (conf ?w) u = Some uplink"
        using "1.prems"(3) 2 False by (simp_all add: has_uplink_def is_live_def)
      have named: "entity_name uplink = u"
        using 2(2) by (simp add: try_get_Some)
      have "\<exists>ls. start_levels env ?w u r1 w1 ls"
        if "entity_start env uplink ?w = Some (r1, w1)" "r1 \<noteq> Died" for r1 w1
        using "1.IH"[OF refl refl, of "Some u" u uplink] free False 2 named that by (auto simp: is_live_def)
      from linked_levels[OF w2(1) "1.prems"(2) refl up(3,1,4,2) this] show ?thesis
        using w2(2) by simp
    qed
  qed
qed

lemma stop_self_appends: "stop_self env n pid w = Some (r, w') \<Longrightarrow> appended n w w'"
proof -
  have "appended.resp_R n (modify_cm (\<lambda>w. w\<lparr>live := map_erase n (live w)\<rparr>))"
    by (auto simp: appended.resp_R_def appended_def)
  then have "appended.resp_R n (stop_self env n pid)"
    unfolding stop_self_def by (intro appended.resp_rules appended.resp_slice)
  then show "stop_self env n pid w = Some (r, w') \<Longrightarrow> appended n w w'"
    unfolding appended.resp_R_def by blast
qed

lemma stop_makes_run:
  assumes "entity_stop env ent w = Some (r, w')" "r \<noteq> Died"
  shows "\<exists>es. effects w' = effects w @ es \<and> stop_run (entity_name ent) (start_code [(entity_name ent, es, ending r)])"
proof -
  let ?n = "entity_name ent"
  have "appended ?n w w'"
  proof (cases "map_of (live w) ?n")
    case None
    then show ?thesis
      using assms(1) by (auto simp: entity_stop_def Let_def give_token_def appended_def split: if_splits)
  next
    case (Some pid)
    then obtain w2 where "stop_self env ?n pid (w\<lparr>held := ?n # held w\<rparr>) = Some (r, w2)"
        "w' = w2\<lparr>held := remove1 ?n (held w2)\<rparr>"
      using assms(1) by (auto simp: entity_stop_def Let_def give_token_def split: if_splits)
    then show ?thesis
      using stop_self_appends[of env ?n pid "w\<lparr>held := ?n # held w\<rparr>" r w2] by (simp add: appended_def)
  qed
  then show ?thesis
    using stop_any[of "ending r" ?n] by (auto simp: appended_def)
qed

section \<open>Calls\<close>

text \<open>A call ends with the reply of a success, or with that of an error, which is never a return value.\<close>

definition replied :: "bus \<Rightarrow> bool \<Rightarrow> reply list \<Rightarrow> bool" where
  "replied bus ok rs \<longleftrightarrow>
     (if ok then rs = [if reply_method_return bus < 0 then MethodErrno (reply_method_return bus) None
                       else MethodReturn []]
      else \<forall>r \<in> set rs. \<forall>vals. r \<noteq> MethodReturn vals)"

lemma error_replied: "co_return bus [] None w r = Ret ou \<Longrightarrow> replied bus False (sent ou)"
  by (cases r) (auto simp: co_return_def replied_def replies_def split: if_splits)

lemma finish_call_cases:
  assumes "finish_call bus m = Some (Ret ou)"
  obtains r w where "m = Some (r, w)" "r \<noteq> Died" "state ou = w" "replied bus (ending r = Return) (sent ou)"
proof -
  obtain r w where m: "m = Some (r, w)"
    using assms by (auto simp: finish_call_def split: option.splits)
  show thesis
  proof (cases r)
    case (Next x)
    then show thesis
      using that[OF m] assms m by (auto simp: finish_call_def ending_def replied_def dest!: co_return_reply_Ret)
  next
    case (Stop q)
    then have run: "co_return bus [] None w q = Ret ou"
      using assms m by (simp add: finish_call_def)
    show thesis
      using that[OF m] co_return_Ret[OF run] error_replied[OF run] Stop by (simp add: ending_def)
  qed (use assms m in \<open>simp add: finish_call_def\<close>)
qed

text \<open>
  C19: every call of \<open>Start\<close> or \<open>Stop\<close> that the sequential model answers is
  one run of the coroutine machine, which the call determines. A name that cannot be read or does not
  exist is refused without a coroutine and without an effect. Otherwise the method awaits one coroutine.
  That of \<open>Start\<close> takes the token of the named entity, then those of its uplinks up to the
  first that is live or has no uplink, in this order and no other; it is suspended once for every D-Bus
  call and every awaited signal among the effects of each level; the effects of the call are those of
  the levels, the uppermost first, each what \<open>start\<close> does for that entity. The reply is
  that of a success if and only if every level returns; otherwise exactly one level fails after its
  effects, all above it have returned, and those below it do nothing. That of \<open>Stop\<close> takes
  the token of the named entity only, is suspended once for every D-Bus call and signal among the
  effects of the call, and fails if and only if the reply is not that of a success.
\<close>

theorem calls_are_runs:
  "(\<forall>ou. method_start bus env read n w = Some (Ret ou) \<longrightarrow>
      (if read < 0 \<or> try_get (conf w) n = None then state ou = w \<and> replied bus False (sent ou)
       else \<exists>ls. method_run (conf w) [Call (start_code ls), Return] \<and> start_run (conf w) n (start_code ls) \<and>
         takes (conf w) (live w) n (map fst ls) \<and>
         effects (state ou) = effects w @ all_effects ls \<and> all_work env (conf w) (effects w) ls \<and>
         ((all_succeed ls \<and> replied bus True (sent ou)) \<or> (one_fails ls \<and> replied bus False (sent ou))))) \<and>
   (\<forall>ou. method_stop bus env read n w = Some (Ret ou) \<longrightarrow>
      (if read < 0 \<or> try_get (conf w) n = None then state ou = w \<and> replied bus False (sent ou)
       else \<exists>es e. method_run (conf w) [Call (start_code [(n, es, e)]), Return] \<and>
         stop_run n (start_code [(n, es, e)]) \<and>
         effects (state ou) = effects w @ es \<and> replied bus (e = Return) (sent ou)))"
proof (intro conjI allI impI, goal_cases)
  case (1 ou)
  show ?case
  proof (cases "read < 0 \<or> try_get (conf w) n = None")
    case True
    then show ?thesis
      using 1 co_return_Ret error_replied by (fastforce simp: method_start_def split: if_splits)
  next
    case False
    then obtain ent where ent: "try_get (conf w) n = Some ent" "entity_name ent = n"
      by (auto simp: try_get_Some)
    obtain r where r: "entity_start env ent w = Some (r, state ou)" "r \<noteq> Died" "replied bus (ending r = Return) (sent ou)"
      using 1 False ent finish_call_cases[of bus "entity_start env ent w" ou] by (auto simp: method_start_def)
    then obtain ls where ls: "start_levels env w n r (state ou) ls"
      using start_makes_run[of env ent w r] ent by auto
    have "(all_succeed ls \<and> replied bus True (sent ou)) \<or> (one_fails ls \<and> replied bus False (sent ou))"
      using ls r(2,3) by (auto simp: start_levels_def ends_as_def ending_def split: co.splits)
    moreover have "method_run (conf w) [Call (start_code ls), Return]"
      using ls method_starts[OF ent(1)] by (simp add: start_levels_def)
    ultimately show ?thesis
      unfolding if_not_P[OF False] using ls unfolding start_levels_def by blast
  qed
next
  case (2 ou)
  show ?case
  proof (cases "read < 0 \<or> try_get (conf w) n = None")
    case True
    then show ?thesis
      using 2 co_return_Ret error_replied by (fastforce simp: method_stop_def split: if_splits)
  next
    case False
    then obtain ent where ent: "try_get (conf w) n = Some ent" "entity_name ent = n"
      by (auto simp: try_get_Some)
    obtain r where r: "entity_stop env ent w = Some (r, state ou)" "r \<noteq> Died" "replied bus (ending r = Return) (sent ou)"
      using 2 False ent finish_call_cases[of bus "entity_stop env ent w" ou] by (auto simp: method_stop_def)
    then obtain es where es: "effects (state ou) = effects w @ es" "stop_run n (start_code [(n, es, ending r)])"
      using stop_makes_run[of env ent w r] ent by auto
    have "method_run (conf w) [Call (start_code [(n, es, ending r)]), Return]"
      using method_stops[OF ent(1) es(2)] by simp
    then have "\<exists>es e. method_run (conf w) [Call (start_code [(n, es, e)]), Return] \<and> stop_run n (start_code [(n, es, e)]) \<and>
        effects (state ou) = effects w @ es \<and> replied bus (e = Return) (sent ou)"
      using es r(3) by blast
    then show ?thesis
      unfolding if_not_P[OF False] .
  qed
qed

section \<open>Which entities can be started\<close>

lemma uplink_of_total:
  assumes "valid_config (configuration cfg)" "n \<notin> reserved_keys" "try_get cfg n = Some ent"
  shows "uplink_of (entity_self ent) = Ret None \<or> (\<exists>u. uplink_of (entity_self ent) = Ret (Some u))"
proof (cases "json_find ''network'' (entity_self ent)")
  case (Some net)
  then obtain m where m: "net = JObject m" "valid_network (configuration cfg) n m"
    using valid_network_of[OF assms] by blast
  show ?thesis
  proof (cases "map_of m ''uplink''")
    case u: (Some u)
    then have "uplink_ok (configuration cfg) u"
      using m(2) by (auto simp: valid_network_def split: option.splits json.splits)
    then show ?thesis
      using Some m(1) u by (cases u) (auto simp: uplink_of_def uplink_ok_def)
  qed (use Some m(1) in \<open>simp add: uplink_of_def\<close>)
qed (simp add: uplink_of_def)

text \<open>
  C22: let nothing be live and no token be held, let every call into the system and the bus succeed, and
  let no uplink in the configuration name one of the reserved keys \<open>!metadata\<close> and
  \<open>:default-netns\<close>. Then \<open>Start\<close> of an entity of a valid configuration is
  answered, with success and nothing else, if and only if its uplinks end. Otherwise, in a cycle of
  uplinks, which validation accepts, or below one, it never gets to a reply.
\<close>

theorem start_answers_iff_uplinks_end:
  assumes "valid_config (configuration (conf w))" "n \<notin> reserved_keys" "try_get (conf w) n = Some ent"
    and "\<And>x u. has_uplink (conf w) x u \<Longrightarrow> u \<notin> reserved_keys"
    and "\<And>x. \<not> is_live w x" "world.held w = []" "healthy env" "reply_method_return bus \<ge> 0" "read \<ge> 0"
  shows "if \<exists>us. uplinks (conf w) n us
    then \<exists>w'. method_start bus env read n w = Some (Ret \<lparr>sent = [MethodReturn []], ret_error = None, state = w'\<rparr>)
    else method_start bus env read n w = None"
proof (cases "\<exists>us. uplinks (conf w) n us")
  case True
  then have "\<exists>w'. method_start bus env read n w = Some (Ret \<lparr>sent = [MethodReturn []], ret_error = None, state = w'\<rparr>)"
    using method_start_chain[OF assms(1) _ assms(6-9)] by blast
  then show ?thesis
    using True by simp
next
  case False
  define S where "S = {x. x \<notin> reserved_keys \<and> try_get (conf w) x \<noteq> None \<and> \<not> (\<exists>us. uplinks (conf w) x us)}"
  have step: "\<exists>e u. try_get (conf w) x = Some e \<and> uplink_of (entity_self e) = Ret (Some u) \<and> u \<in> S"
    if "x \<in> S" for x
  proof -
    obtain e where e: "x \<notin> reserved_keys" "try_get (conf w) x = Some e" "\<not> (\<exists>us. uplinks (conf w) x us)"
      using \<open>x \<in> S\<close> by (auto simp: S_def)
    obtain u where u: "uplink_of (entity_self e) = Ret (Some u)"
      using uplinks.top[OF e(1,2)] e(3) uplink_of_total[OF assms(1) e(1,2)] by blast
    have "u \<notin> reserved_keys" "try_get (conf w) u \<noteq> None"
      using assms(4)[of x u] uplink_of_valid[OF assms(1) e(1,2) u] e(2) u by (auto simp: has_uplink_def)
    then show ?thesis
      using e u uplinks.below[OF e(1,2) u] by (auto simp: S_def)
  qed
  have "n \<in> S"
    using assms(2,3) False by (simp add: S_def)
  then have "method_start bus env read n w = None"
    by (rule start_of_cycle_never_answers[OF _ assms(9)]) (use assms(5) step in blast)
  then show ?thesis
    using False by simp
qed

theorem start_answers_iff_uplinks_end_witness:
  "(\<exists>w'. method_start good_bus sample_system 1 ''cl'' sample_world =
      Some (Ret \<lparr>sent = [MethodReturn []], ret_error = None, state = w'\<rparr>)) \<and>
   method_start good_bus sample_system 1 ''xx'' sample_world = None"
proof -
  have up: "u \<notin> reserved_keys" if "has_uplink (conf sample_world) x u" for x u
    using that by (auto simp: has_uplink_def sample_net_def try_get_def uplink_of_def cl_net_def sw_net_def rt_net_def
        xx_net_def reserved_keys_def split: option.splits if_splits)
  have valid: "valid_config (configuration (conf sample_world))"
    using sample_net_valid by simp
  have none: "\<not> (\<exists>us. uplinks sample_net ''xx'' us)"
  proof
    assume "\<exists>us. uplinks sample_net ''xx'' us"
    then obtain us where us: "uplinks sample_net ''xx'' us"
      by blast
    then obtain vs where "us = ''xx'' # vs"
      by (cases rule: uplinks.cases) auto
    then show False
      using uplinks_distinct[OF us] by simp
  qed
  have start: "if \<exists>us. uplinks sample_net n us
    then \<exists>w'. method_start good_bus sample_system 1 n sample_world =
      Some (Ret \<lparr>sent = [MethodReturn []], ret_error = None, state = w'\<rparr>)
    else method_start good_bus sample_system 1 n sample_world = None"
    if "n \<notin> reserved_keys" "try_get sample_net n = Some ent" for n ent
  proof -
    have get: "try_get (conf sample_world) n = Some ent"
      using that(2) by simp
    have "0 \<le> reply_method_return good_bus" "0 \<le> (1 :: int)"
      by (simp_all add: good_bus_def)
    then have "if \<exists>us. uplinks (conf sample_world) n us
      then \<exists>w'. method_start good_bus sample_system 1 n sample_world =
        Some (Ret \<lparr>sent = [MethodReturn []], ret_error = None, state = w'\<rparr>)
      else method_start good_bus sample_system 1 n sample_world = None"
      by (intro start_answers_iff_uplinks_end[OF valid that(1) get _ _ _ sample_healthy]) (use up in simp_all)
    then show ?thesis
      by simp
  qed
  have ends: "\<exists>us. uplinks sample_net ''cl'' us"
    using sample_uplinks(2) by blast
  have "\<exists>w'. method_start good_bus sample_system 1 ''cl'' sample_world =
      Some (Ret \<lparr>sent = [MethodReturn []], ret_error = None, state = w'\<rparr>)"
    using start[of "''cl''", OF _ sample_get(3)] ends by (simp add: reserved_keys_def)
  moreover have "method_start good_bus sample_system 1 ''xx'' sample_world = None"
    using start[of "''xx''", OF _ sample_get(4)] none by (simp add: reserved_keys_def)
  ultimately show ?thesis by blast
qed

text \<open>A client below a switch below a root; the client and the switch are started at the same time.\<close>

definition tree_net :: config where
  "tree_net = \<lparr>mutable = False, configuration = JObject
     [(''!metadata'', JObject [(''version'', JUInt 1)]),
      (''cl'', JObject [(''network'', JObject cl_net)]), (''rt'', JObject [(''network'', JObject rt_net)]),
      (''sw'', JObject [(''network'', JObject sw_net)])], installed = True\<rparr>"

lemma tree_uplinks: "has_uplink tree_net n u \<longleftrightarrow> (n = ''cl'' \<and> u = ''sw'') \<or> (n = ''sw'' \<and> u = ''rt'')"
  by (auto simp: has_uplink_def tree_net_def try_get_def uplink_of_def cl_net_def sw_net_def rt_net_def split: option.splits)

lemma tree_uplinks_end: "uplinks_end tree_net"
proof -
  have top: "ends_after tree_net n 0" if "n \<noteq> ''cl''" "n \<noteq> ''sw''" for n
    using that by (auto intro: ends_here simp: tree_uplinks)
  have sw: "ends_after tree_net ''sw'' 1"
    using ends_above[OF _ top[of "''rt''"]] by (auto simp: tree_uplinks)
  then have "ends_after tree_net ''cl'' 2"
    using ends_above[OF _ sw] by (auto simp: tree_uplinks numeral_2_eq_2)
  then show ?thesis
    unfolding uplinks_end_def using top sw by metis
qed

definition start_rt :: "instr list" where
  "start_rt = Acquire ''rt'' # replicate 5 Pause @ [Return, Release ''rt'']"

definition start_sw :: "instr list" where
  "start_sw = Acquire ''sw'' # Call start_rt # replicate 5 Pause @ [Return, Release ''sw'']"

definition start_cl :: "instr list" where
  "start_cl = Acquire ''cl'' # Call start_sw # replicate 5 Pause @ [Fail, Release ''cl'']"

definition start_both :: "machine res" where
  "start_both =
     bind_res (run 20 (spawn None [Call start_cl, Return] initial_machine))
       (\<lambda>m. run 20 (spawn None [Call start_sw, Return] m))"

lemma tree_runs: "start_run tree_net ''sw'' start_sw" "start_run tree_net ''cl'' start_cl"
proof -
  have rt: "start_run tree_net ''rt'' start_rt"
    unfolding start_rt_def
    by (rule start_alone) (auto simp: tree_uplinks, auto simp: tree_net_def try_get_def)
  show sw: "start_run tree_net ''sw'' start_sw"
    unfolding start_sw_def
    by (rule start_linked[OF _ _ rt]) (auto simp: tree_uplinks, auto simp: tree_net_def try_get_def)
  show "start_run tree_net ''cl'' start_cl"
    unfolding start_cl_def
    by (rule start_linked[OF _ _ sw]) (auto simp: tree_uplinks, auto simp: tree_net_def try_get_def)
qed

lemma tree_method_runs: "method_run tree_net [Call start_sw, Return]" "method_run tree_net [Call start_cl, Return]"
proof -
  obtain sw cl where get: "try_get tree_net ''sw'' = Some sw" "try_get tree_net ''cl'' = Some cl"
    by (simp add: tree_net_def try_get_def)
  show "method_run tree_net [Call start_sw, Return]"
    by (rule method_starts[OF get(1) tree_runs(1)]) simp
  show "method_run tree_net [Call start_cl, Return]"
    by (rule method_starts[OF get(2) tree_runs(2)]) simp
qed

text \<open>A client is started: the tokens of the client, the switch and the root are taken in this order.\<close>

theorem calls_are_runs_witness:
  "\<exists>ou ls. method_start good_bus sample_system 1 ''cl'' sample_world = Some (Ret ou) \<and>
     map fst ls = [''cl'', ''sw'', ''rt''] \<and> all_succeed ls \<and>
     method_run sample_net [Call (start_code ls), Return] \<and> effects (state ou) = all_effects ls"
proof -
  have valid: "valid_config (configuration (conf sample_world))"
    using sample_net_valid by simp
  obtain ou where ou: "method_start good_bus sample_system 1 ''cl'' sample_world = Some (Ret ou)"
      "sent ou = [MethodReturn []]"
    using method_start_chain[OF valid, of "''cl''" "[''sw'', ''rt'']" sample_system good_bus 1]
      sample_uplinks(2) sample_healthy by (auto simp: good_bus_def)
  have net: "has_uplink sample_net ''cl'' u \<longleftrightarrow> u = ''sw''" "has_uplink sample_net ''sw'' u \<longleftrightarrow> u = ''rt''"
      "\<not> has_uplink sample_net ''rt'' u" for u
    by (auto simp: has_uplink_def)
  have "try_get (conf sample_world) ''cl'' \<noteq> None"
    by code_simp
  then obtain ls where ls: "method_run sample_net [Call (start_code ls), Return]"
      "takes sample_net [] ''cl'' (map fst ls)" "effects (state ou) = all_effects ls"
      "(all_succeed ls \<and> replied good_bus True (sent ou)) \<or> (one_fails ls \<and> replied good_bus False (sent ou))"
    using calls_are_runs[of good_bus sample_system 1 "''cl''" sample_world] ou(1) by auto
  obtain us where us: "map fst ls = ''cl'' # us" "takes sample_net [] ''sw'' us"
    using ls(2) by (cases rule: takes.cases) (auto simp: net)
  obtain vs where vs: "us = ''sw'' # vs" "takes sample_net [] ''rt'' vs"
    using us(2) by (cases rule: takes.cases) (auto simp: net)
  have "vs = [''rt'']"
    using vs(2) by (cases rule: takes.cases) (auto simp: net)
  then have "map fst ls = [''cl'', ''sw'', ''rt'']"
    using us(1) vs(1) by simp
  moreover have "all_succeed ls"
    using ls(4) ou(2) by (simp add: replied_def)
  ultimately have "map fst ls = [''cl'', ''sw'', ''rt''] \<and> all_succeed ls \<and>
      method_run sample_net [Call (start_code ls), Return] \<and> effects (state ou) = all_effects ls"
    using ls(1,3) by simp
  then show ?thesis
    using ou(1) by (intro exI[of _ ou] exI[of _ ls]) simp
qed

end
