(* ===== verification/Uplink_Order.thy ===== *)
theory Uplink_Order
  imports Entity_Calls Transactions_Properties
begin

text \<open>
  Where cycles of uplinks can come from. An entity is added only if its uplink exists, so the entities
  of a transaction are below those that were there before, and the only cycle that \<open>Commit\<close> can
  make is an entity that is its own uplink.
\<close>

section \<open>Uplinks in the configuration tree\<close>

definition edge :: "json \<Rightarrow> string \<Rightarrow> string \<Rightarrow> bool" where
  "edge s n u \<longleftrightarrow> json_at [n, ''network'', ''uplink''] s = Some (JString u)"

lemma to_string_Ret: "to_string j = Ret s \<longleftrightarrow> j = JString s"
  by (cases j) auto

lemma has_uplink_edge: "has_uplink cfg n u \<longleftrightarrow> edge (configuration cfg) n u"
  by (auto simp: has_uplink_def edge_def try_get_def uplink_of_def to_string_Ret split: option.splits)

definition same_edges :: "json \<Rightarrow> json \<Rightarrow> bool" where
  "same_edges s s' \<longleftrightarrow> (\<forall>n u. edge s n u \<longleftrightarrow> edge s' n u) \<and>
     (\<forall>k. json_find k s \<noteq> None \<longrightarrow> json_find k s' \<noteq> None)"

lemma put_keeps_keys: "json_find k s \<noteq> None \<Longrightarrow> json_find k (json_put (p # ps) v s) \<noteq> None"
  by (cases "k = p") (auto simp del: json_put.simps)

lemma subscript_keeps_string:
  "json_subscript k j = Ret (j', v) \<Longrightarrow> json_find x j' = Some (JString u) \<longleftrightarrow> json_find x j = Some (JString u)"
  by (induction k j rule: json_subscript.induct) (auto split: option.splits if_splits)

lemma edge_put_network:
  assumes "json_at [n, ''network''] s = Some j"
  shows "edge s n u \<longleftrightarrow> json_find ''uplink'' j = Some (JString u)"
    "edge (json_put [n, ''network''] j' s) n' u \<longleftrightarrow>
       (if n' = n then json_find ''uplink'' j' = Some (JString u) else edge s n' u)"
  using assms by (auto simp: edge_def simp del: json_put.simps(2-) split: option.splits)

lemma edges_slot: "same_edges s (snd (ref_subscript [n, ''network''] k s))"
proof -
  have "same_edges s (json_put [n, ''network''] j' s)"
    if at: "json_at [n, ''network''] s = Some j" and sub: "json_subscript k j = Ret (j', v)" for j j' v
    unfolding same_edges_def
  proof (intro conjI allI impI)
    fix n' u
    show "edge s n' u \<longleftrightarrow> edge (json_put [n, ''network''] j' s) n' u"
      using edge_put_network[OF at] subscript_keeps_string[OF sub, of "''uplink''"] by (cases "n' = n") auto
  qed (rule put_keeps_keys)
  then show ?thesis
    by (auto simp: ref_subscript_def same_edges_def simp del: json_put.simps json_at.simps
        split: option.splits res.splits)
qed

lemma edges_role: "same_edges s (json_put [n, ''network'', '':role''] v s)"
proof -
  have "edge (json_put [n, ''network'', '':role''] v s) n' u \<longleftrightarrow> edge s n' u" for n' u
    by (cases "n' = n") (auto simp: edge_def simp del: json_put.simps(2-) split: option.splits)
  then show ?thesis
    using put_keeps_keys by (simp add: same_edges_def del: json_put.simps)
qed

lemma edges_default:
  "same_edges s (snd (ref_subscript [] '':default-netns'' s))"
  "json_find '':default-netns'' s = Some JNull \<Longrightarrow> same_edges s (json_put ['':default-netns''] (JString name) s)"
proof -
  show "same_edges s (snd (ref_subscript [] '':default-netns'' s))"
    by (cases s) (auto simp: same_edges_def edge_def ref_subscript_def split: option.splits)
  assume "json_find '':default-netns'' s = Some JNull"
  then have "edge (json_put ['':default-netns''] (JString name) s) n u \<longleftrightarrow> edge s n u" for n u
    by (cases "n = '':default-netns''") (auto simp: edge_def simp del: json_put.simps(2-))
  then show "same_edges s (json_put ['':default-netns''] (JString name) s)"
    using put_keeps_keys by (simp add: same_edges_def del: json_put.simps)
qed

interpretation edges_rel: validation_relation name same_edges for name
  by unfold_locales (auto intro: edges_default edges_slot edges_role, auto simp: same_edges_def)

section \<open>Adding an entity\<close>

definition uplinks_ordered :: "config \<Rightarrow> bool" where
  "uplinks_ordered c \<longleftrightarrow> uplinks_end c \<and> (\<forall>n u. has_uplink c n u \<longrightarrow> try_get c u \<noteq> None)"

lemma valid_entity_uplink:
  assumes "valid_entity s n" "edge s n u"
  shows "json_find u s \<noteq> None"
proof -
  obtain m where m: "json_at [n, ''network''] s = Some (JObject m)" "map_of m ''uplink'' = Some (JString u)"
    using assms(2) by (auto simp: edge_def split: option.splits elim!: json_find.elims)
  then have "valid_network s n m"
    using assms(1) by (auto simp: valid_entity_def split: option.splits json.splits elim!: json_find.elims)
  then have "uplink_ok s (JString u)"
    using m(2) by (auto simp: valid_network_def split: option.splits json.splits)
  then show ?thesis
    by (auto simp: uplink_ok_def split: option.splits)
qed

lemma added_edges:
  assumes "config_add parse name ps c = Ret (r, c')" "error_code r = 0"
    and "valid_config (configuration c)" "wf_parser parse"
  shows "json_find name (configuration c) = None" "valid_entity (configuration c') name"
    "n \<noteq> name \<Longrightarrow> has_uplink c' n u \<longleftrightarrow> has_uplink c n u"
    "json_find k (configuration c) \<noteq> None \<Longrightarrow> json_find k (configuration c') \<noteq> None"
proof -
  have wf: "wf_json (configuration c)" "is_object (configuration c)"
    using assms(3) by (auto simp: valid_config_def)
  obtain c1 where new: "json_find name (configuration c) = None"
      and c1: "only_entity name c c1" "validate_entity name (configuration c1) = (Ret (), configuration c')"
    by (rule config_add_cases[OF assms(1) wf wf_parserD[OF assms(4)]]) (use assms(2) in \<open>auto simp: errno_defs add_failed_def add_succeeded_def\<close>)
  show "json_find name (configuration c) = None"
    by (rule new)
  show "valid_entity (configuration c') name"
    using validate_entity_success[OF c1(2)] c1(1) by (simp add: only_entity_def)
  have edges: "same_edges (configuration c1) (configuration c')"
    using edges_rel.entity_rel[of "configuration c1" name] c1(2) by simp
  have "n \<noteq> name \<Longrightarrow> edge (configuration c1) n u \<longleftrightarrow> edge (configuration c) n u"
    using c1(1) by (simp add: only_entity_def edge_def)
  then show "n \<noteq> name \<Longrightarrow> has_uplink c' n u \<longleftrightarrow> has_uplink c n u"
    using edges by (simp add: has_uplink_edge same_edges_def)
  show "json_find k (configuration c) \<noteq> None \<Longrightarrow> json_find k (configuration c') \<noteq> None"
    using edges c1(1) new unfolding same_edges_def only_entity_def by metis
qed

lemma ordered_uplinkD:
  assumes "uplinks_ordered c" "has_uplink c n u"
  shows "json_find u (configuration c) \<noteq> None"
  using assms unfolding uplinks_ordered_def try_get_find[symmetric] by blast

text \<open>An entity that is not on the chain from another one does not change how that chain ends.\<close>

lemma ends_after_kept:
  assumes "ends_after c n k" "n \<noteq> name"
    and same: "\<And>n u. n \<noteq> name \<Longrightarrow> has_uplink c' n u \<longleftrightarrow> has_uplink c n u"
    and aside: "\<And>n. \<not> has_uplink c n name"
  shows "ends_after c' n k"
  using assms(1,2)
proof (induction rule: ends_after.induct)
  case (ends_here n)
  then show ?case
    using same by (auto intro: ends_after.ends_here)
next
  case (ends_above n u k)
  then show ?case
    using same aside by (metis ends_after.ends_above)
qed

lemma add_keeps_order:
  assumes "config_add parse name ps c = Ret (r, c')" "error_code r = 0"
    and "valid_config (configuration c)" "wf_parser parse"
    and "uplinks_ordered c" "\<not> has_uplink c' name name"
  shows "uplinks_ordered c'"
proof -
  note added = added_edges[OF assms(1-4)]
  have aside: "\<not> has_uplink c n name" for n
    using added(1) ordered_uplinkD[OF assms(5)] by blast
  have old: "\<exists>k. ends_after c' n k" if "n \<noteq> name" for n
    using ends_after_kept[OF _ that added(3) aside] assms(5) unfolding uplinks_ordered_def uplinks_end_def by blast
  have "\<exists>k. ends_after c' n k" for n
  proof (cases "n = name")
    case True
    then show ?thesis
      using assms(6) old by (metis ends_above ends_here)
  qed (rule old)
  moreover have "json_find u (configuration c') \<noteq> None" if "has_uplink c' n u" for n u
  proof (cases "n = name")
    case True
    then show ?thesis
      using valid_entity_uplink[OF added(2)] that by (simp add: has_uplink_edge)
  next
    case False
    then show ?thesis
      using ordered_uplinkD[OF assms(5), of n u] that added(3,4) by simp
  qed
  ultimately show ?thesis
    by (simp add: uplinks_ordered_def uplinks_end_def try_get_find)
qed

section \<open>Transactions\<close>

text \<open>Uplinks are never removed, and the order is kept unless an entity is made its own uplink.\<close>

definition order_kept :: "config \<Rightarrow> config \<Rightarrow> bool" where
  "order_kept c c' \<longleftrightarrow>
     (\<forall>n. try_get c n \<noteq> None \<longrightarrow> try_get c' n \<noteq> None \<and> (\<forall>u. has_uplink c' n u \<longleftrightarrow> has_uplink c n u)) \<and>
     (uplinks_ordered c \<longrightarrow> uplinks_ordered c' \<or> (\<exists>n. has_uplink c' n n))"

lemma order_kept_refl [simp]: "order_kept c c"
  by (simp add: order_kept_def)

lemma has_uplink_exists: "has_uplink c n u \<Longrightarrow> try_get c n \<noteq> None"
  by (auto simp: has_uplink_def split: option.splits)

lemma order_kept_trans: "order_kept c c1 \<Longrightarrow> order_kept c1 c' \<Longrightarrow> order_kept c c'"
  unfolding order_kept_def using has_uplink_exists by metis

lemma add_order_kept:
  assumes "config_add parse name ps c = Ret (r, c')" "error_code r = 0"
    and "valid_config (configuration c)" "wf_parser parse"
  shows "order_kept c c'"
proof -
  note added = added_edges[OF assms]
  have "try_get c' n \<noteq> None \<and> (\<forall>u. has_uplink c' n u \<longleftrightarrow> has_uplink c n u)" if "try_get c n \<noteq> None" for n
    using added(1) added(3)[of n] added(4)[of n] that
    by (cases "n = name") (auto simp: try_get_def split: option.splits)
  then show ?thesis
    using add_keeps_order[OF assms] unfolding order_kept_def by blast
qed

lemma operations_order_kept:
  assumes "apply_operations parse ops c = Ret (0, err, c')" "valid_config (configuration c)" "wf_parser parse"
  shows "order_kept c c'"
  using assms(1,2)
proof (induction ops arbitrary: c)
  case (Cons oper ops)
  obtain st er c1 where one: "apply_operation parse oper c = Ret (st, er, c1)"
    using Cons.prems by auto
  then have st: "st = 0" and rest: "apply_operations parse ops c1 = Ret (0, err, c')"
    using Cons.prems by (auto split: if_splits)
  obtain n ps r where run: "config_add parse n ps c = Ret (r, c1)" "\<not> error_code r < 0"
    using one st by (cases oper) (auto simp: apply_operation_def errno_defs split: if_splits)
  have code: "error_code r = 0"
    using config_add_code[OF run(1) Cons.prems(2) assms(3)] run(2) by simp
  have "valid_config (configuration c1)"
    using apply_operation_ok(2)[OF one[unfolded st] Cons.prems(2) assms(3)] by (simp add: applied_def)
  then show ?case
    using order_kept_trans[OF add_order_kept[OF run(1) code Cons.prems(2) assms(3)]] Cons.IH[OF rest] by blast
qed simp

lemma ends_after_cong: "ends_after c n k \<Longrightarrow> has_uplink c' = has_uplink c \<Longrightarrow> ends_after c' n k"
  by (induction rule: ends_after.induct) (auto intro: ends_after.intros)

lemma order_kept_copy [simp]:
  "order_kept (config_copy c) c' = order_kept c c'" "order_kept c (config_assign x c') = order_kept c c'"
proof -
  have up: "has_uplink (config_copy c) = has_uplink c" "has_uplink (config_assign x c') = has_uplink c'" for c x c'
    by (simp_all add: fun_eq_iff has_uplink_def)
  have ends: "ends_after (config_copy c) = ends_after c" "ends_after (config_assign x c') = ends_after c'" for c x c'
    by (auto simp: fun_eq_iff up intro: ends_after_cong)
  show "order_kept (config_copy c) c' = order_kept c c'" "order_kept c (config_assign x c') = order_kept c c'"
    by (simp_all add: order_kept_def uplinks_ordered_def uplinks_end_def up ends)
qed

lemma step_order_kept:
  assumes "txn_step parse s s'" "txns_inv s" "wf_parser parse"
  shows "order_kept (running_config s) (running_config s')"
  using assms(1)
proof cases
  case (step_list bus ou)
  then show ?thesis
    by (auto simp: method_list_def dest!: co_return_Ret)
next
  case (step_new bus read "from" vtable rand n ou)
  from step_new(2) show ?thesis
    by (cases rule: method_new_cases) (use step_new(1) in auto)
next
  case (step_commit bus read i "from" ou)
  have valid: "valid_config (configuration (running_config s))"
    using assms(2) by (simp add: txns_inv_def)
  from step_commit(2) valid assms(3) show ?thesis
  proof (cases rule: method_commit_cases)
    case (committed t copy)
    then show ?thesis
      using operations_order_kept[OF committed(3) _ assms(3)] valid step_commit(1)
      by (simp add: committed_def valid_config_copy)
  qed (use step_commit(1) in simp)
next
  case (step_discard bus read i "from" ou)
  from step_discard(2) show ?thesis
    by (cases rule: method_discard_cases) (use step_discard(1) in auto)
qed auto


lemma steps_order_kept:
  assumes "txn_steps parse s s'" "txns_inv s" "wf_parser parse"
  shows "txns_inv s' \<and> order_kept (running_config s) (running_config s')"
  using assms(1)
proof (induction rule: rtranclp_induct)
  case (step y z)
  then have y: "txns_inv y" "order_kept (running_config s) (running_config y)"
    by auto
  show ?case
    using txn_step_inv[OF step(2) y(1) assms(3)] order_kept_trans[OF y(2) step_order_kept[OF step(2) y(1) assms(3)]]
    by blast
qed (use assms(2) in simp)

text \<open>
  C15: D-Bus calls never close a cycle of uplinks over several entities. If the uplinks of the running
  configuration end and exist, they still do in every state that D-Bus calls on the transactions can
  reach, unless some entity was added as its own uplink; an uplink once set is never removed.
\<close>

theorem transactions_make_no_cycle:
  assumes "txn_steps parse s s'" "txns_inv s" "wf_parser parse" "uplinks_ordered (running_config s)"
  shows "(uplinks_ordered (running_config s') \<or> (\<exists>n. has_uplink (running_config s') n n)) \<and>
    (\<forall>n u. has_uplink (running_config s) n u \<longrightarrow> has_uplink (running_config s') n u)"
  using steps_order_kept[OF assms(1-3)] assms(4) has_uplink_exists unfolding order_kept_def by metis

text \<open>In a valid configuration every uplink exists, if the key of the default namespace has none.\<close>

lemma valid_uplinks_ordered:
  assumes "valid_config (configuration c)" "uplinks_end c" "\<And>u. \<not> has_uplink c '':default-netns'' u"
  shows "uplinks_ordered c"
proof -
  have "try_get c u \<noteq> None" if "has_uplink c n u" for n u
  proof (cases "n = ''!metadata''")
    case True
    moreover have "json_find ''network'' j = None" if "json_find ''!metadata'' (configuration c) = Some j" for j
      using assms(1) that by (cases j)
        (force simp: valid_config_def validate_metadata_def find_None_iff map_of_eq_None_iff split: option.splits if_splits)+
    ultimately show ?thesis
      using that by (auto simp: has_uplink_edge edge_def split: option.splits)
  next
    case False
    have "n \<in> set (obj_keys (configuration c))"
      using that by (auto simp: has_uplink_edge edge_def set_obj_keys split: option.splits)
    then have "valid_entity (configuration c) n"
      using False that assms(1,3) by (auto simp: valid_config_def reserved_keys_def)
    then show ?thesis
      using valid_entity_uplink[of "configuration c" n u] that
      by (auto simp: has_uplink_edge try_get_def split: option.splits)
  qed
  then show ?thesis
    using assms(2) by (auto simp: uplinks_ordered_def)
qed

section \<open>Calls while the configuration changes\<close>

text \<open>
  The daemon between events: calls on the transactions are handled at once; \<open>Start\<close> and \<open>Stop\<close> make a
  run on the configuration of that moment, and runs go on while later calls change it.
\<close>

inductive daemon_reaches :: "(string \<Rightarrow> json option) \<Rightarrow> transactions \<Rightarrow> transactions \<Rightarrow> machine \<Rightarrow> bool"
  for parse s0 where
  daemon_boots: "daemon_reaches parse s0 s0 initial_machine"
| daemon_transaction: "daemon_reaches parse s0 s m \<Longrightarrow> active m = [] \<Longrightarrow> txn_step parse s s' \<Longrightarrow>
    daemon_reaches parse s0 s' m"
| daemon_call: "daemon_reaches parse s0 s m \<Longrightarrow> active m = [] \<Longrightarrow> method_run (running_config s) p \<Longrightarrow>
    daemon_reaches parse s0 s (spawn None p m)"
| daemon_event: "daemon_reaches parse s0 s m \<Longrightarrow> active m = [] \<Longrightarrow> place m h = Paused \<Longrightarrow>
    daemon_reaches parse s0 s (deliver h m)"
| daemon_run: "daemon_reaches parse s0 s m \<Longrightarrow> active m \<noteq> [] \<Longrightarrow> run1 m = Ret m' \<Longrightarrow>
    daemon_reaches parse s0 s m'"

lemma daemon_reaches_runs:
  assumes "daemon_reaches parse s0 s m" "txns_inv s0" "wf_parser parse"
  shows "txn_steps parse s0 s \<and> reaches (method_run (running_config s)) m"
  using assms(1)
proof (induction rule: daemon_reaches.induct)
  case daemon_boots
  then show ?case
    by (simp add: reaches_boot)
next
  case (daemon_transaction s m s')
  then have inv: "txns_inv s"
    using steps_order_kept[OF _ assms(2,3)] by blast
  have kept: "(\<exists>e'. try_get (running_config s') n = Some e') \<and>
      (\<forall>u. has_uplink (running_config s') n u \<longleftrightarrow> has_uplink (running_config s) n u)"
    if "try_get (running_config s) n = Some e" for n e
    using step_order_kept[OF daemon_transaction.hyps(3) inv assms(3)] that unfolding order_kept_def by blast
  have "reaches (method_run (running_config s')) m"
    by (rule reaches_mono) (use daemon_transaction.IH in blast, rule method_run_mono[OF _ kept])
  then show ?case
    using daemon_transaction.IH daemon_transaction.hyps(3) by (auto intro: rtranclp.rtrancl_into_rtrancl)
next
  case (daemon_call s m p)
  then show ?case
    using method_run_wf reaches_call by blast
next
  case (daemon_event s m h)
  then show ?case
    unfolding deliver_def using reaches_event by blast
next
  case (daemon_run s m m')
  then show ?case
    using reaches_run by blast
qed

lemma daemon_drain_finishes:
  assumes "daemon_reaches parse s0 s m" "txns_inv s0" "wf_parser parse" "uplinks_ordered (running_config s0)"
    and "\<And>n. \<not> has_uplink (running_config s) n n" "active m = []"
    and "\<And>m. paused m \<noteq> [] \<Longrightarrow> pick m \<in> set (paused m)"
  shows "\<exists>m'. drain pick (work m) m = Ret m' \<and> active m' = [] \<and> (\<forall>h. code m' h = []) \<and>
    (\<forall>n. queues m' n = empty_queue)"
proof -
  note reach = daemon_reaches_runs[OF assms(1-3)]
  have "uplinks_end (running_config s)"
    using steps_order_kept[OF _ assms(2,3)] reach assms(4,5) unfolding order_kept_def uplinks_ordered_def by blast
  then show ?thesis
    using drain_finishes[OF method_run_ordered assms(7) _ assms(6) order_refl] reach by blast
qed

text \<open>
  C7: every call of \<open>Start\<close> and \<open>Stop\<close> finishes, also when they run
  interleaved with each other and with transactions that change the configuration under them: if the
  uplinks of the first configuration end and no entity was made its own uplink, then after a bounded
  number of D-Bus events, delivered in any order, every coroutine has ended and every entity's token is
  free. (The loop in which the whole process waits for a new connection suspends nothing and is not part
  of a run.)
\<close>

theorem daemon_calls_finish:
  assumes "daemon_reaches parse s0 s m" "txns_inv s0" "wf_parser parse" "uplinks_ordered (running_config s0)"
    and "\<And>n. \<not> has_uplink (running_config s) n n" "active m = []"
    and "\<And>m. paused m \<noteq> [] \<Longrightarrow> pick m \<in> set (paused m)"
  shows "\<exists>m'. drain pick (work m) m = Ret m' \<and> active m' = [] \<and> (\<forall>h. code m' h = []) \<and>
    (\<forall>n. queues m' n = empty_queue)"
  by (rule daemon_drain_finishes[OF assms])

lemma sample_no_uplinks: "\<not> has_uplink sample_config n u"
  by (auto simp: has_uplink_edge edge_def sample_config_def split: option.splits if_splits)

theorem transactions_make_no_cycle_witness:
  "\<exists>s. txn_steps sample_parse sample_state s \<and> has_uplink (running_config s) ''test'' ''root'' \<and>
     (uplinks_ordered (running_config s) \<or> (\<exists>n. has_uplink (running_config s) n n))"
proof -
  let ?run = "method_commit sample_parse sample_bus 1 7 (sample_sender 1000) sample_state"
  have "case ?run of Ret ou \<Rightarrow> has_uplink (running_config (state ou)) ''test'' ''root'' | _ \<Rightarrow> False"
    by code_simp
  then obtain ou where ou: "?run = Ret ou" "has_uplink (running_config (state ou)) ''test'' ''root''"
    by (auto split: res.splits)
  have steps: "txn_steps sample_parse sample_state (state ou)"
    using step_commit[OF ou(1)] by blast
  have "uplinks_ordered (running_config sample_state)"
    using sample_no_uplinks by (auto simp: sample_state_def uplinks_ordered_def uplinks_end_def intro: ends_here)
  from transactions_make_no_cycle[OF steps sample_state_inv sample_parse_wf_parser this] show ?thesis
    using steps ou(2) by blast
qed


definition tree_state :: transactions where
  "tree_state = \<lparr>running_config = tree_net, txns = []\<rparr>"

lemma call_reaches:
  assumes "daemon_reaches parse s0 s m" "active m = []" "method_run (running_config s) p"
    and "run k (spawn None p m) = Ret m'"
  shows "daemon_reaches parse s0 s m'"
proof -
  have run: "daemon_reaches parse s0 s x \<Longrightarrow> run k x = Ret y \<Longrightarrow> daemon_reaches parse s0 s y" for x y
  proof (induction k arbitrary: x)
    case (Suc k)
    then obtain z where z: "run1 x = Ret z" "run k z = Ret y"
      by auto
    then show ?case
      using Suc.IH[of z] Suc.prems(1) daemon_run[OF Suc.prems(1) _ z(1)] by (cases "active x = []") (auto simp: run1_def)
  qed simp
  show ?thesis
    by (rule run[OF daemon_call[OF assms(1-3)] assms(4)])
qed

theorem daemon_calls_finish_witness:
  "\<exists>m m'. start_both = Ret m \<and> paused m \<noteq> [] \<and> queue (queues m ''sw'') \<noteq> [] \<and>
     drain (hd \<circ> paused) (work m) m = Ret m' \<and> (\<forall>h. code m' h = [])"
proof -
  let ?one = "run 20 (spawn None [Call start_cl, Return] initial_machine)"
  have "case ?one of Ret m \<Rightarrow> active m = [] | _ \<Rightarrow> False"
    by code_simp
  then obtain m1 where m1: "?one = Ret m1" "active m1 = []"
    by (auto split: res.splits)
  have "case start_both of Ret m \<Rightarrow> active m = [] \<and> paused m \<noteq> [] \<and> queue (queues m ''sw'') \<noteq> [] | _ \<Rightarrow> False"
    by code_simp
  then obtain m where m: "start_both = Ret m" "active m = []" "paused m \<noteq> []" "queue (queues m ''sw'') \<noteq> []"
    by (auto split: res.splits)
  have "daemon_reaches sample_parse tree_state tree_state m1"
    by (rule call_reaches[OF daemon_boots _ _ m1(1)])
      (simp_all add: initial_machine_def tree_state_def tree_method_runs)
  then have reach: "daemon_reaches sample_parse tree_state tree_state m"
    by (rule call_reaches[OF _ m1(2), where p = "[Call start_sw, Return]" and k = 20])
      (use m(1) in \<open>simp_all add: start_both_def m1(1) tree_state_def tree_method_runs\<close>)
  have inv: "txns_inv tree_state"
    by (simp add: txns_inv_def tree_state_def) code_simp
  have ordered: "uplinks_ordered (running_config tree_state)"
    using tree_uplinks_end by (auto simp: uplinks_ordered_def tree_state_def tree_uplinks)
      (auto simp: tree_net_def try_get_def)
  have "\<exists>m'. drain (hd \<circ> paused) (work m) m = Ret m' \<and> active m' = [] \<and> (\<forall>h. code m' h = []) \<and>
      (\<forall>n. queues m' n = empty_queue)"
    by (rule daemon_calls_finish[OF reach inv sample_parse_wf_parser ordered _ m(2)])
      (auto simp: tree_state_def tree_uplinks)
  then show ?thesis
    using m by blast
qed

end
