(* ===== verification/Unit_Test.thy ===== *)
theory Unit_Test
  imports Config_Properties Entity_Queue_Properties
begin

text \<open>
  The unit test of the entity queue (\<open>unit-tests/entity-queue.cpp\<close>): its \<open>main\<close> as a function of the
  configuration file. The coroutines run on the machine of \<open>Entity_Queue\<close>; \<open>main\<close> itself takes and
  drops tokens without being a coroutine. Assertions are enabled.
\<close>

section \<open>The test program\<close>

definition assert_res :: "bool \<Rightarrow> unit res" where
  "assert_res b = (if b then Ret () else Abort)"

text \<open>\<open>task::doit\<close>: the flag is set while the token is held; \<open>suspend_always\<close> is never resumed.\<close>

definition doit :: "entity \<Rightarrow> instr list" where
  "doit ent = [Acquire (entity_name ent), Release (entity_name ent), Pause, Return]"

definition flag_set :: "nat \<Rightarrow> machine \<Rightarrow> bool" where
  "flag_set h m \<longleftrightarrow> h < spawned m \<and>
     (case code m h of Acquire _ # _ \<Rightarrow> False | Granted _ # _ \<Rightarrow> False | _ \<Rightarrow> True)"

definition spawn_task :: "entity \<Rightarrow> machine \<Rightarrow> machine res" where
  "spawn_task ent m = (let m1 = spawn None (doit ent) m in run (work m1) m1)"

text \<open>\<open>auto token = entity.enqueue().await_resume()\<close> in \<open>main\<close>, and the end of its scope.\<close>

definition main_takes :: "entity \<Rightarrow> machine \<Rightarrow> machine res" where
  "main_takes ent m =
     bind_res (await_resume (queues m (entity_name ent))) (\<lambda>q.
       Ret (m\<lparr>queues := (queues m)(entity_name ent := q)\<rparr>))"

definition main_drops :: "entity \<Rightarrow> machine \<Rightarrow> machine res" where
  "main_drops ent m =
     bind_res (token_destroy (queues m (entity_name ent))) (\<lambda>(w, q).
       let m1 = m\<lparr>queues := (queues m)(entity_name ent := q)\<rparr> in
       case w of
         None \<Rightarrow> Ret m1
       | Some h \<Rightarrow> let m2 = m1\<lparr>place := (place m1)(h := Running), active := [h]\<rparr> in run (work m2) m2)"

text \<open>The coroutines are numbered as they are spawned: \<open>task2\<close> is 0, \<open>task1\<close> is 1, \<open>task2_2\<close> is 2.\<close>

definition queue_test :: "entity \<Rightarrow> entity \<Rightarrow> unit res" where
  "queue_test ent1 ent2 =
     bind_res (spawn_task ent2 initial_machine) (\<lambda>m.
     bind_res (assert_res (flag_set 0 m)) (\<lambda>_.
     bind_res (main_takes ent1 m) (\<lambda>m.
     bind_res (main_takes ent2 m) (\<lambda>m.
     bind_res (spawn_task ent1 m) (\<lambda>m.
     bind_res (assert_res (\<not> flag_set 1 m)) (\<lambda>_.
     bind_res (spawn_task ent2 m) (\<lambda>m.
     bind_res (assert_res (\<not> flag_set 2 m)) (\<lambda>_.
     bind_res (main_drops ent2 m) (\<lambda>m.
     bind_res (assert_res (flag_set 2 m)) (\<lambda>_.
     bind_res (main_drops ent1 m) (\<lambda>m.
       assert_res (flag_set 1 m))))))))))))"

definition deref :: "'a option \<Rightarrow> 'a res" where
  "deref x = (case x of None \<Rightarrow> Abort | Some y \<Rightarrow> Ret y)"

definition entity_queue_main ::
    "(string \<Rightarrow> json res) \<Rightarrow> (string \<Rightarrow> json option) \<Rightarrow> string \<Rightarrow> string option \<Rightarrow> unit res" where
  "entity_queue_main parse parse_value path contents =
     bind_res (config_load parse path contents) (\<lambda>imm_config.
     bind_res (config_add parse_value ''ent1'' [] (config_copy imm_config)) (\<lambda>(r1, c1).
     bind_res (assert_res (error_code r1 = 0)) (\<lambda>_.
     bind_res (config_add parse_value ''ent2'' [] c1) (\<lambda>(r2, c2).
     bind_res (assert_res (error_code r2 = 0)) (\<lambda>_.
     bind_res (deref (try_get c2 ''ent1'')) (\<lambda>ent1.
     bind_res (deref (try_get c2 ''ent2'')) (\<lambda>ent2.
       queue_test ent1 ent2)))))))"

section \<open>The test passes\<close>

lemma add_no_parameters:
  assumes "mutable c" "is_object (configuration c)" "json_find name (configuration c) = None"
  shows "\<exists>c'. config_add parse name [] c = Ret (success, c') \<and> mutable c' \<and> is_object (configuration c') \<and>
    json_find name (configuration c') = Some (JObject []) \<and>
    (\<forall>n. n \<noteq> name \<longrightarrow> json_find n (configuration c') = json_find n (configuration c))"
proof -
  obtain m where m: "configuration c = JObject m" "map_of m name = None"
    using assms(2,3) by (cases "configuration c") auto
  then show ?thesis
    using assms(1)
    by (auto simp: config_add_def json_count_def validate_entity_def bind_vm_def read_vm_def ret_vm_def)
qed

lemma add_existing:
  assumes "mutable c" "try_get c name \<noteq> None"
  shows "config_add parse name [] c = Ret (\<lparr>error_code = - EEXIST, error_message =
    ''Cannot add entity '' @ name @ '': entity already exists.''\<rparr>, c)"
  using assms by (auto simp: config_add_def json_count_def try_get_find)

lemma queue_test_passes: "queue_test \<lparr>entity_name = ''ent1'', entity_self = x\<rparr> \<lparr>entity_name = ''ent2'', entity_self = y\<rparr> = Ret ()"
  by code_simp

text \<open>
  C28: the unit test of the entity queue passes for every configuration file that loads and has no
  entities of the names it uses; with one of them its first or second assertion fails.
\<close>

theorem unit_test_outcome:
  assumes "config_load parse path contents = Ret imm_config" "\<And>t j. parse t = Ret j \<Longrightarrow> wf_json j"
  shows "entity_queue_main parse parse_value path contents =
    (if try_get imm_config ''ent1'' = None \<and> try_get imm_config ''ent2'' = None then Ret () else Abort)"
proof -
  let ?c = "config_copy imm_config"
  have load: "is_object (configuration ?c)" "mutable ?c"
    using config_load_is_valid[OF assms] by (auto simp: config_copy_def valid_config_def)
  show ?thesis
  proof (cases "try_get imm_config ''ent1'' = None")
    case True
    then obtain c1 where c1: "config_add parse_value ''ent1'' [] ?c = Ret (success, c1)" "mutable c1"
        "is_object (configuration c1)" "json_find ''ent1'' (configuration c1) = Some (JObject [])"
        "json_find ''ent2'' (configuration c1) = json_find ''ent2'' (configuration ?c)"
      using add_no_parameters[OF load(2,1), of "''ent1''" parse_value] by (auto simp: try_get_find config_copy_def)
    show ?thesis
    proof (cases "try_get imm_config ''ent2'' = None")
      case new2: True
      then obtain c2 where c2: "config_add parse_value ''ent2'' [] c1 = Ret (success, c2)"
          "json_find ''ent2'' (configuration c2) = Some (JObject [])"
          "json_find ''ent1'' (configuration c2) = Some (JObject [])"
        using add_no_parameters[OF c1(2,3), of "''ent2''" parse_value] c1(4,5) by (auto simp: try_get_find config_copy_def)
      then show ?thesis
        using True new2 assms(1) c1 queue_test_passes
        by (simp add: entity_queue_main_def assert_res_def success_def deref_def try_get_def)
    next
      case False
      then have "try_get c1 ''ent2'' \<noteq> None"
        using c1(5) by (auto simp: try_get_find config_copy_def)
      then show ?thesis
        using False assms(1) c1 add_existing
        by (simp add: entity_queue_main_def assert_res_def success_def errno_defs)
    qed
  next
    case False
    then have "try_get ?c ''ent1'' \<noteq> None"
      by (auto simp: try_get_find config_copy_def)
    then show ?thesis
      using False assms(1) load add_existing
      by (simp add: entity_queue_main_def assert_res_def errno_defs)
  qed
qed

theorem unit_test_outcome_witness:
  "entity_queue_main (\<lambda>_. Ret sample_file) (\<lambda>_. None) ''c.json'' (Some ''{}'') = Ret ()"
proof -
  let ?load = "config_load (\<lambda>_. Ret sample_file) ''c.json'' (Some ''{}'')"
  have "case ?load of Ret c \<Rightarrow> try_get c ''ent1'' = None \<and> try_get c ''ent2'' = None | _ \<Rightarrow> False"
    by code_simp
  then obtain c where c: "?load = Ret c" "try_get c ''ent1'' = None" "try_get c ''ent2'' = None"
    by (auto split: res.splits)
  have "wf_json sample_file"
    by code_simp
  then show ?thesis
    using unit_test_outcome[OF c(1), of "\<lambda>_. None"] c(2,3) by simp
qed

end
