(* ===== verification/Hand_Over.thy ===== *)
theory Hand_Over
  imports Entity_Start_Properties Json_Content
begin

text \<open>
  The hand-over from the daemon to the entity daemon: the process that \<open>start\<close> forks
  (\<open>daemon/entity.cpp\<close>) becomes an entity daemon with the entity's name, and receives as requests the
  calls that \<open>start\<close> and \<open>stop\<close> make, with each component printed as JSON text, which the entity daemon
  parses. End to end: what the commands of an entity daemon are after \<open>Start\<close>, and after \<open>Stop\<close>.
\<close>

section \<open>The child process\<close>

text \<open>\<open>std::filesystem::path::operator/\<close> with a relative right operand.\<close>

definition path_append :: "string \<Rightarrow> string \<Rightarrow> string" where
  "path_append a b = (if a = '''' \<or> last a = CHR ''/'' then a @ b else a @ ''/'' @ b)"

text \<open>Between \<open>fork\<close> and \<open>execv\<close>: the file that is executed and its argument vector. The process aborts
  when \<open>dup2\<close> or \<open>execv\<close> fails (\<open>-1\<close>); \<open>execv\<close> returns only then.\<close>

definition child_exec :: "string \<Rightarrow> int \<Rightarrow> int \<Rightarrow> string \<Rightarrow> (string \<times> string list) res" where
  "child_exec install_prefix dup2_ret execv_ret name =
     (if dup2_ret = - 1 then Abort
      else let filename = path_append (path_append install_prefix ''bin'') ''nonsense-entityd'' in
           if execv_ret = - 1 then Abort else Ret (filename, [filename, name]))"

section \<open>What it receives\<close>

text \<open>The arguments of a call pass as C strings: \<open>type.c_str()\<close> and \<open>component.dump().c_str()\<close>.\<close>

definition c_str :: "string \<Rightarrow> string" where
  "c_str = takeWhile (\<lambda>c. c \<noteq> CHR 0x00)"

definition component_request :: "(64 word \<Rightarrow> string) \<Rightarrow> string \<Rightarrow> json \<Rightarrow> request list" where
  "component_request to_chars type c =
     (case dump to_chars c of Ret t \<Rightarrow> [AddComponent 1 (c_str type) (c_str t)] | _ \<Rightarrow> [])"

fun request_received :: "(64 word \<Rightarrow> string) \<Rightarrow> string \<Rightarrow> effect \<Rightarrow> request list" where
  "request_received to_chars n (AddComponentCall m type c) = (if m = n then component_request to_chars type c else [])"
| "request_received to_chars n (ShutdownCall m) = (if m = n then [Shutdown] else [])"
| "request_received to_chars n e = []"

definition received :: "(64 word \<Rightarrow> string) \<Rightarrow> string \<Rightarrow> effect list \<Rightarrow> request list" where
  "received to_chars n es = concat (map (request_received to_chars n) es)"

fun milestone_received :: "(64 word \<Rightarrow> string) \<Rightarrow> string \<Rightarrow> milestone \<Rightarrow> request list" where
  "milestone_received to_chars n (Sent_component m type c) = (if m = n then component_request to_chars type c else [])"
| "milestone_received to_chars n (Asked_shutdown m) = (if m = n then [Shutdown] else [])"
| "milestone_received to_chars n (Forked m) = []"

lemma received_milestones: "received to_chars n es = concat (map (milestone_received to_chars n) (milestones es))"
proof (induction es)
  case (Cons e es)
  have "request_received to_chars n e = concat (map (milestone_received to_chars n) (milestones_of e))"
    by (cases e) auto
  then show ?case
    using Cons by (simp add: received_def)
qed (simp add: received_def)

lemma concat_map_nested: "concat (map f (concat (map g xs))) = concat (map (\<lambda>x. concat (map f (g x))) xs)"
  by (induction xs) auto

lemma received_other:
  assumes "m \<noteq> n"
  shows "concat (map (milestone_received to_chars n) (milestones_for cfg m)) = []"
proof -
  have "entity_name ent = m" if "try_get cfg m = Some ent" for ent
    using that by (simp add: try_get_Some)
  then show ?thesis
    using assms by (auto simp: milestones_for_def start_milestones_def split: option.splits)
qed

text \<open>The entity daemon of a started entity receives its components, once each, and nothing else.\<close>

lemma received_chain:
  assumes "chain_started (n # us) w w'" "\<not> is_live w n" "n \<notin> set us" "try_get (conf w) n = Some ent"
  obtains es where "effects w' = effects w @ es"
    "received to_chars n es =
       concat (map (\<lambda>(type, j). component_request to_chars type (sent_form (conf w) type j)) (json_items (entity_self ent)))"
proof -
  obtain es where es: "effects w' = effects w @ es"
      "milestones es = concat (map (milestones_for (conf w)) (rev (pending w (n # us))))"
    using assms(1) by (auto simp: chain_started_def)
  let ?r = "\<lambda>m. concat (map (milestone_received to_chars n) (milestones_for (conf w) m))"
  have "?r m = []" if "m \<in> set (pending w us)" for m
    using that assms(3) by (intro received_other) (auto simp: pending_def dest: set_takeWhileD)
  then have others: "concat (map ?r (rev (pending w us))) = []"
    by (simp only: concat_eq_Nil_conv) auto
  have name: "entity_name ent = n"
    using assms(4) by (simp add: try_get_Some)
  have own: "?r n = concat (map (\<lambda>(type, j). component_request to_chars type (sent_form (conf w) type j)) (json_items (entity_self ent)))"
    using assms(4) name
    by (simp add: milestones_for_def start_milestones_def comp_def case_prod_beta')
  have "received to_chars n es = concat (map ?r (rev (pending w (n # us))))"
    unfolding received_milestones es(2) by (rule concat_map_nested)
  also have "\<dots> = ?r n"
    using others assms(2) by (simp add: pending_def)
  finally show thesis
    using that es(1) own by simp
qed

section \<open>The life of an entity daemon\<close>

text \<open>
  The entity daemon does its actions in order. If none fails, it keeps serving, and a shutdown request then
  undoes them in reverse order and ends it with status 0. Otherwise it ends with the first that fails.
\<close>

definition lifetime :: "env \<Rightarrow> (string \<Rightarrow> json res) \<Rightarrow> string \<Rightarrow> request list \<Rightarrow>
    (string \<times> action option) list list \<Rightarrow> (string \<times> action option) list \<Rightarrow> bool" where
  "lifetime env parse name rs css conn \<longleftrightarrow>
     (case attempt env [] (up_log name css conn) of
        (True, h) \<Rightarrow> \<exists>s s'. entityd_main env parse 1 name rs = (Ret None, s) \<and> log s = up_log name css conn \<and>
          entityd_main env parse 1 name (rs @ [Shutdown]) = (Ret (Some 0), s') \<and>
          log s' = up_log name css conn @ down_log name css conn
      | (False, h) \<Rightarrow> \<exists>s. entityd_main env parse 1 name rs = (Abort, s) \<and> log s = h)"

lemma lifetime_network:
  assumes "all_or_abort env n c css conn" "parse t = Ret c"
  shows "lifetime env parse n [AddComponent 1 ''network'' t] css conn"
proof -
  let ?start = "entityd_start n"
  have add: "add_component env parse 1 ''network'' t ?start =
      bind_em (add_network env c) (\<lambda>_. ret_em Added) ?start"
    using assms(2) by (simp add: add_component_def bind_em_def assert_em_def ret_em_def get_em_def lift_em_def
        entityd_start_def)
  show ?thesis
  proof (cases rule: attempt_cases[of env "[]" "up_log n css conn"])
    case all
    then obtain s where s: "add_network env c ?start = (Ret (), s)" "log s = up_log n css conn"
        "log (snd (shutdown env s)) = up_log n css conn @ down_log n css conn"
      using assms(1) by (auto simp: all_or_abort_def)
    then have "entityd_main env parse 1 n [AddComponent 1 ''network'' t] = (Ret None, s)"
        "entityd_main env parse 1 n [AddComponent 1 ''network'' t, Shutdown] = (Ret (Some 0), snd (shutdown env s))"
      using add by (simp_all add: entityd_main_def bind_em_def ret_em_def shutdown_log)
    then show ?thesis
      using s(2,3) all by (simp add: lifetime_def)
  next
    case (failed h)
    then obtain s where "add_network env c ?start = (Abort, s)" "log s = h"
      using assms(1) by (auto simp: all_or_abort_def)
    then show ?thesis
      using add failed by (simp add: lifetime_def entityd_main_def bind_em_def)
  qed
qed

lemma network_items:
  assumes "valid_config (configuration cfg)" "n \<notin> reserved_keys" "network_of cfg n m"
  obtains ent where "try_get cfg n = Some ent" "json_items (entity_self ent) = [(''network'', JObject m)]"
proof -
  obtain ent where ent: "try_get cfg n = Some ent" "json_find ''network'' (entity_self ent) = Some (JObject m)"
    using assms(3) by (auto simp: network_of_entity)
  then obtain e where e: "entity_self ent = JObject e" "map_wf e"
    using valid_shape[OF assms(1,2) ent(1)] by auto
  have "valid_entity (configuration cfg) n"
    using assms(1,2) ent(1) by (auto simp: valid_config_def set_obj_keys try_get_Some)
  then have "set (map fst e) \<subseteq> {''network''}"
    using ent(1) e(1) by (auto simp: valid_entity_def try_get_Some)
  then have "e = [(''network'', JObject m)]"
    using ent(2) e by (intro map_wf_ext) (auto simp: fun_eq_iff map_of_eq_None_iff map_wf_def)
  then show thesis
    using that ent(1) e(1) by simp
qed

text \<open>The component that is sent has the strings and numbers of the configuration.\<close>

context json_content
begin

lemma content_deep:
  assumes "Q ''network''" "Q '':uplink-name''"
  shows "deep_uplink_info cfg j = Some r \<Longrightarrow> P (configuration cfg) \<Longrightarrow> P j \<Longrightarrow> r = Ret j' \<Longrightarrow> P j'"
proof (induction cfg j r arbitrary: j' rule: deep_uplink_info.raw_induct[rotated 1, consumes 1, case_names unfold])
  case (unfold deep cfg j r)
  from unfold(2)[unfolded unfold(5)] show ?case
  proof (cases rule: deep_uplink_cases)
    case plain
    then show ?thesis
      using unfold(4) by simp
  next
    case (nested n ent self' uplink up j1 v)
    have "P (entity_self ent)"
      using nested(2) unfold(3) content_find by (auto simp: try_get_Some)
    then have "P up"
      using unfold(1)[OF nested(4) unfold(3) _ refl] content_subscript[OF _ assms(1) nested(3)] by blast
    moreover have "P j1"
      using content_subscript[OF unfold(4) assms(2) nested(5)] by blast
    moreover have "P (JString n)"
      using content_find[OF unfold(4) nested(1)] .
    ultimately show ?thesis
      using nested(6) content_put by simp
  qed
qed

end

text \<open>A configuration whose components can be sent.\<close>

definition sendable :: "(64 word \<Rightarrow> string) \<Rightarrow> (string \<Rightarrow> 64 word) \<Rightarrow> config \<Rightarrow> bool" where
  "sendable to_chars strtod cfg \<longleftrightarrow>
     utf8_json (configuration cfg) \<and> floats_read to_chars strtod (configuration cfg)"

lemma component_request_read:
  assumes "wf_json c" "utf8_json c" "floats_read to_chars strtod c"
  obtains t where "component_request to_chars ''network'' c = [AddComponent 1 ''network'' t]"
    "json_parse strtod t = Ret (read_back c)"
proof -
  obtain t where t: "dump to_chars c = Ret t"
    using dump_utf8(1)[OF assms(2)] by blast
  then have "c_str t = t"
    using dump_not_zero(1)[OF t assms(3)] by (auto simp: c_str_def)
  then show thesis
    using that[of t] t parse_printed[OF t assms(1,3)] by (simp add: component_request_def c_str_def)
qed

lemma sent_form_good:
  assumes "valid_config (configuration cfg)" "uplinks cfg n us" "network_of cfg n m" "sendable to_chars strtod cfg"
  defines "c \<equiv> sent_form cfg ''network'' (JObject m)"
  shows "wf_json c" "utf8_json c" "floats_read to_chars strtod c"
proof -
  obtain j where j: "deep_uplink_info cfg (JObject m) = Some (Ret j)" "c = j"
    using network_deep[OF assms(2,1,3)] by (auto simp: c_def sent_form_def)
  obtain ent where ent: "try_get cfg n = Some ent" "json_find ''network'' (entity_self ent) = Some (JObject m)"
    using assms(3) by (auto simp: network_of_entity)
  then have at: "json_at [n, ''network''] (configuration cfg) = Some (JObject m)"
    by (simp add: try_get_Some)
  have wf: "wf_json (configuration cfg)"
    using assms(1) by (simp add: valid_config_def)
  show "wf_json c"
    using deep_uplink_shape[OF j(1) wf wf_json_at[OF wf at] refl] j(2) by blast
  show "utf8_json c"
    using text_content.content_deep[OF _ _ j(1) _ text_content.content_at[OF _ at] refl] assms(4) j(2)
    by (simp add: sendable_def utf8_def utf8_ranges_def)
  show "floats_read to_chars strtod c"
    using float_content.content_deep[OF _ _ j(1) _ float_content.content_at[OF _ at] refl] assms(4) j(2)
    by (simp add: sendable_def)
qed

lemma started_network_lives:
  assumes "valid_config (configuration (conf w))" "uplinks (conf w) n us" "network_of (conf w) n m"
    and "world.held w = []" "\<not> is_live w n" "healthy env" "reply_method_return bus \<ge> 0" "read \<ge> 0"
    and "sendable to_chars strtod (conf w)"
    and "all_or_abort eenv n (read_back (sent_form (conf w) ''network'' (JObject m))) css conn"
  shows "\<exists>w' es. method_start bus env read n w =
      Some (Ret \<lparr>sent = [MethodReturn []], ret_error = None, state = w'\<rparr>) \<and> effects w' = effects w @ es \<and>
    lifetime eenv (json_parse strtod) n (received to_chars n es) css conn"
proof -
  obtain w' where w': "method_start bus env read n w =
      Some (Ret \<lparr>sent = [MethodReturn []], ret_error = None, state = w'\<rparr>)" "chain_started (n # us) w w'"
    using method_start_chain[OF assms(1,2,4,6,7,8)] by blast
  have n: "n \<notin> reserved_keys" "n \<notin> set us"
    using assms(2) uplinks_distinct[OF assms(2)] by (auto elim: uplinks.cases)
  obtain ent where ent: "try_get (conf w) n = Some ent" "json_items (entity_self ent) = [(''network'', JObject m)]"
    using network_items[OF assms(1) n(1) assms(3)] .
  obtain t where t: "component_request to_chars ''network'' (sent_form (conf w) ''network'' (JObject m)) =
        [AddComponent 1 ''network'' t]"
      "json_parse strtod t = Ret (read_back (sent_form (conf w) ''network'' (JObject m)))"
    using component_request_read[OF sent_form_good[OF assms(1-3,9)]] .
  obtain es where es: "effects w' = effects w @ es" "received to_chars n es = [AddComponent 1 ''network'' t]"
    using received_chain[OF w'(2) assms(5) n(2) ent(1), of to_chars] ent(2) t(1) by auto
  show ?thesis
    using w'(1) es lifetime_network[where parse = "json_parse strtod", OF assms(10) t(2)] by auto
qed

section \<open>What is received is what was meant\<close>

text \<open>The members that the entity daemon reads are strings, which come back as they are.\<close>

lemma uplink_chain_read_back: "uplink_chain u hops \<Longrightarrow> uplink_chain (read_back u) hops"
proof (induction rule: uplink_chain.induct)
  case (chain_hop m n p d u hops)
  then show ?case
    by (auto intro!: uplink_chain.chain_hop[where u = "read_back u"] simp: map_of_read_back map_wf_read_back)
qed (auto intro: uplink_chain.chain_end simp: map_of_read_back)

lemma switch_component_read_back: "switch_component c u p d hops \<Longrightarrow> switch_component (read_back c) u p d hops"
  using uplink_chain_read_back by (fastforce simp: switch_component_def map_of_read_back map_wf_read_back)

lemma client_component_read_back: "client_component c u p d \<Longrightarrow> client_component (read_back c) u p d"
  by (fastforce simp: client_component_def map_of_read_back map_wf_read_back)

lemma own_namespace_read_back: "own_namespace c \<Longrightarrow> own_namespace (read_back c)"
  by (simp add: own_namespace_def)

text \<open>The network component of a switch is received as one that the entity daemon sets up.\<close>

lemma received_switch_is_set_up:
  assumes "valid_config (configuration cfg)" "uplinks cfg n us" "network_of cfg n m"
    and "map_of m ''role'' = Some (JString ''switch'')" "map_of m ''uplink'' = Some (JString u)"
    and "map_of m ''address'' = Some (JString (p @ ''.'' @ d @ ''/24''))" "network_parts p d"
    and "switch_chain cfg u hops" "own_namespace (JObject m)"
  shows "all_or_abort env n (read_back (sent_form cfg ''network'' (JObject m)))
    [interfaces_script n, bridge_script n] (move_script n u @ switch_script n u p d hops)"
  using sent_switch_component[OF assms]
  by (intro switch_all_or_abort switch_component_read_back own_namespace_read_back)

text \<open>
  C11: end to end for a switch with an address \<open>p.d/24\<close> in a valid configuration, not live,
  whose component has neither a member \<open>external\<close> nor \<open>default\<close>, so that it
  gets a namespace of its own; the strings of the configuration are UTF-8 and its finite floating-point
  numbers are read back as they are printed (\<open>sendable\<close>). When no token is held and every
  call of \<open>Start\<close> into the system, the bus and systemd succeeds, \<open>Start\<close> is
  answered with success, and the process it forked for the entity, once it executes
  \<open>nonsense-entityd\<close>, is an entity daemon with the entity's name, and with the requests it
  is sent runs exactly the commands for a switch below the switches that the configuration has above it,
  in order. If none of them fails, a shutdown request, which \<open>Stop\<close> sends, undoes them in
  reverse order; otherwise the entity daemon ends with the first that fails, and no command comes after
  it.
\<close>

theorem started_switch_is_built:
  assumes "valid_config (configuration (conf w))" "uplinks (conf w) n us" "network_of (conf w) n m"
    and "held w = []" "\<not> is_live w n" "healthy env" "reply_method_return bus \<ge> 0" "read \<ge> 0"
    and "map_of m ''role'' = Some (JString ''switch'')" "map_of m ''uplink'' = Some (JString u)"
    and "map_of m ''address'' = Some (JString (p @ ''.'' @ d @ ''/24''))" "network_parts p d"
    and "switch_chain (conf w) u hops" "own_namespace (JObject m)"
    and "sendable to_chars strtod (conf w)"
    and "child_exec pre dup2_ret execv_ret n = Ret (filename, argv)"
  shows "\<exists>w' es. method_start bus env read n w =
      Some (Ret \<lparr>sent = [MethodReturn []], ret_error = None, state = w'\<rparr>) \<and> effects w' = effects w @ es \<and>
    lifetime eenv (json_parse strtod) (argv ! 1) (received to_chars n es) [interfaces_script n, bridge_script n]
      (move_script n u @ switch_script n u p d hops)"
proof -
  have "argv ! 1 = n"
    using assms(16) by (auto simp: child_exec_def Let_def split: if_splits)
  moreover have "all_or_abort eenv n (read_back (sent_form (conf w) ''network'' (JObject m)))
      [interfaces_script n, bridge_script n] (move_script n u @ switch_script n u p d hops)"
    by (rule received_switch_is_set_up[OF assms(1-3,9-14)])
  ultimately show ?thesis
    using started_network_lives[OF assms(1-8,15)] by simp
qed

text \<open>
  C27: end to end for a client below a switch with an address \<open>p.d/24\<close>, in a valid
  configuration, not live, whose component has neither a member \<open>external\<close> nor
  \<open>default\<close>, so that it gets a namespace of its own; the strings of the configuration are
  UTF-8 and its finite floating-point numbers are read back as they are printed
  (\<open>sendable\<close>). When no token is held and every call of \<open>Start\<close> into the
  system, the bus and systemd succeeds, \<open>Start\<close> is answered with success, and the process
  it forked, once it executes \<open>nonsense-entityd\<close>, is an entity daemon that runs exactly the
  commands which attach the client to the switch, in order. If none fails, a shutdown request undoes
  them in reverse order; otherwise the entity daemon ends with the first that fails, and no command
  comes after it.
\<close>

theorem started_client_is_built:
  assumes "valid_config (configuration (conf w))" "uplinks (conf w) n us" "network_of (conf w) n m"
    and "held w = []" "\<not> is_live w n" "healthy env" "reply_method_return bus \<ge> 0" "read \<ge> 0"
    and "map_of m ''role'' = Some (JString ''client'')" "map_of m ''uplink'' = Some (JString u)"
    and "network_of (conf w) u m'" "map_of m' ''address'' = Some (JString (p @ ''.'' @ d @ ''/24''))"
    and "network_parts p d" "own_namespace (JObject m)"
    and "sendable to_chars strtod (conf w)"
    and "child_exec pre dup2_ret execv_ret n = Ret (filename, argv)"
  shows "\<exists>w' es. method_start bus env read n w =
      Some (Ret \<lparr>sent = [MethodReturn []], ret_error = None, state = w'\<rparr>) \<and> effects w' = effects w @ es \<and>
    lifetime eenv (json_parse strtod) (argv ! 1) (received to_chars n es) [interfaces_script n]
      (move_script n u @ client_script n u p)"
proof -
  have "argv ! 1 = n"
    using assms(16) by (auto simp: child_exec_def Let_def split: if_splits)
  moreover have "all_or_abort eenv n (read_back (sent_form (conf w) ''network'' (JObject m)))
      [interfaces_script n] (move_script n u @ client_script n u p)"
    using sent_client_component[OF assms(1-3,9-14)]
    by (intro client_all_or_abort client_component_read_back own_namespace_read_back)
  ultimately show ?thesis
    using started_network_lives[OF assms(1-8,15)] by simp
qed

text \<open>The switch and the client of the sample configuration, which has no floating-point numbers.\<close>

lemma sample_net_sendable: "sendable (\<lambda>_. '''') (\<lambda>_. 0) sample_net"
  by code_simp

theorem started_switch_is_built_witness:
  "\<exists>w' es. method_start good_bus sample_system 1 ''sw'' sample_world =
      Some (Ret \<lparr>sent = [MethodReturn []], ret_error = None, state = w'\<rparr>) \<and> effects w' = es \<and>
    lifetime (\<lambda>h a. 0) (json_parse (\<lambda>_. 0)) ''sw'' (received (\<lambda>_. '''') ''sw'' es)
      [interfaces_script ''sw'', bridge_script ''sw'']
      (move_script ''sw'' ''rt'' @ switch_script ''sw'' ''rt'' ''10.0.1'' ''0'' [])"
proof -
  have "switch_chain sample_net ''rt'' []"
    by (rule chain_top[OF sample_network(1), where r = "''root''"]) (simp_all add: rt_net_def)
  then show ?thesis
    using started_switch_is_built[of sample_world "''sw''" "[''rt'']" sw_net sample_system good_bus 1 "''rt''"
        "''10.0.1''" "''0''" "[]" "\<lambda>_. ''''" "\<lambda>_. 0" "''/usr''" 0 0
        "''/usr/bin/nonsense-entityd''" "[''/usr/bin/nonsense-entityd'', ''sw'']" "\<lambda>h a. 0"]
      sample_net_valid sample_uplinks sample_network sample_healthy sample_net_sendable
    by (auto simp: sw_net_def network_parts_def own_namespace_def good_bus_def child_exec_def path_append_def Let_def)
qed

theorem started_client_is_built_witness:
  "\<exists>w' es. method_start good_bus sample_system 1 ''cl'' sample_world =
      Some (Ret \<lparr>sent = [MethodReturn []], ret_error = None, state = w'\<rparr>) \<and> effects w' = es \<and>
    lifetime (\<lambda>h a. 0) (json_parse (\<lambda>_. 0)) ''cl'' (received (\<lambda>_. '''') ''cl'' es)
      [interfaces_script ''cl''] (move_script ''cl'' ''sw'' @ client_script ''cl'' ''sw'' ''10.0.1'')"
  using started_client_is_built[of sample_world "''cl''" "[''sw'', ''rt'']" cl_net sample_system good_bus 1 "''sw''"
      sw_net "''10.0.1''" "''0''" "\<lambda>_. ''''" "\<lambda>_. 0" "''/usr''" 0 0
      "''/usr/bin/nonsense-entityd''" "[''/usr/bin/nonsense-entityd'', ''cl'']" "\<lambda>h a. 0"]
    sample_net_valid sample_uplinks sample_network sample_healthy sample_net_sendable
  by (auto simp: cl_net_def sw_net_def network_parts_def own_namespace_def good_bus_def child_exec_def
      path_append_def Let_def)

end
