(* ===== verification/Service.thy ===== *)
theory Service
  imports Transactions
begin

text \<open>
  The daemon process: the bus connections and the event loop (\<open>daemon/service.cpp\<close>), the object that
  holds the saved and the running configuration (\<open>daemon/configuration.cpp\<close>), option handling
  (\<open>daemon/cli.cpp\<close>) and \<open>main\<close> (\<open>daemon/main.cpp\<close>). What calls into the kernel, sd-bus and the
  option parser return is an argument; a bus is a number.
\<close>

section \<open>Registered buses\<close>

text \<open>\<open>registered\<close> is the interest list of the epoll instance, by file descriptor.\<close>

record service =
  main_bus :: nat
  registered :: "(int \<times> nat) list"

text \<open>\<open>fd\<close> is what \<open>sd_bus_get_fd\<close> returns, \<open>ctl\<close> the \<open>errno\<close> of \<open>epoll_ctl\<close> or 0.\<close>

definition register_bus :: "(int \<Rightarrow> string) \<Rightarrow> int \<Rightarrow> int \<Rightarrow> nat \<Rightarrow> service \<Rightarrow> service res" where
  "register_bus strerror fd ctl bus self =
     (if fd < 0 then Throw (RuntimeError (''Failed to obtain bus fd: '' @ strerror (- fd)))
      else if ctl \<noteq> 0 then Throw (RuntimeError (''Failed to add the bus fd to epoll: '' @ strerror ctl))
      else Ret (self\<lparr>registered := map_set fd bus (registered self)\<rparr>))"

definition unregister_bus :: "(int \<Rightarrow> string) \<Rightarrow> int \<Rightarrow> int \<Rightarrow> service \<Rightarrow> service res" where
  "unregister_bus strerror fd ctl self =
     (if fd < 0 then Throw (RuntimeError (''Failed to obtain bus fd: '' @ strerror (- fd)))
      else if ctl \<noteq> 0 then Throw (RuntimeError (''Failed to remove the bus fd from epoll: '' @ strerror ctl))
      else Ret (self\<lparr>registered := map_erase fd (registered self)\<rparr>))"

section \<open>The event loop\<close>

text \<open>
  One round: what \<open>sd_bus_process\<close> returns for the current bus and, when it is not positive, what
  \<open>epoll_wait\<close> delivers, an \<open>errno\<close> or the next bus. The result is the sequence of buses processed
  and the exception that ended the loop, if one did in these rounds.
\<close>

type_synonym round = "int \<times> (int + nat)"

fun service_loop :: "(int \<Rightarrow> string) \<Rightarrow> nat \<Rightarrow> nat \<Rightarrow> round list \<Rightarrow> nat list \<times> exn option" where
  "service_loop strerror main bus [] = ([], None)"
| "service_loop strerror main bus ((ret, wait) # rounds) =
     (if ret < 0 \<and> bus = main then ([bus], Some (RuntimeError (''Failed to process bus: '' @ strerror (- ret))))
      else if ret > 0 then apfst ((#) bus) (service_loop strerror main bus rounds)
      else case wait of
             Inl errno \<Rightarrow> ([bus], Some (RuntimeError (''Failed to wait on the epoll fd: '' @ strerror errno)))
           | Inr bus' \<Rightarrow> apfst ((#) bus) (service_loop strerror main bus' rounds))"

section \<open>The configuration object\<close>

text \<open>The transaction manager refers to the running configuration, which it holds here.\<close>

record configuration_object =
  saved :: config
  manager :: transactions

definition new_configuration :: "(string \<Rightarrow> json res) \<Rightarrow> string \<Rightarrow> string option \<Rightarrow> configuration_object res" where
  "new_configuration parse path contents =
     bind_res (config_load parse path contents) (\<lambda>cfg.
       Ret \<lparr>saved = cfg, manager = \<lparr>running_config = config_copy cfg, txns = []\<rparr>\<rparr>)"

text \<open>
  An object on the bus is its path and its interface; \<open>vtable\<close> is what \<open>sd_bus_add_object_vtable\<close>
  returns for a path.
\<close>

type_synonym bus_object = "string \<times> string"

definition install_at :: "(int \<Rightarrow> string) \<Rightarrow> (string \<Rightarrow> int) \<Rightarrow> string \<Rightarrow> string \<Rightarrow> string \<Rightarrow> bus_object res" where
  "install_at strerror vtable label path iface =
     (if vtable path < 0 then
        Throw (RuntimeError (''Failed to install the '' @ label @ '' interface at '' @ path @ '': ''
                             @ strerror (- vtable path)))
      else Ret (path, iface))"

definition transactions_install :: "(int \<Rightarrow> string) \<Rightarrow> (string \<Rightarrow> int) \<Rightarrow> string \<Rightarrow> bus_object res" where
  "transactions_install strerror vtable path =
     install_at strerror vtable ''TransactionManager'' path ''info.griwes.nonsense.TransactionManager''"

definition configuration_install :: "(int \<Rightarrow> string) \<Rightarrow> (string \<Rightarrow> int) \<Rightarrow> configuration_object \<Rightarrow>
    (configuration_object \<times> bus_object list) res" where
  "configuration_install strerror vtable self =
     (let path = ''/info/griwes/nonsense/configuration'';
          saved_path = path @ ''/saved''; running_path = path @ ''/running'' in
      bind_res (install_at strerror vtable ''ConfigManager'' path ''info.griwes.nonsense.ConfigManager'') (\<lambda>ob.
      bind_res (config_install strerror (vtable saved_path) saved_path (saved self)) (\<lambda>saved'.
      bind_res (config_install strerror (vtable running_path) running_path (running_config (manager self))) (\<lambda>running'.
      bind_res (transactions_install strerror vtable (path @ ''/transactions'')) (\<lambda>ob'.
        Ret (self\<lparr>saved := saved', manager := (manager self)\<lparr>running_config := running'\<rparr>\<rparr>,
             [ob, (saved_path, config_interface saved'), (running_path, config_interface running'), ob']))))))"

text \<open>\<open>Get\<close> of a configuration is not written: it reads its parameters and fails an assertion.\<close>

definition method_get :: "bus \<Rightarrow> int \<Rightarrow> config \<Rightarrow> config outcome res" where
  "method_get bus read self = co_yield bus read self Abort"

section \<open>Starting the daemon\<close>

text \<open>Results of the calls made at start-up; \<open>epoll_create\<close> and \<open>epoll_add\<close> are an \<open>errno\<close> or 0.\<close>

record boot =
  epoll_create :: int
  open_system :: int
  request_name :: int
  subscribe :: int
  main_fd :: int
  epoll_add :: int
  vtable :: "string \<Rightarrow> int"

definition check_call :: "(int \<Rightarrow> string) \<Rightarrow> string \<Rightarrow> int \<Rightarrow> unit res" where
  "check_call strerror label ret =
     (if ret < 0 then Throw (RuntimeError (label @ strerror (- ret))) else Ret ())"

definition new_service :: "(int \<Rightarrow> string) \<Rightarrow> boot \<Rightarrow> configuration_object \<Rightarrow>
    (service \<times> configuration_object \<times> bus_object list) res" where
  "new_service strerror b cfg =
     bind_res (if epoll_create b \<noteq> 0
               then Throw (RuntimeError (''Failed to create an epoll fd: '' @ strerror (epoll_create b)))
               else Ret ()) (\<lambda>_.
     bind_res (check_call strerror ''Failed to connect to system bus: '' (open_system b)) (\<lambda>_.
     bind_res (check_call strerror ''Failed to acquire service name: '' (request_name b)) (\<lambda>_.
     bind_res (check_call strerror ''Failed to subscribe to systemd signals: '' (subscribe b)) (\<lambda>_.
     bind_res (register_bus strerror (main_fd b) (epoll_add b) 0 \<lparr>main_bus = 0, registered = []\<rparr>) (\<lambda>srv.
     bind_res (configuration_install strerror (vtable b) cfg) (\<lambda>(cfg', obs). Ret (srv, cfg', obs)))))))"

definition new_controller :: "(int \<Rightarrow> string) \<Rightarrow> (string \<Rightarrow> int) \<Rightarrow> bus_object res" where
  "new_controller strerror vt =
     install_at strerror vt ''Controller'' ''/info/griwes/nonsense'' ''info.griwes.nonsense.Controller''"

text \<open>
  The options, as the option parser delivers them: arguments left over, whether \<open>--help\<close> was given,
  and the configuration file. Leftover arguments and \<open>--help\<close> end the process.
\<close>

record daemon_args =
  leftover :: "string list"
  help_given :: bool
  config_file :: "string option"

definition daemon_options :: "daemon_args \<Rightarrow> nat + string" where
  "daemon_options a =
     (if leftover a \<noteq> [] then Inl 1
      else if help_given a then Inl 0
      else Inr (case config_file a of None \<Rightarrow> ''/etc/nonsense/nonsensed.json'' | Some f \<Rightarrow> f))"

datatype daemon = Exited nat | Killed | Serving service configuration_object "bus_object list" "nat list"

definition daemon_boot :: "(int \<Rightarrow> string) \<Rightarrow> (string \<Rightarrow> json res) \<Rightarrow> boot \<Rightarrow> string \<Rightarrow> string option \<Rightarrow>
    (service \<times> configuration_object \<times> bus_object list) res" where
  "daemon_boot strerror parse b path contents =
     bind_res (new_configuration parse path contents) (\<lambda>cfg.
     bind_res (new_service strerror b cfg) (\<lambda>(srv, cfg', obs).
     bind_res (new_controller strerror (vtable b)) (\<lambda>ob. Ret (srv, cfg', obs @ [ob]))))"

definition daemon_main :: "(int \<Rightarrow> string) \<Rightarrow> (string \<Rightarrow> json res) \<Rightarrow> boot \<Rightarrow> daemon_args \<Rightarrow>
    (string \<Rightarrow> string option) \<Rightarrow> round list \<Rightarrow> daemon" where
  "daemon_main strerror parse b a file rounds =
     (case daemon_options a of
        Inl code \<Rightarrow> Exited code
      | Inr path \<Rightarrow>
          (case daemon_boot strerror parse b path (file path) of
             Throw _ \<Rightarrow> Exited 1
           | Abort \<Rightarrow> Killed
           | Ret (srv, cfg, obs) \<Rightarrow>
               (case service_loop strerror (main_bus srv) (main_bus srv) rounds of
                  (_, Some _) \<Rightarrow> Exited 1
                | (processed, None) \<Rightarrow> Serving srv cfg obs processed)))"

end
