(* ===== verification/Service_Properties.thy ===== *)
theory Service_Properties
  imports Service Transactions_Properties
begin

text \<open>
  What a daemon that reached its event loop has set up, and what can end the loop.
\<close>

lemma install_at_Ret: "install_at strerror vt label path iface = Ret ob \<longleftrightarrow> vt path \<ge> 0 \<and> ob = (path, iface)"
  by (auto simp: install_at_def)

lemma config_install_Ret:
  "config_install strerror ret path c = Ret c' \<longleftrightarrow> ret \<ge> 0 \<and> c' = c\<lparr>installed := True\<rparr>"
  by (auto simp: config_install_def)

lemmas boot_rules = install_at_Ret config_install_Ret bind_res_Ret_iff

text \<open>The objects of a running daemon.\<close>

definition daemon_objects :: "bus_object list" where
  "daemon_objects =
     [(''/info/griwes/nonsense/configuration'', ''info.griwes.nonsense.ConfigManager''),
      (''/info/griwes/nonsense/configuration/saved'', ''info.griwes.nonsenes.Config''),
      (''/info/griwes/nonsense/configuration/running'', ''info.griwes.nonsense.MutableConfig''),
      (''/info/griwes/nonsense/configuration/transactions'', ''info.griwes.nonsense.TransactionManager''),
      (''/info/griwes/nonsense'', ''info.griwes.nonsense.Controller'')]"

lemma new_configuration_Ret:
  assumes "new_configuration parse path contents = Ret c" "\<And>t j. parse t = Ret j \<Longrightarrow> wf_json j"
  shows "valid_config (configuration (saved c)) \<and> \<not> mutable (saved c) \<and>
    manager c = \<lparr>running_config = config_copy (saved c), txns = []\<rparr>"
  using assms(1) config_load_is_valid[OF _ assms(2)]
  by (auto simp: new_configuration_def bind_res_Ret_iff)

lemma daemon_boot_Ret:
  assumes "daemon_boot strerror parse b path contents = Ret (srv, cfg, obs)"
    and "\<And>t j. parse t = Ret j \<Longrightarrow> wf_json j"
  shows "txns_inv (manager cfg) \<and> txns (manager cfg) = [] \<and> obs = daemon_objects \<and>
    map_of (registered srv) (main_fd b) = Some (main_bus srv) \<and> \<not> mutable (saved cfg) \<and>
    mutable (running_config (manager cfg)) \<and>
    configuration (running_config (manager cfg)) = configuration (saved cfg)"
proof -
  obtain c where c: "new_configuration parse path contents = Ret c"
      "configuration_install strerror (vtable b) c = Ret (cfg, butlast obs)"
      "obs = butlast obs @ [(''/info/griwes/nonsense'', ''info.griwes.nonsense.Controller'')]"
      "srv = \<lparr>main_bus = 0, registered = [(main_fd b, 0)]\<rparr>"
    using assms(1)
    by (auto simp: daemon_boot_def new_service_def new_controller_def boot_rules register_bus_def split: if_splits)
  note v = new_configuration_Ret[OF c(1) assms(2)]
  have cfg: "cfg = c\<lparr>saved := (saved c)\<lparr>installed := True\<rparr>,
        manager := (manager c)\<lparr>running_config := (running_config (manager c))\<lparr>installed := True\<rparr>\<rparr>\<rparr>"
      "butlast obs = butlast daemon_objects"
    using c(2) v by (auto simp: configuration_install_def transactions_install_def boot_rules
        config_interface_def config_copy_def daemon_objects_def Let_def)
  have "obs = daemon_objects"
    by (subst c(3), subst cfg(2)) (simp add: daemon_objects_def)
  then show ?thesis
    using v c(4) cfg(1) by (simp add: txns_inv_def config_copy_def)
qed

lemma daemon_boot_loaded:
  assumes "daemon_boot strerror parse b path contents = Ret (srv, cfg, obs)"
  obtains c where "config_load parse path contents = Ret c"
    "configuration (running_config (manager cfg)) = configuration c"
  using assms
  by (auto simp: daemon_boot_def new_configuration_def new_service_def new_controller_def configuration_install_def
      config_copy_def Let_def boot_rules split: if_splits)

text \<open>
  C21: a daemon that reached its event loop has loaded a valid configuration, runs on a mutable copy of
  it with no open transactions, watches the system bus, and has installed exactly its five objects.
  This is a state from which the transaction methods keep the configuration valid.
\<close>

theorem daemon_starts_valid:
  assumes "daemon_main strerror parse b a file rounds = Serving srv cfg obs processed"
    and "\<And>t j. parse t = Ret j \<Longrightarrow> wf_json j"
  shows "txns_inv (manager cfg) \<and> txns (manager cfg) = [] \<and> obs = daemon_objects \<and>
    map_of (registered srv) (main_fd b) = Some (main_bus srv) \<and> \<not> mutable (saved cfg) \<and>
    mutable (running_config (manager cfg)) \<and>
    configuration (running_config (manager cfg)) = configuration (saved cfg)"
  using assms(1) daemon_boot_Ret[OF _ assms(2)]
  by (auto simp: daemon_main_def split: sum.splits res.splits prod.splits option.splits)

section \<open>The event loop\<close>

text \<open>The bus of each round, if no round were fatal, and the rounds that are.\<close>

fun bus_sequence :: "nat \<Rightarrow> round list \<Rightarrow> nat list" where
  "bus_sequence bus [] = []"
| "bus_sequence bus ((ret, wait) # rounds) =
     bus # bus_sequence (if ret > 0 then bus else case wait of Inl _ \<Rightarrow> bus | Inr bus' \<Rightarrow> bus') rounds"

definition fatal :: "nat \<Rightarrow> nat \<times> round \<Rightarrow> bool" where
  "fatal main step \<longleftrightarrow> (case step of (bus, ret, wait) \<Rightarrow> ret < 0 \<and> bus = main \<or> ret \<le> 0 \<and> isl wait)"

lemma fatal_step [simp]: "fatal main (bus, ret, wait) \<longleftrightarrow> ret < 0 \<and> bus = main \<or> ret \<le> 0 \<and> isl wait"
  by (simp add: fatal_def)

text \<open>
  C34: the event loop processes one bus per round, the same one again while that reports more work and
  otherwise the one that became ready. It goes on until the first round that is fatal: a failure of
  the system bus or of waiting. A failure on the bus of an entity daemon does not end it.
\<close>

theorem loop_runs_until_fatal:
  "let steps = zip (bus_sequence bus rounds) rounds;
       before = takeWhile (\<lambda>step. \<not> fatal main step) steps
   in fst (service_loop strerror main bus rounds) =
        map fst (take (Suc (length before)) steps) \<and>
      (snd (service_loop strerror main bus rounds) \<noteq> None \<longleftrightarrow> list_ex (fatal main) steps)"
proof (induction strerror main bus rounds rule: service_loop.induct)
  case (2 strerror main bus ret wait rounds)
  then show ?case
    by (cases wait) (auto simp: Let_def)
qed simp

theorem daemon_starts_valid_witness:
  "\<exists>srv cfg obs.
     daemon_main (\<lambda>_. ''e'') (\<lambda>_. Ret sample_file)
       \<lparr>epoll_create = 0, open_system = 0, request_name = 1, subscribe = 0, main_fd = 4, epoll_add = 0,
        vtable = \<lambda>_. 1\<rparr>
       \<lparr>leftover = [], help_given = False, config_file = None\<rparr> (\<lambda>_. Some ''{}'') [] = Serving srv cfg obs [] \<and>
     txns_inv (manager cfg) \<and> obs = daemon_objects"
proof -
  let ?run = "daemon_main (\<lambda>_. ''e'') (\<lambda>_. Ret sample_file)
       \<lparr>epoll_create = 0, open_system = 0, request_name = 1, subscribe = 0, main_fd = 4, epoll_add = 0,
        vtable = \<lambda>_. 1\<rparr>
       \<lparr>leftover = [], help_given = False, config_file = None\<rparr> (\<lambda>_. Some ''{}'') []"
  have "case ?run of Serving srv cfg obs processed \<Rightarrow> processed = [] | _ \<Rightarrow> False"
    by code_simp
  then obtain srv cfg obs where run: "?run = Serving srv cfg obs []"
    by (auto split: daemon.splits)
  have "wf_json sample_file"
    by code_simp
  then show ?thesis
    using daemon_starts_valid[OF run] run by auto
qed

end
