(* ===== verification/Control.thy ===== *)
theory Control
  imports Transactions
begin

text \<open>
  \<open>control/main.cpp\<close>, the program \<open>nonsensectl\<close>: each command verb checks its arguments, makes at most
  one D-Bus call and ends. A run is what it prints, the calls it makes and how it ends; what the
  option parser and the calls into sd-bus return is an argument.
\<close>

section \<open>Runs\<close>

datatype call_arg = StrArg string | U64Arg "64 word" | PairsArg "(string \<times> string) list"

record bus_call =
  call_path :: string
  call_interface :: string
  call_member :: string
  call_args :: "call_arg list"

text \<open>\<open>Crashed\<close>: a failed assertion, or the first element of an empty vector.\<close>

datatype ending = Exit nat | Crashed

record run =
  out :: "string list"
  calls :: "bus_call list"
  ending :: ending

text \<open>
  Results of connecting, of the k-th step of building a message, of the call, and of reading the
  reply; the token or the string that was read.
\<close>

record ctl_env =
  connect_status :: int
  build_status :: "nat \<Rightarrow> int"
  call_status :: int
  read_status :: int
  read_token :: "64 word"
  read_string :: string

definition exit_with :: "nat \<Rightarrow> run" where
  "exit_with n = \<lparr>out = [], calls = [], ending = Exit n\<rparr>"

definition crash :: run where
  "crash = \<lparr>out = [], calls = [], ending = Crashed\<rparr>"

definition dbus_service :: string where
  "dbus_service = ''info.griwes.nonsense''"

definition dbus_path_prefix :: string where
  "dbus_path_prefix = ''/info/griwes/nonsense''"

text \<open>\<open>dbus_connect\<close>, then the call; any failure ends the process with status 1.\<close>

definition dbus_call :: "ctl_env \<Rightarrow> bus_call \<Rightarrow> string list \<Rightarrow> run" where
  "dbus_call env c lines =
     (if connect_status env < 0 then exit_with 1
      else if call_status env < 0 \<or> read_status env < 0 then \<lparr>out = [], calls = [c], ending = Exit 1\<rparr>
      else \<lparr>out = lines, calls = [c], ending = Exit 0\<rparr>)"

section \<open>Tokens\<close>

text \<open>A token as it is printed: \<open>os.fill('0'); os << std::setw(16) << std::hex << token\<close>.\<close>

definition token_text :: "64 word \<Rightarrow> string" where
  "token_text t = pad_zero 16 (show_hex (unat t))"

text \<open>
  \<open>is >> std::hex >> token\<close> on a 64-bit unsigned integer: white space is skipped, a sign and a prefix
  \<open>0x\<close> are accepted, as many digits as there are are taken and the rest is left unread. Without a
  digit, or when the number needs more than 64 bits, the stream fails; a minus sign negates modulo
  the word size.
\<close>

definition is_space :: "char \<Rightarrow> bool" where
  "is_space c \<longleftrightarrow> c \<in> {CHR '' '', CHR 0x09, CHR 0x0A, CHR 0x0B, CHR 0x0C, CHR 0x0D}"

definition is_hex :: "char \<Rightarrow> bool" where
  "is_hex c \<longleftrightarrow> digit_value c \<noteq> None"

fun strip_prefix :: "string \<Rightarrow> string" where
  "strip_prefix (c # d # s) = (if c = CHR ''0'' \<and> (d = CHR ''x'' \<or> d = CHR ''X'') then s else c # d # s)"
| "strip_prefix s = s"

definition read_digits :: "string \<Rightarrow> 64 word option" where
  "read_digits s =
     (let ds = takeWhile is_hex (strip_prefix s)
      in if ds = [] \<or> hex_value ds \<ge> 2 ^ 64 then None else Some (of_nat (hex_value ds)))"

definition read_hex :: "string \<Rightarrow> 64 word option" where
  "read_hex s =
     (case dropWhile is_space s of
        [] \<Rightarrow> None
      | c # cs \<Rightarrow>
          if c = CHR ''-'' then map_option uminus (read_digits cs)
          else if c = CHR ''+'' then read_digits cs
          else read_digits (c # cs))"

section \<open>Verbs\<close>

text \<open>
  What the option parser delivers: arguments it did not recognize, the values of \<open>verb\<close>, the
  command arguments, and the token.
\<close>

record ctl_args =
  unrecognized :: "string list"
  verbs :: "string list"
  arguments :: "string list"
  token :: "string option"

datatype verb = Help | Version | Get | Add | Commit | Discard | Lock | Unlock | Start | Stop_verb

definition recognized_verbs :: "(string \<times> verb) list" where
  "recognized_verbs =
     [(''help'', Help), (''version'', Version), (''get'', Get), (''add'', Add), (''commit'', Commit),
      (''discard'', Discard), (''lock'', Lock), (''unlock'', Unlock), (''start'', Start),
      (''stop'', Stop_verb)]"

text \<open>\<open>opts.help()\<close> is the text of the option parser.\<close>

definition help_handler :: "string \<Rightarrow> ctl_args \<Rightarrow> run" where
  "help_handler usage a =
     (case arguments a of
        [] \<Rightarrow> \<lparr>out = [usage, ''TODO: supported command verbs''], calls = [], ending = Exit 0\<rparr>
      | [v] \<Rightarrow>
          if map_of recognized_verbs v \<noteq> None
          then \<lparr>out = [''TODO: help for command verb '' @ v], calls = [], ending = Exit 0\<rparr>
          else exit_with 1
      | _ \<Rightarrow> exit_with 1)"

text \<open>Neither is written; the verb \<open>commit\<close> has another handler.\<close>

definition version_handler :: "ctl_args \<Rightarrow> run" where
  "version_handler a = crash"

definition commit_handler :: "ctl_args \<Rightarrow> run" where
  "commit_handler a = crash"

declare version_handler_def [simp] commit_handler_def [simp]

definition get_transaction_token :: "ctl_env \<Rightarrow> string list \<Rightarrow> run" where
  "get_transaction_token env args =
     (if length args \<noteq> 1 then exit_with 1
      else dbus_call env
        \<lparr>call_path = dbus_path_prefix @ ''/configuration/transactions'',
         call_interface = ''info.griwes.nonsense.TransactionManager'', call_member = ''New'', call_args = []\<rparr>
        [token_text (read_token env)])"

definition get_property :: "ctl_env \<Rightarrow> string list \<Rightarrow> run" where
  "get_property env args =
     dbus_call env
       \<lparr>call_path = dbus_path_prefix @ ''/configuration/running'',
        call_interface = ''info.griwes.nonsense.MutableConfig'', call_member = ''Get'',
        call_args = [StrArg (hd args), StrArg (args ! (length args - 1))]\<rparr>
       [read_string env]"

definition get_handler :: "ctl_env \<Rightarrow> ctl_args \<Rightarrow> run" where
  "get_handler env a =
     (if arguments a = [] then exit_with 1
      else if hd (arguments a) = ''new-transaction-token'' then get_transaction_token env (arguments a)
      else get_property env (arguments a))"

text \<open>
  A validator for a set of allowed values: \<open>None\<close> for a value that is allowed, otherwise the message
  that lists them. The vector of values is not empty.
\<close>

definition expected_message :: "string list \<Rightarrow> string" where
  "expected_message allowed =
     (let quote = (\<lambda>s. CHR 0x27 # s @ [CHR 0x27]) in
      quote (hd allowed) @
      (if length allowed > 1
       then concat (map (\<lambda>v. '', '' @ quote v) (butlast (tl allowed))) @ '', or '' @ quote (last allowed)
       else []))"

definition set_validator :: "string list \<Rightarrow> string \<Rightarrow> string option" where
  "set_validator allowed v = (if v \<in> set allowed then None else Some (expected_message allowed))"

text \<open>One argument of \<open>add\<close>: split at the first equals sign.\<close>

definition split_argument :: "string \<Rightarrow> (string \<times> string) option" where
  "split_argument argument =
     (case find_char (CHR ''='') argument of
        None \<Rightarrow> None
      | Some eq_pos \<Rightarrow> Some (substr argument 0 eq_pos, drop (eq_pos + 1) argument))"

text \<open>The loop that appends the parameters; \<open>k\<close> counts the steps of building the message.\<close>

fun append_arguments :: "ctl_env \<Rightarrow> nat \<Rightarrow> string list \<Rightarrow> (string \<times> string) list option" where
  "append_arguments env k [] = Some []"
| "append_arguments env k (argument # args) =
     (case split_argument argument of
        None \<Rightarrow> None
      | Some kv \<Rightarrow>
          if build_status env k < 0 then None
          else map_option ((#) kv) (append_arguments env (Suc k) args))"

definition add_target :: "string option \<Rightarrow> string \<times> string" where
  "add_target t =
     (case t of
        None \<Rightarrow> (dbus_path_prefix @ ''/configuration/running'', ''info.griwes.nonsense.Config'')
      | Some text \<Rightarrow>
          (dbus_path_prefix @ ''/configuration/transactions/'' @ text, ''info.griwes.nonsense.Transaction''))"

definition add_handler :: "ctl_env \<Rightarrow> ctl_args \<Rightarrow> run" where
  "add_handler env a =
     (case arguments a of
        name # x # args \<Rightarrow>
          if connect_status env < 0 \<or> build_status env 0 < 0 \<or> build_status env 1 < 0 \<or> build_status env 2 < 0
          then exit_with 1
          else (case append_arguments env 3 (x # args) of
                  None \<Rightarrow> exit_with 1
                | Some params \<Rightarrow>
                    if build_status env (3 + length params) < 0 then exit_with 1
                    else dbus_call env
                      \<lparr>call_path = fst (add_target (token a)), call_interface = snd (add_target (token a)),
                       call_member = ''Add'', call_args = [StrArg name, PairsArg params]\<rparr> [])
      | _ \<Rightarrow> exit_with 1)"

definition finalize_handler :: "ctl_env \<Rightarrow> string \<Rightarrow> ctl_args \<Rightarrow> run" where
  "finalize_handler env member_name a =
     (if arguments a \<noteq> [] then exit_with 1
      else case token a of
             None \<Rightarrow> exit_with 1
           | Some text \<Rightarrow>
               (case read_hex text of
                  None \<Rightarrow> exit_with 1
                | Some t \<Rightarrow> dbus_call env
                    \<lparr>call_path = dbus_path_prefix @ ''/configuration/transactions'',
                     call_interface = ''info.griwes.nonsense.TransactionManager'', call_member = member_name,
                     call_args = [U64Arg t]\<rparr> []))"

text \<open>\<open>locking_handler\<close> and \<open>action_handler\<close> take the first argument without checking that there is one.\<close>

definition locking_handler :: "ctl_env \<Rightarrow> string \<Rightarrow> ctl_args \<Rightarrow> run" where
  "locking_handler env member_name a =
     (case arguments a of
        [] \<Rightarrow> crash
      | name # _ \<Rightarrow> dbus_call env
          \<lparr>call_path = dbus_path_prefix @ ''/configuration/running'',
           call_interface = ''info.griwes.nonsense.MutableConfig'', call_member = member_name,
           call_args = [StrArg name]\<rparr> [])"

definition action_handler :: "ctl_env \<Rightarrow> string \<Rightarrow> ctl_args \<Rightarrow> run" where
  "action_handler env member_name a =
     (case arguments a of
        [] \<Rightarrow> crash
      | name # _ \<Rightarrow> dbus_call env
          \<lparr>call_path = dbus_path_prefix, call_interface = ''info.griwes.nonsense.Controller'',
           call_member = member_name, call_args = [StrArg name]\<rparr> [])"

fun verb_handler :: "string \<Rightarrow> ctl_env \<Rightarrow> verb \<Rightarrow> ctl_args \<Rightarrow> run" where
  "verb_handler usage env Help = help_handler usage"
| "verb_handler usage env Version = version_handler"
| "verb_handler usage env Get = get_handler env"
| "verb_handler usage env Add = add_handler env"
| "verb_handler usage env Commit = finalize_handler env ''Commit''"
| "verb_handler usage env Discard = finalize_handler env ''Discard''"
| "verb_handler usage env Lock = locking_handler env ''Lock''"
| "verb_handler usage env Unlock = locking_handler env ''Unlock''"
| "verb_handler usage env Start = action_handler env ''Start''"
| "verb_handler usage env Stop_verb = action_handler env ''Stop''"

text \<open>\<open>main\<close>; \<open>None\<close> when the option parser throws.\<close>

definition control_main :: "string \<Rightarrow> ctl_env \<Rightarrow> ctl_args option \<Rightarrow> run" where
  "control_main usage env parsed =
     (case parsed of
        None \<Rightarrow> exit_with 1
      | Some a \<Rightarrow>
          if unrecognized a \<noteq> [] then exit_with 1
          else (case verbs a of
                  [v] \<Rightarrow>
                    (case map_of recognized_verbs v of
                       None \<Rightarrow> exit_with 1
                     | Some handler \<Rightarrow> verb_handler usage env handler a)
                | _ \<Rightarrow> (help_handler usage a)\<lparr>ending := Exit 1\<rparr>))"

end
