(* ===== verification/Control_Properties.thy ===== *)
theory Control_Properties
  imports Control Transactions_Properties
begin

text \<open>
  That \<open>nonsensectl\<close> and the daemon agree: tokens that are printed are read back and name the object of
  their transaction, and an \<open>add\<close> arrives as the operation that was typed.
\<close>

section \<open>Tokens\<close>

lemma takeWhile_append_stop:
  "\<forall>c \<in> set xs. P c \<Longrightarrow> (case ys of [] \<Rightarrow> True | y # _ \<Rightarrow> \<not> P y) \<Longrightarrow> takeWhile P (xs @ ys) = xs"
  by (induction xs) (auto split: list.splits)

lemma hex_not_x: "is_hex c \<Longrightarrow> c \<noteq> CHR ''x'' \<and> c \<noteq> CHR ''X''"
  by (auto simp: is_hex_def digit_value_def Let_def split: if_splits)

lemma hex_not_sign: "is_hex c \<Longrightarrow> \<not> is_space c \<and> c \<noteq> CHR ''-'' \<and> c \<noteq> CHR ''+''"
  by (auto simp: is_hex_def digit_value_def is_space_def Let_def split: if_splits)

text \<open>Digits that are followed by something that does not continue them.\<close>

definition ends_number :: "string \<Rightarrow> string \<Rightarrow> bool" where
  "ends_number ds rest \<longleftrightarrow>
     (case rest of [] \<Rightarrow> True | c # _ \<Rightarrow> \<not> is_hex c \<and> (ds = ''0'' \<longrightarrow> c \<noteq> CHR ''x'' \<and> c \<noteq> CHR ''X''))"

lemma strip_prefix_digits:
  assumes "\<forall>c \<in> set ds. is_hex c" "ds \<noteq> []" "ends_number ds rest"
  shows "strip_prefix (ds @ rest) = ds @ rest"
proof (cases ds)
  case (Cons c cs)
  show ?thesis
  proof (cases cs)
    case Nil
    then show ?thesis
      using Cons assms(3) by (cases rest) (auto simp: ends_number_def)
  next
    case (Cons d cs')
    then show ?thesis
      using \<open>ds = c # cs\<close> assms(1) hex_not_x[of d] by auto
  qed
qed (use assms in simp)

lemma read_hex_digits:
  assumes "\<forall>c \<in> set ds. is_hex c" "ds \<noteq> []" "ends_number ds rest"
  shows "read_hex (ds @ rest) = (if hex_value ds < 2 ^ 64 then Some (of_nat (hex_value ds)) else None)"
proof -
  have "takeWhile is_hex (ds @ rest) = ds"
    using assms(1,3) by (intro takeWhile_append_stop) (auto simp: ends_number_def split: list.splits)
  then have "read_digits (ds @ rest) = (if hex_value ds < 2 ^ 64 then Some (of_nat (hex_value ds)) else None)"
    using assms(2) by (simp add: read_digits_def strip_prefix_digits[OF assms] Let_def not_less)
  moreover obtain c cs where "ds = c # cs" "is_hex c"
    using assms(1,2) by (cases ds) auto
  ultimately show ?thesis
    using hex_not_sign[of c] by (simp add: read_hex_def)
qed

lemma unat_64: "unat (t :: 64 word) < 2 ^ 64"
  using unsigned_less[of t, where 'a = nat] by simp

lemma token_text_hex: "\<forall>c \<in> set (token_text t). is_hex c" "length (token_text t) = 16"
proof -
  have "unat t < 16 ^ 16"
    using unat_64[of t] by simp
  then show "length (token_text t) = 16"
    unfolding token_text_def by (intro length_pad_hex) simp_all
  show "\<forall>c \<in> set (token_text t). is_hex c"
    using digits_base_less[of 16 "unat t"]
    by (auto simp: token_text_def pad_zero_def show_hex_def is_hex_def set_replicate_conv_if)
qed

lemma read_token_text: "read_hex (token_text t) = Some t"
proof -
  have "hex_value (token_text t) = unat t"
    by (simp add: token_text_def)
  moreover have "token_text t \<noteq> []"
    using token_text_hex(2)[of t] by auto
  ultimately show ?thesis
    using read_hex_digits[OF token_text_hex(1), of t "[]"] unat_64[of t]
    by (simp add: ends_number_def)
qed

text \<open>
  C16: the token that \<open>get new-transaction-token\<close> prints for the daemon's answer is what the other verbs
  need: \<open>commit\<close> and \<open>discard\<close> with it call the daemon with the very same id, and \<open>add\<close> with it calls
  the object under which the daemon installed that transaction.
\<close>

theorem printed_token_names_transaction:
  assumes "connect_status env \<ge> 0" "call_status env \<ge> 0" "read_status env \<ge> 0"
    and "arguments a = []" "token a = Some (token_text t)"
  shows "out (get_transaction_token (env\<lparr>read_token := t\<rparr>) [''new-transaction-token'']) = [token_text t] \<and>
    map call_args (calls (finalize_handler env member_name a)) = [[U64Arg t]] \<and>
    fst (add_target (token a)) = transaction_path t"
  using assms read_token_text[of t]
  by (simp add: get_transaction_token_def finalize_handler_def dbus_call_def exit_with_def add_target_def
      dbus_path_prefix_def transaction_path_def token_text_def)

lemma hex_value_bound:
  assumes "\<forall>c \<in> set ds. is_hex c" "length ds \<le> 16"
  shows "hex_value ds < 2 ^ 64"
proof -
  have "hex_value ds < 16 ^ length ds" if "\<forall>c \<in> set ds. is_hex c" for ds
    using that
  proof (induction ds rule: rev_induct)
    case (snoc c ds)
    have "(case digit_value c of None \<Rightarrow> 0 | Some d \<Rightarrow> d) < 16"
      by (auto simp: digit_value_def Let_def)
    moreover have "hex_value ds < 16 ^ length ds"
      using snoc by simp
    ultimately show ?case
      by (simp add: hex_value_def)
  qed (simp add: hex_value_def)
  then show ?thesis
    using assms power_increasing[of "length ds" 16 "16 :: nat"] by fastforce
qed

lemma read_hex_no_digits:
  assumes "\<forall>c \<in> set s. \<not> is_hex c"
  shows "read_hex s = None"
proof -
  have "read_digits cs = None" if "set cs \<subseteq> set s" for cs
  proof -
    have "set (strip_prefix cs) \<subseteq> set cs"
      by (cases cs rule: strip_prefix.cases) auto
    then have "takeWhile is_hex (strip_prefix cs) = []"
      using assms that by (cases "strip_prefix cs") auto
    then show ?thesis
      by (simp add: read_digits_def)
  qed
  moreover have "set (dropWhile is_space s) \<subseteq> set s"
    using set_dropWhileD by fast
  ultimately show ?thesis
    by (auto simp: read_hex_def split: list.splits)
qed

text \<open>
  C35: \<open>commit\<close> and \<open>discard\<close>, called without further arguments and with the
  daemon reachable, check the token they send. A token that starts with digits (other than those of a
  prefix \<open>0x\<close>) is sent as their value if that fits into 64 bits, as it always does for up
  to sixteen digits, and whatever follows the digits is ignored; the call made is the only one. If the
  value does not fit, or if the token has no digit at all, the command exits with status 1 and makes no
  call.
\<close>

theorem token_reading_bounds:
  assumes "arguments a = []" "connect_status env \<ge> 0"
  shows "(\<forall>ds rest. (\<forall>c \<in> set ds. is_hex c) \<and> ds \<noteq> [] \<and> ends_number ds rest \<and> token a = Some (ds @ rest) \<longrightarrow>
      (if hex_value ds < 2 ^ 64
       then unat (of_nat (hex_value ds) :: 64 word) = hex_value ds \<and>
         calls (finalize_handler env member_name a) =
           [\<lparr>call_path = ''/info/griwes/nonsense/configuration/transactions'',
             call_interface = ''info.griwes.nonsense.TransactionManager'', call_member = member_name,
             call_args = [U64Arg (of_nat (hex_value ds))]\<rparr>]
       else finalize_handler env member_name a = \<lparr>out = [], calls = [], ending = Exit 1\<rparr>) \<and>
      (length ds \<le> 16 \<longrightarrow> hex_value ds < 2 ^ 64)) \<and>
    (\<forall>t. (\<forall>c \<in> set t. \<not> is_hex c) \<and> token a = Some t \<longrightarrow>
      finalize_handler env member_name a = \<lparr>out = [], calls = [], ending = Exit 1\<rparr>)"
proof (intro conjI allI impI; elim conjE)
  fix ds rest
  assume ds: "\<forall>c \<in> set ds. is_hex c" "ds \<noteq> []" "ends_number ds rest" "token a = Some (ds @ rest)"
  have "unat (of_nat (hex_value ds) :: 64 word) = hex_value ds" if "hex_value ds < 2 ^ 64"
    using that by (simp add: unat_of_nat)
  then show "if hex_value ds < 2 ^ 64
       then unat (of_nat (hex_value ds) :: 64 word) = hex_value ds \<and>
         calls (finalize_handler env member_name a) =
           [\<lparr>call_path = ''/info/griwes/nonsense/configuration/transactions'',
             call_interface = ''info.griwes.nonsense.TransactionManager'', call_member = member_name,
             call_args = [U64Arg (of_nat (hex_value ds))]\<rparr>]
       else finalize_handler env member_name a = \<lparr>out = [], calls = [], ending = Exit 1\<rparr>"
    using assms ds(4) read_hex_digits[OF ds(1-3)]
    by (simp add: finalize_handler_def dbus_call_def exit_with_def dbus_path_prefix_def)
  show "hex_value ds < 2 ^ 64" if "length ds \<le> 16"
    using hex_value_bound[OF ds(1) that] .
next
  fix t assume "\<forall>c \<in> set t. \<not> is_hex c" "token a = Some t"
  then show "finalize_handler env member_name a = \<lparr>out = [], calls = [], ending = Exit 1\<rparr>"
    using assms(1) by (simp add: finalize_handler_def read_hex_no_digits exit_with_def)
qed

section \<open>Adding an entity\<close>

definition argument_text :: "string \<times> string \<Rightarrow> string" where
  "argument_text kv = fst kv @ ''='' @ snd kv"

lemma split_argument_text: "CHR ''='' \<notin> set (fst kv) \<Longrightarrow> split_argument (argument_text kv) = Some kv"
  using find_char_append[of "CHR ''=''" "fst kv" "snd kv"]
  by (cases kv) (simp add: split_argument_def argument_text_def substr_def)

lemma append_argument_texts:
  "\<forall>kv \<in> set kvs. CHR ''='' \<notin> set (fst kv) \<Longrightarrow> \<forall>k. build_status env k \<ge> 0 \<Longrightarrow>
     append_arguments env k (map argument_text kvs) = Some kvs"
  by (induction kvs arbitrary: k) (auto simp: split_argument_text not_less)

text \<open>What the daemon reads from the body of a call that arrived as it was sent.\<close>

fun delivered :: "call_arg list \<Rightarrow> add_message" where
  "delivered [StrArg name, PairsArg kvs] =
     \<lparr>name_status = 1, add_name = name, array_status = 1, items = map (\<lambda>(k, v). (1, k, v, 1)) kvs,
      end_status = 0, exit_status = 1\<rparr>"
| "delivered _ =
     \<lparr>name_status = - EINVAL, add_name = [], array_status = - EINVAL, items = [], end_status = - EINVAL,
      exit_status = - EINVAL\<rparr>"

lemma read_items_delivered:
  "read_items (map (\<lambda>(k, v). (1, k, v, 1)) kvs) acc =
     Inr (acc @ map (\<lambda>(k, v). \<lparr>parameter = k, param_value = v\<rparr>) kvs)"
  by (induction kvs arbitrary: acc) auto

text \<open>
  C24: \<open>nonsensectl add\<close> with the token of a transaction and parameters \<open>k=v\<close> makes one call, to the object
  of that transaction, and the daemon, if the caller is its owner or root, appends exactly the
  operation with this name and these parameters in their order.
\<close>

theorem typed_add_reaches_transaction:
  assumes "arguments a = name # map argument_text kvs" "kvs \<noteq> []" "\<forall>kv \<in> set kvs. CHR ''='' \<notin> set (fst kv)"
    and "token a = Some (token_text (txn_id t))" "object_path t = transaction_path (txn_id t)"
    and "connect_status env \<ge> 0" "\<forall>k. build_status env k \<ge> 0" "call_status env \<ge> 0" "read_status env \<ge> 0"
    and "query_sender_creds from \<ge> 0" "creds_get_uid from \<ge> 0" "may_modify (sender_uid from) t"
    and "reply_method_return bus \<ge> 0"
  shows "\<exists>c ou. calls (add_handler env a) = [c] \<and> call_path c = object_path t \<and>
    method_add bus from (delivered (call_args c)) t = Ret ou \<and> sent ou = [MethodReturn []] \<and>
    state ou = t\<lparr>operations := operations t @
      [add_op name (map (\<lambda>(k, v). \<lparr>parameter = k, param_value = v\<rparr>) kvs)]\<rparr>"
proof -
  have build: "\<not> build_status env k < 0" for k
    using assms(7) by (simp add: not_less)
  have args: "append_arguments env 3 (map argument_text kvs) = Some kvs"
    using append_argument_texts assms(3,7) by blast
  obtain x xs where "map argument_text kvs = x # xs"
    using assms(2) by (cases kvs) auto
  then have "calls (add_handler env a) = [\<lparr>call_path = transaction_path (txn_id t),
      call_interface = ''info.griwes.nonsense.Transaction'', call_member = ''Add'',
      call_args = [StrArg name, PairsArg kvs]\<rparr>]"
    using assms(1,4,6,8,9) args build
    by (simp add: add_handler_def dbus_call_def add_target_def dbus_path_prefix_def transaction_path_def token_text_def)
  moreover have "method_add bus from (delivered [StrArg name, PairsArg kvs]) t =
      Ret \<lparr>sent = [MethodReturn []], ret_error = None, state = t\<lparr>operations := operations t @
        [add_op name (map (\<lambda>(k, v). \<lparr>parameter = k, param_value = v\<rparr>) kvs)]\<rparr>\<rparr>"
    using assms(10-13)
    by (auto simp: method_add_def read_items_delivered may_modify_def co_yield_def yield_value_def
        co_return_reply_def co_return_def reply_status_def replies_def)
  ultimately show ?thesis
    using assms(5) by simp
qed

text \<open>
  \<open>nonsensectl\<close> makes at most one call, and one only for a single known verb after it connected; it
  ends with status 0 only when a call was made and answered, or when help was asked for.
\<close>

theorem control_calls_at_most_once:
  "length (calls (control_main usage env parsed)) \<le> 1 \<and>
   (calls (control_main usage env parsed) = [] \<or> connect_status env \<ge> 0 \<and>
      (\<exists>a v. parsed = Some a \<and> verbs a = [v] \<and> map_of recognized_verbs v \<noteq> None)) \<and>
   (ending (control_main usage env parsed) \<noteq> Exit 0 \<or> call_status env \<ge> 0 \<and> calls (control_main usage env parsed) \<noteq> [] \<or>
      (\<exists>a. parsed = Some a \<and> verbs a = [''help'']))"
proof -
  have call: "length (calls (dbus_call env c lines)) \<le> 1"
      "calls (dbus_call env c lines) = [] \<or> connect_status env \<ge> 0"
      "ending (dbus_call env c lines) \<noteq> Exit 0 \<or> call_status env \<ge> 0 \<and> calls (dbus_call env c lines) \<noteq> []" for c lines
    by (auto simp: dbus_call_def exit_with_def)
  have other: "calls (help_handler usage a) = []" "calls (exit_with n) = []" "ending (exit_with n) = Exit n"
      "calls crash = []" "ending crash = Crashed" for a n
    by (auto simp: help_handler_def exit_with_def crash_def split: list.splits)
  show ?thesis
  proof (cases "\<exists>a v h. parsed = Some a \<and> unrecognized a = [] \<and> verbs a = [v] \<and> map_of recognized_verbs v = Some h")
    case False
    then show ?thesis
      using other by (auto simp: control_main_def split: option.splits list.splits)
  next
    case True
    then obtain a v h where a: "parsed = Some a" "verbs a = [v]" "map_of recognized_verbs v = Some h"
        "control_main usage env parsed = verb_handler usage env h a"
      by (auto simp: control_main_def)
    have "h = Help \<longleftrightarrow> v = ''help''"
      using a(3) by (auto simp: recognized_verbs_def split: if_splits)
    then show ?thesis
      unfolding a(4) using a call other
      by (cases h) (auto simp: get_handler_def get_transaction_token_def get_property_def add_handler_def
          finalize_handler_def locking_handler_def action_handler_def split: list.splits option.splits)
  qed
qed

section \<open>Witnesses\<close>

definition sample_env :: ctl_env where
  "sample_env = \<lparr>connect_status = 0, build_status = \<lambda>_. 0, call_status = 1, read_status = 1, read_token = 0,
     read_string = ''v''\<rparr>"

definition sample_args :: "string list \<Rightarrow> string \<Rightarrow> ctl_args" where
  "sample_args args text = \<lparr>unrecognized = [], verbs = [''add''], arguments = args, token = Some text\<rparr>"

theorem printed_token_names_transaction_witness:
  "map call_args (calls (finalize_handler sample_env ''Commit'' (sample_args [] (token_text 51966)))) =
     [[U64Arg 51966]] \<and> fst (add_target (Some (token_text 51966))) = transaction_path 51966"
  using printed_token_names_transaction[of sample_env "sample_args [] (token_text 51966)" 51966 "''Commit''"]
  by (simp add: sample_env_def sample_args_def)

theorem token_reading_bounds_witness:
  "map call_args (calls (finalize_handler sample_env ''Commit'' (sample_args [] ''ff zz''))) = [[U64Arg 255]] \<and>
   finalize_handler sample_env ''Commit'' (sample_args [] ''10000000000000000'') =
     \<lparr>out = [], calls = [], ending = Exit 1\<rparr> \<and>
   finalize_handler sample_env ''Commit'' (sample_args [] ''zz'') = \<lparr>out = [], calls = [], ending = Exit 1\<rparr>"
proof -
  have hex: "\<forall>c \<in> set ''ff''. is_hex c" "\<forall>c \<in> set ''10000000000000000''. is_hex c" "\<forall>c \<in> set ''zz''. \<not> is_hex c"
      "hex_value ''ff'' = 255" "hex_value ''10000000000000000'' = 2 ^ 64" "\<not> is_hex (CHR '' '')"
    by (simp_all add: is_hex_def digit_value_def hex_value_def)
  have ok: "arguments (sample_args [] t) = []" "token (sample_args [] t) = Some t" "0 \<le> connect_status sample_env" for t
    by (simp_all add: sample_args_def sample_env_def)
  note read = token_reading_bounds[OF ok(1,3), of _ "''Commit''", THEN conjunct1, rule_format, OF conjI[OF _ conjI[OF _ conjI]]]
  have "ends_number ''ff'' '' zz''" "ends_number ''10000000000000000'' []"
    using hex(6) by (simp_all add: ends_number_def)
  then show ?thesis
    using read[of "''ff''" "'' zz''" "''ff zz''"] read[of "''10000000000000000''" "[]" "''10000000000000000''"]
      token_reading_bounds[OF ok(1,3), of "''zz''" "''Commit''", THEN conjunct2, rule_format, of "''zz''"] hex ok(2)
    by simp
qed

theorem typed_add_reaches_transaction_witness:
  "\<exists>c ou. calls (add_handler sample_env (sample_args [''sw'', ''network.role=switch''] (token_text 9))) = [c] \<and>
     method_add \<lparr>reply_method_error = 0, reply_method_errno = 0, reply_method_return = 1\<rparr>
       \<lparr>query_sender_creds = 0, creds_get_uid = 0, sender_uid = 0\<rparr> (delivered (call_args c))
       \<lparr>txn_id = 9, object_path = transaction_path 9, owner = 1000, operations = []\<rparr> = Ret ou \<and>
     operations (state ou) = [add_op ''sw'' [\<lparr>parameter = ''network.role'', param_value = ''switch''\<rparr>]]"
  using typed_add_reaches_transaction[of "sample_args [''sw'', ''network.role=switch''] (token_text 9)" "''sw''"
      "[(''network.role'', ''switch'')]" "\<lparr>txn_id = 9, object_path = transaction_path 9, owner = 1000, operations = []\<rparr>"
      sample_env "\<lparr>query_sender_creds = 0, creds_get_uid = 0, sender_uid = 0\<rparr>"
      "\<lparr>reply_method_error = 0, reply_method_errno = 0, reply_method_return = 1\<rparr>"]
  by (auto simp: sample_env_def sample_args_def argument_text_def may_modify_def)

theorem control_calls_at_most_once_witness:
  "length (calls (control_main ''u'' sample_env
     (Some \<lparr>unrecognized = [], verbs = [''start''], arguments = [''sw''], token = None\<rparr>))) = 1"
proof -
  let ?run = "control_main ''u'' sample_env
     (Some \<lparr>unrecognized = [], verbs = [''start''], arguments = [''sw''], token = None\<rparr>)"
  have "ending ?run = Exit 0"
    by code_simp
  then show ?thesis
    using control_calls_at_most_once[of "''u''" sample_env
        "Some \<lparr>unrecognized = [], verbs = [''start''], arguments = [''sw''], token = None\<rparr>"]
    by (cases "calls ?run") auto
qed

end
