(* ===== verification/Bus_Interface.thy ===== *)
theory Bus_Interface
  imports Service_Properties Control_Properties Entity_Start
begin

text \<open>
  The D-Bus interfaces as the programs declare them: the vtables of the daemon's objects and of the
  entity daemon, and the peers that the daemon calls (\<open>daemon/async.h\<close>). A call is served when an object
  with that path and interface has the member with the signature of the arguments that were sent;
  which calls of \<open>nonsensectl\<close> are served by a running daemon follows from both sides' code.
\<close>

section \<open>Vtables\<close>

datatype bus_handler =
    Config_get
  | Transaction_serialize | Transaction_add | Transaction_set | Transaction_delete
  | Transactions_list | Transactions_new | Transactions_commit | Transactions_discard
  | Controller_start | Controller_stop
  | Entityd_add_component | Entityd_handle_shutdown

record vtable_method =
  vt_member :: string
  vt_input :: string
  vt_output :: string
  vt_handler :: bus_handler

definition sd_bus_method :: "string \<Rightarrow> string \<Rightarrow> string \<Rightarrow> bus_handler \<Rightarrow> vtable_method" where
  "sd_bus_method m i r h = \<lparr>vt_member = m, vt_input = i, vt_output = r, vt_handler = h\<rparr>"

definition config_vtable :: "vtable_method list" where
  "config_vtable = [sd_bus_method ''Get'' ''yss'' ''s'' Config_get]"

definition mutable_config_vtable :: "vtable_method list" where
  "mutable_config_vtable = [sd_bus_method ''Get'' ''yss'' ''s'' Config_get]"

text \<open>The property \<open>Owner\<close> is declared with the type of what its getter appends, an unsigned 32 bit integer.\<close>

definition transaction_vtable :: "vtable_method list" where
  "transaction_vtable =
     [sd_bus_method ''Serialize'' '''' ''s'' Transaction_serialize,
      sd_bus_method ''Add'' ''sa(ss)'' '''' Transaction_add,
      sd_bus_method ''Set'' ''s(ss)'' '''' Transaction_set,
      sd_bus_method ''Delete'' ''s'' '''' Transaction_delete]"

definition transaction_properties :: "(string \<times> string) list" where
  "transaction_properties = [(''Owner'', ''u'')]"

definition transaction_mgr_vtable :: "vtable_method list" where
  "transaction_mgr_vtable =
     [sd_bus_method ''List'' '''' ''a(to)'' Transactions_list,
      sd_bus_method ''New'' '''' ''to'' Transactions_new,
      sd_bus_method ''Commit'' ''t'' '''' Transactions_commit,
      sd_bus_method ''Discard'' ''t'' '''' Transactions_discard]"

definition config_mgr_vtable :: "vtable_method list" where
  "config_mgr_vtable = []"

definition controller_vtable :: "vtable_method list" where
  "controller_vtable =
     [sd_bus_method ''Start'' ''s'' '''' Controller_start,
      sd_bus_method ''Stop'' ''s'' '''' Controller_stop]"

definition entityd_vtable :: "vtable_method list" where
  "entityd_vtable =
     [sd_bus_method ''AddComponent'' ''ss'' ''b'' Entityd_add_component,
      sd_bus_method ''Shutdown'' '''' '''' Entityd_handle_shutdown]"

text \<open>Each interface is installed with its own vtable.\<close>

definition interface_vtable :: "string \<Rightarrow> vtable_method list" where
  "interface_vtable iface =
     (case map_of
        [(''info.griwes.nonsenes.Config'', config_vtable),
         (''info.griwes.nonsense.MutableConfig'', mutable_config_vtable),
         (''info.griwes.nonsense.Transaction'', transaction_vtable),
         (''info.griwes.nonsense.TransactionManager'', transaction_mgr_vtable),
         (''info.griwes.nonsense.ConfigManager'', config_mgr_vtable),
         (''info.griwes.nonsense.Controller'', controller_vtable),
         (''info.griwes.nonsense.Entityd'', entityd_vtable)] iface of
        None \<Rightarrow> [] | Some v \<Rightarrow> v)"

section \<open>Serving a call\<close>

fun arg_signature :: "call_arg \<Rightarrow> string" where
  "arg_signature (StrArg s) = ''s''"
| "arg_signature (U64Arg t) = ''t''"
| "arg_signature (PairsArg ps) = ''a(ss)''"

text \<open>The objects of a daemon with these transactions: its own and one per transaction.\<close>

definition all_objects :: "bus_object list \<Rightarrow> transactions \<Rightarrow> bus_object list" where
  "all_objects obs ts = obs @ map (\<lambda>(i, t). (object_path t, ''info.griwes.nonsense.Transaction'')) (txns ts)"

definition find_method :: "bus_object list \<Rightarrow> string \<Rightarrow> string \<Rightarrow> string \<Rightarrow> string \<Rightarrow> bus_handler option" where
  "find_method obs path iface m signature =
     (if (path, iface) \<notin> set obs then None
      else map_option vt_handler
        (find (\<lambda>v. vt_member v = m \<and> vt_input v = signature) (interface_vtable iface)))"

definition serves :: "bus_object list \<Rightarrow> bus_call \<Rightarrow> bus_handler option" where
  "serves obs c =
     find_method obs (call_path c) (call_interface c) (call_member c) (concat (map arg_signature (call_args c)))"

section \<open>The daemon's own calls\<close>

record service_description =
  sd_service :: string
  sd_path :: string
  sd_interface :: string

definition dbus_local :: service_description where
  "dbus_local = \<lparr>sd_service = ''org.freedesktop.DBus.Local'', sd_path = ''/org/freedesktop/DBus/Local'',
     sd_interface = ''org.freedesktop.DBus.Local''\<rparr>"

definition systemd_manager :: service_description where
  "systemd_manager = \<lparr>sd_service = ''org.freedesktop.systemd1'', sd_path = ''/org/freedesktop/systemd1'',
     sd_interface = ''org.freedesktop.systemd1.Manager''\<rparr>"

definition entityd_service :: service_description where
  "entityd_service = \<lparr>sd_service = ''info.griwes.nonsense'', sd_path = ''/'',
     sd_interface = ''info.griwes.nonsense.Entityd''\<rparr>"

record signal_description =
  sg_service :: service_description
  sg_name :: string
  sg_arguments :: string

definition signal_connected :: signal_description where
  "signal_connected = \<lparr>sg_service = dbus_local, sg_name = ''Connected'', sg_arguments = ''''\<rparr>"

definition signal_disconnected :: signal_description where
  "signal_disconnected = \<lparr>sg_service = dbus_local, sg_name = ''Disconnected'', sg_arguments = ''''\<rparr>"

definition signal_job_removed :: signal_description where
  "signal_job_removed = \<lparr>sg_service = systemd_manager, sg_name = ''JobRemoved'', sg_arguments = ''uoss''\<rparr>"

text \<open>The peer, member and signature of each asynchronous call of \<open>start\<close> and \<open>stop\<close>.\<close>

fun request_of :: "effect \<Rightarrow> (service_description \<times> string \<times> string) option" where
  "request_of (StartTransientUnit u s) = Some (systemd_manager, ''StartTransientUnit'', ''ssa(sv)a(sa(sv))'')"
| "request_of (StopUnit u) = Some (systemd_manager, ''StopUnit'', ''ss'')"
| "request_of (AddComponentCall n t c) = Some (entityd_service, ''AddComponent'', ''ss'')"
| "request_of (ShutdownCall n) = Some (entityd_service, ''Shutdown'', '''')"
| "request_of _ = None"

text \<open>The one object of the entity daemon.\<close>

definition entityd_objects :: "bus_object list" where
  "entityd_objects = [(''/'', ''info.griwes.nonsense.Entityd'')]"

section \<open>Properties\<close>

lemma find_method_daemon:
  "find_method (all_objects daemon_objects ts) path iface m s =
     (if (path, iface) \<in> set daemon_objects \<or> iface = ''info.griwes.nonsense.Transaction'' \<and> path \<in> object_path ` snd ` set (txns ts)
      then map_option vt_handler (find (\<lambda>v. vt_member v = m \<and> vt_input v = s) (interface_vtable iface)) else None)"
  by (auto simp: find_method_def all_objects_def image_iff split: prod.splits)

lemma set_daemon_objects: "set daemon_objects =
   {(''/info/griwes/nonsense/configuration'', ''info.griwes.nonsense.ConfigManager''),
    (''/info/griwes/nonsense/configuration/saved'', ''info.griwes.nonsenes.Config''),
    (''/info/griwes/nonsense/configuration/running'', ''info.griwes.nonsense.MutableConfig''),
    (''/info/griwes/nonsense/configuration/transactions'', ''info.griwes.nonsense.TransactionManager''),
    (''/info/griwes/nonsense'', ''info.griwes.nonsense.Controller'')}"
  by (simp add: daemon_objects_def)

text \<open>The handler that serves a command of \<open>nonsensectl\<close>; \<open>opened\<close> tells whether the token names an
  open transaction.\<close>

definition served_verb :: "verb \<Rightarrow> string list \<Rightarrow> bool \<Rightarrow> bus_handler option" where
  "served_verb v args opened =
     (case v of
        Get \<Rightarrow> if args = [''new-transaction-token''] then Some Transactions_new else None
      | Add \<Rightarrow> if opened then Some Transaction_add else None
      | Commit \<Rightarrow> Some Transactions_commit
      | Discard \<Rightarrow> Some Transactions_discard
      | Start \<Rightarrow> Some Controller_start
      | Stop_verb \<Rightarrow> Some Controller_stop
      | _ \<Rightarrow> None)"

definition names_open :: "transactions \<Rightarrow> string option \<Rightarrow> bool" where
  "names_open ts tok \<longleftrightarrow>
     (case tok of None \<Rightarrow> False
      | Some x \<Rightarrow> dbus_path_prefix @ ''/configuration/transactions/'' @ x \<in> object_path ` snd ` set (txns ts))"

lemmas interface_defs = interface_vtable_def transaction_vtable_def transaction_mgr_vtable_def
  controller_vtable_def config_vtable_def mutable_config_vtable_def sd_bus_method_def

lemma dbus_call_calls: "calls (dbus_call env c lines) = [c'] \<Longrightarrow> c' = c"
  by (auto simp: dbus_call_def exit_with_def split: if_splits)

lemma no_call [simp]: "calls (exit_with n) = []" "calls crash = []"
  by (simp_all add: exit_with_def crash_def)

lemma serves_daemon:
  "serves (all_objects daemon_objects ts) \<lparr>call_path = path, call_interface = iface, call_member = m, call_args = args\<rparr> =
     (if (path, iface) \<in> set daemon_objects \<or> iface = ''info.griwes.nonsense.Transaction'' \<and> path \<in> object_path ` snd ` set (txns ts)
      then map_option vt_handler (find (\<lambda>v. vt_member v = m \<and> vt_input v = concat (map arg_signature args)) (interface_vtable iface))
      else None)"
  by (simp add: serves_def find_method_daemon)

text \<open>
  C20: which commands of \<open>nonsensectl\<close> a running daemon serves, and by which handler. Whatever the state of
  the daemon's transactions: asking for a token, \<open>commit\<close>, \<open>discard\<close>, \<open>start\<close> and \<open>stop\<close> always reach
  their handler; \<open>add\<close> does if and only if the given token names an open transaction; reading a
  property, \<open>lock\<close>, \<open>unlock\<close> and \<open>add\<close> without a token never reach one.
\<close>

theorem control_calls_served:
  assumes "calls (control_main usage env (Some a)) = [c]" "verbs a = [v]" "map_of recognized_verbs v = Some h"
  shows "serves (all_objects daemon_objects ts) c = served_verb h (arguments a) (names_open ts (token a))"
proof -
  have run: "calls (verb_handler usage env h a) = [c]"
    using assms by (auto simp: control_main_def split: if_splits)
  note eval = serves_daemon set_daemon_objects dbus_path_prefix_def interface_defs served_verb_def
  show ?thesis
  proof (cases h)
    case Help
    then show ?thesis using run by (auto simp: help_handler_def split: list.splits if_splits)
  next
    case Get
    show ?thesis
    proof (cases "hd (arguments a) = ''new-transaction-token''")
      case True
      then have "arguments a = [''new-transaction-token'']"
        using run Get by (cases "arguments a") (auto simp: get_handler_def get_transaction_token_def split: if_splits)
      then show ?thesis
        using run Get by (auto simp: get_handler_def get_transaction_token_def eval dest!: dbus_call_calls)
    next
      case False
      then show ?thesis
        using run Get by (auto simp: get_handler_def get_property_def eval dest!: dbus_call_calls split: if_splits)
    qed
  next
    case Add
    then obtain name ps where c: "c = \<lparr>call_path = fst (add_target (token a)), call_interface = snd (add_target (token a)),
        call_member = ''Add'', call_args = [StrArg name, PairsArg ps]\<rparr>"
      using run by (auto simp: add_handler_def dest!: dbus_call_calls split: if_splits list.splits option.splits)
    show ?thesis
      unfolding c Add names_open_def by (cases "token a") (simp_all add: add_target_def eval)
  next
    case Commit
    then show ?thesis
      using run by (auto simp: finalize_handler_def eval dest!: dbus_call_calls split: if_splits option.splits)
  next
    case Discard
    then show ?thesis
      using run by (auto simp: finalize_handler_def eval dest!: dbus_call_calls split: if_splits option.splits)
  qed (use run in \<open>auto simp: locking_handler_def action_handler_def eval dest!: dbus_call_calls
      split: if_splits list.splits\<close>)
qed

text \<open>The calls to the entity daemon match its vtable.\<close>

lemma entityd_requests_served:
  assumes "request_of e = Some (srv, m, s)" "srv = entityd_service"
  shows "find_method entityd_objects (sd_path srv) (sd_interface srv) m s \<noteq> None"
  using assms
  by (cases e) (auto simp: entityd_service_def systemd_manager_def find_method_def entityd_objects_def
      entityd_vtable_def interface_defs)

text \<open>A printed token names an open transaction exactly if there is one with this id.\<close>

lemma token_text_names_open:
  assumes "txns_inv ts"
  shows "names_open ts (Some (token_text t)) \<longleftrightarrow> t \<in> fst ` set (txns ts)"
proof -
  have path: "dbus_path_prefix @ ''/configuration/transactions/'' @ token_text t = transaction_path t"
    by (simp add: dbus_path_prefix_def token_text_def transaction_path_def)
  have "object_path x = transaction_path i" if "(i, x) \<in> set (txns ts)" for i x
    using assms that map_of_is_SomeI[of "txns ts" i x] by (auto simp: txns_inv_def map_wf_def strict_sorted_iff)
  then show ?thesis
    unfolding names_open_def option.case path by (force simp: image_iff )
qed

theorem control_calls_served_witness:
  "\<exists>c. calls (control_main ''u'' sample_env
        (Some \<lparr>unrecognized = [], verbs = [''add''], arguments = [''sw'', ''network.role=switch''], token = None\<rparr>)) = [c] \<and>
     (\<forall>ts. serves (all_objects daemon_objects ts) c = None)"
proof -
  let ?a = "\<lparr>unrecognized = [], verbs = [''add''], arguments = [''sw'', ''network.role=switch''], token = None\<rparr>"
  have "length (calls (control_main ''u'' sample_env (Some ?a))) = 1"
    by code_simp
  then obtain c where c: "calls (control_main ''u'' sample_env (Some ?a)) = [c]"
    by (auto simp: length_Suc_conv)
  have "serves (all_objects daemon_objects ts) c = None" for ts
    using control_calls_served[OF c, of "''add''" Add ts] by (simp add: recognized_verbs_def served_verb_def names_open_def)
  then show ?thesis
    using c by blast
qed

end
