(* ===== verification/Support.thy ===== *)
theory Support
  imports Entityd_Properties
begin

text \<open>
  Small parts that several components use: the prefix and the lines of the log (\<open>daemon/log_helpers.h\<close>,
  \<open>daemon/async.h\<close>), the owner of a registration on the bus (\<open>daemon/bus_slot.h\<close>), and the
  configuration's own copy of the address computation (\<open>daemon/config.cpp\<close>).
\<close>

section \<open>Log lines\<close>

text \<open>\<open>mode\<close> is the environment variable \<open>NONSENSED_MODE\<close>, read once.\<close>

definition error_prefix :: "string option \<Rightarrow> string" where
  "error_prefix mode = (if mode = Some ''systemd_service'' then ''<3>'' else '''')"

text \<open>The status is passed on, for \<open>co_yield\<close>, and a negative one is logged.\<close>

definition log_and_reply_on_error :: "(int \<Rightarrow> string) \<Rightarrow> string option \<Rightarrow> int \<Rightarrow> string \<Rightarrow> int \<times> string list" where
  "log_and_reply_on_error strerror mode code message =
     (code, if code < 0 then [error_prefix mode @ ''Error: '' @ message @ '': '' @ strerror (- code) @ [CHR 0x0A]]
            else [])"

lemma log_only_errors: "snd (log_and_reply_on_error strerror mode code message) \<noteq> [] \<longleftrightarrow>
    fst (log_and_reply_on_error strerror mode code message) < 0"
  by (simp add: log_and_reply_on_error_def)

section \<open>Slots\<close>

text \<open>\<open>dbus_slot\<close>: the slot it owns, if any. \<open>sd_bus_slot_unref\<close> of a null pointer does nothing; the
  references given back are the second component.\<close>

type_synonym dbus_slot = "nat option"

definition slot_move :: "dbus_slot \<Rightarrow> dbus_slot \<times> dbus_slot" where
  "slot_move other = (other, None)"

definition slot_reset :: "dbus_slot \<Rightarrow> dbus_slot \<times> nat list" where
  "slot_reset self = (self, case self of None \<Rightarrow> [] | Some p \<Rightarrow> [p])"

definition slot_destroy :: "dbus_slot \<Rightarrow> nat list" where
  "slot_destroy self = snd (slot_reset self)"

text \<open>However often a slot is moved on, it is given back once, by the last owner.\<close>

fun slot_pass_on :: "nat \<Rightarrow> dbus_slot \<Rightarrow> nat list" where
  "slot_pass_on 0 self = slot_destroy self"
| "slot_pass_on (Suc n) self = (let (owner, rest) = slot_move self in slot_pass_on n owner @ slot_destroy rest)"

lemma slot_given_back_once: "slot_pass_on n (Some p) = [p]"
  by (induction n) (auto simp: slot_move_def slot_destroy_def slot_reset_def)

text \<open>After an explicit \<open>reset\<close> the destructor gives the slot back a second time: the pointer stays.\<close>

lemma slot_reset_twice: "snd (slot_reset (Some p)) @ slot_destroy (fst (slot_reset (Some p))) = [p, p]"
  by (simp add: slot_destroy_def slot_reset_def)

section \<open>Addresses\<close>

definition config_nth_address_in_subnet :: "string \<Rightarrow> nat \<Rightarrow> bool \<Rightarrow> string res" where
  "config_nth_address_in_subnet net_value n include_mask =
     (case find_char (CHR ''/'') net_value of
        None \<Rightarrow> Abort
      | Some sep \<Rightarrow>
          if drop (sep + 1) net_value \<noteq> ''24'' then Abort
          else (case rfind_char (CHR ''.'') (substr net_value 0 sep) of
                  None \<Rightarrow> Ret (substr net_value 0 sep @ ''.'' @ show_dec n @
                            (if include_mask then ''/'' @ drop (sep + 1) net_value else ''''))
                | Some last_octet \<Rightarrow> Ret (substr (substr net_value 0 sep) 0 last_octet @ ''.'' @ show_dec n @
                            (if include_mask then ''/'' @ drop (sep + 1) net_value else ''''))))"

lemma nth_address_copies_agree: "config_nth_address_in_subnet = nth_address_in_subnet"
  by (intro ext) (auto simp: config_nth_address_in_subnet_def nth_address_in_subnet_def Let_def split: option.splits)

end
