(* ===== verification/Spec2Isabelle.thy ===== *)
theory Spec2Isabelle
  imports Config_Text Uplink_Order Unit_Test Hand_Over Bus_Interface Support
begin

text \<open>
  A model of nonsense, the namespace engine, and its correctness.

  \<^bold>\<open>The program.\<close> The daemon \<open>nonsensed\<close> (\<open>src/daemon\<close>) loads a configuration of entities from a JSON file,
  keeps a running copy of it, and serves D-Bus objects: a transaction manager and one object per open
  transaction, through which entities are added to the running configuration, and a controller that
  starts and stops entities. Starting an entity first starts its uplink, then forks
  \<open>nonsense-entityd\<close> (\<open>src/entityd\<close>), asks systemd for a slice and a scope, and sends each component
  of the entity to the new process, which sets up a network namespace by shell commands and keeps
  clean-ups to undo them. All of this runs as coroutines on one thread; a queue per entity
  serializes starts and stops. \<open>nonsensectl\<close> (\<open>src/control\<close>) is the command line client.

  \<^bold>\<open>Theories and the code they model.\<close>
    \<^item> \<open>Nonsense_Prelude\<close>: results with exceptions and aborts (\<open>res\<close>), \<open>std::map\<close> as sorted association lists
      (locale \<open>std_map\<close>), searching in strings, decimal and hexadecimal digits.
    \<^item> \<open>Json\<close>: the part of \<open>vendor/json.hpp\<close> that the programs use: values, \<open>operator[]\<close>, \<open>find\<close>, \<open>erase\<close>,
      comparison, conversions and their exceptions; references into a tree are paths.
    \<^item> \<open>Json_Dump\<close>: the serializer of \<open>vendor/json.hpp\<close>, with its UTF-8 automaton and its buffers. \<open>Json_Utf8\<close> relates
      the automaton to the ranges of bytes that the scanner checks, \<open>Json_Decimal\<close> the printing of
      integers to decimal digits.
    \<^item> \<open>Json_Lexer\<close>, \<open>Json_Parser\<close>: the scanner, the loop over tokens and the construction of values of \<open>json::parse\<close>.
      \<open>Json_Lexer_Properties\<close> and \<open>Json_Text\<close> show that every text is parsed to a well-formed value with
      UTF-8 strings or refused; \<open>Json_Roundtrip\<close> that printed values are read back. \<open>Json_Content\<close>:
      conditions on the strings and numbers of a value that the operations keep (locale
      \<open>json_content\<close>).
    \<^item> \<open>Common_Definitions\<close>: \<open>common_definitions.h\<close>, and the error numbers.
    \<^item> \<open>Config\<close>, \<open>Config_Add\<close>: \<open>config.cpp\<close>, loading and validation as a state monad over the tree, and \<open>add\<close>.
      \<open>Config_Valid\<close> defines what a valid configuration is and shows that validation establishes it
      (locale \<open>validation_relation\<close>, interpreted for several relations between the trees before and
      after); \<open>Config_Properties\<close> has the properties. \<open>Config_Text\<close>: the strings of a configuration stay UTF-8
      through loading, validation, \<open>add\<close> and transactions (locale \<open>config_content\<close>).
    \<^item> \<open>Async\<close>: \<open>async.h\<close> and \<open>dbus.h\<close>, how a promise replies, unwinds and resumes, and signal subscriptions.
    \<^item> \<open>Transactions\<close>: \<open>transaction.cpp\<close> and \<open>transactions.cpp\<close>. \<open>Transactions_Properties\<close> has the invariant of
      reachable states; \<open>Entity_Value\<close> the value that parameters give a new entity,
      and \<open>Transactions_Spec\<close> the specification, a function from events to states, that every run of
      D-Bus calls refines (locale \<open>simulation\<close>).
    \<^item> \<open>Entity_Queue\<close>: the token queue of \<open>entity.cpp\<close> (locale \<open>token_queue\<close>) and a machine of coroutines
      that take and return tokens and await each other, with the synchronous resumption of \<open>async.h\<close>.
      \<open>Lock_Order\<close>: runs that take tokens in one order do not deadlock, and all of them finish.
    \<^item> \<open>Entity_Start\<close>: \<open>entity::start\<close> and \<open>entity::stop\<close>, and \<open>controller.cpp\<close>. In
      \<open>Entity_Start_Properties\<close>, the locales \<open>effect_relation\<close> and \<open>entering_relation\<close> carry frame
      conditions through the coroutines.
    \<^item> \<open>Entity_Calls\<close>: the same coroutines as runs of the machine, with all their suspensions, and that each
      call of the sequential model is one such run, level by level; \<open>Start\<close> is answered exactly if the uplinks of the entity end. \<open>Uplink_Order\<close>: transactions keep uplinks free of cycles, and
      calls that run interleaved with transactions finish.
    \<^item> \<open>Entityd\<close>: \<open>entityd/main.cpp\<close> and \<open>cleanup.h\<close>. \<open>Hand_Over\<close>: the child process that becomes an entity
      daemon and the requests it receives as JSON text, end to end from \<open>Start\<close> to the commands.
    \<^item> \<open>Service\<close>: \<open>service.cpp\<close>, \<open>configuration.cpp\<close>, \<open>cli.cpp\<close> and \<open>main.cpp\<close> of the daemon.
    \<^item> \<open>Control\<close>: \<open>control/main.cpp\<close>. \<open>Bus_Interface\<close>: the vtables of all objects and the descriptions of
      services in \<open>async.h\<close>, and which calls of the client are served by which handler.
    \<^item> \<open>Unit_Test\<close>: \<open>unit-tests/entity-queue.cpp\<close>. \<open>Support\<close>: log lines, slots on the bus (\<open>bus_slot.h\<close>) and
      the address helper of \<open>config.cpp\<close>.

  \<^bold>\<open>State and effects.\<close> C++ objects are records, enumerations and variants are datatypes, 64-bit tokens and 32-bit
  user ids are words, exceptions and failed assertions are the values \<open>Throw\<close> and \<open>Abort\<close> of \<open>res\<close>. A
  call into the kernel, sd-bus or systemd is an effect in a log, and its answer is an argument, a
  function of everything done before and the call, so that a statement for all such functions holds
  for every behaviour of the system. Statuses that are read one after another are arguments of
  their own where no order matters.

  \<^bold>\<open>What is shown.\<close> A configuration that loads is valid, adding keeps it valid and touches no other
  entity, and parameters land at their paths. Commit is all or nothing and only for the owner or
  root; every reachable state is valid, and every call is one event of a deterministic specification of entities and logs; ids are
  fresh, and drawing them ends when the values drawn differ; handlers reply once. In the entity
  queue no assertion fails, tokens exclude each other and are handed on in order, no wake-up is
  lost, and control returns to the event loop. \<open>Start\<close> and \<open>Stop\<close> take tokens up the chain of uplinks;
  transactions cannot close such a chain except by an entity that is its own uplink, so that calls
  which run interleaved with each other and with transactions all finish. A start on a healthy system is answered and brings up
  the chain of uplinks in order; what it sends is what the entity daemon can set up; from \<open>Start\<close> to \<open>Stop\<close> the entity
  daemon runs exactly the commands of its role and undoes them in reverse on shutdown, or ends at the first that fails. Components
  survive being printed and parsed on the way; the parser is total and refuses what is not UTF-8. The client's
  tokens and parameters reach the daemon as they were typed, and each command is served by its
  handler or by none, which is said exactly. The unit test passes for every configuration file. The daemon that serves has started in a
  valid state, and only the system bus or the kernel can end its loop. Error behaviour is stated as
  it is, also where it is a defect: cycles of uplinks, starts that fail halfway, statuses without a
  reply, clients without a switch, and exceptions that leave a \<open>noexcept\<close> function.

  \<^bold>\<open>Loops.\<close> Loops over data are structural. The scanner and the parser end because every round takes input. The loop of the entity daemon over the switches above ends
  because the JSON value gets smaller, \<open>entity::start\<close> because the tokens held grow; validation because
  keys are visited in order. The loops whose end depends on the outside (drawing an id, waiting for
  a connection, the recursion through uplinks of a configuration that may be cyclic) are partial
  functions into \<open>option\<close>, with theorems that they return under stated conditions. The coroutine machine is run for as many steps as its amount of work
  (\<open>work\<close>), which is shown to be enough to suspend or end all coroutines.

  \<^bold>\<open>JSON text.\<close> Definitions that parse take the parser as an argument, and their theorems hold for every parser that yields
  well-formed values; \<open>json_parse\<close> and \<open>json_parse_value\<close> are shown to be such, and the theorems from
  start-up and from \<open>Start\<close> to the commands are about them. A non-negative signed integer, such as the role that
  validation stores, is read back as unsigned, and comparison takes both as equal.

  \<^bold>\<open>Not modelled.\<close> The option parser; of JSON text the conversion of floating-point numbers, \<open>strtod\<close> of the C library and
  the Grisu2 routine \<open>to_chars\<close>, which are arguments and appear in one hypothesis (\<open>floats_read\<close>) that a
  number of the configuration is read back as printed, and the position and last text in parse errors;
  D-Bus marshalling and dispatch, memory and the type-erased function wrapper (\<open>function.h\<close>), texts
  written to standard error by the client, the effect of the \<open>ip\<close> commands on the kernel, the bus policy,
  systemd units and the build. A commit replaces the tree that suspended coroutines refer to; they are
  modelled as going on with the configuration they were called on, in which their entities have
  the same uplinks.
\<close>

section \<open>From start-up to a started entity\<close>

lemma serving_config:
  assumes "daemon_main strerror (json_parse strtod) b a file rounds = Serving srv cfg obs processed"
  shows "txns_inv (manager cfg)" "utf8_config (running_config (manager cfg))" "utf8_logs (manager cfg)"
proof -
  obtain path where boot: "daemon_boot strerror (json_parse strtod) b path (file path) = Ret (srv, cfg, obs)"
    using assms by (auto simp: daemon_main_def split: sum.splits res.splits prod.splits option.splits)
  obtain c where c: "config_load (json_parse strtod) path (file path) = Ret c"
      "configuration (running_config (manager cfg)) = configuration c"
    by (rule daemon_boot_loaded[OF boot])
  have wf: "wf_json j" "utf8_json j" if "json_parse strtod t = Ret j" for t j
    using json_parse_good[OF that] by simp_all
  show "txns_inv (manager cfg)" "utf8_logs (manager cfg)"
    using daemon_boot_Ret[OF boot wf(1)] by (simp_all add: utf8_logs_def)
  show "utf8_config (running_config (manager cfg))"
    using text_config.content_load[OF c(1) wf(2)] c(2) by (simp add: utf8_config_def)
qed

text \<open>
  C8: from start-up, through any sequence of calls on transactions, to \<open>Start\<close>, whatever
  the configuration file and the parameters of new entities contain: let no coroutine hold a token, let
  every call of \<open>Start\<close> into the system, the bus and systemd succeed, and let the name be
  read and the reply be sent without error. Then an entity of the running configuration whose uplinks
  end is started with its uplinks that are not live yet, in order, and the call is answered once, with
  success.
\<close>

theorem daemon_starts_committed_entity:
  assumes "daemon_main strerror (json_parse strtod) b a file rounds = Serving srv cfg obs processed"
    and "txn_steps (json_parse_value strtod) (manager cfg) s" "conf w = running_config s" "world.held w = []"
    and "uplinks (conf w) n us" "healthy env" "reply_method_return bus \<ge> 0" "read \<ge> 0"
  shows "\<exists>w'. method_start bus env read n w =
      Some (Ret \<lparr>sent = [MethodReturn []], ret_error = None, state = w'\<rparr>) \<and> chain_started (n # us) w w'"
proof -
  have "valid_config (configuration (conf w))"
    using txn_steps_inv[OF assms(2) serving_config(1)[OF assms(1)] json_parser_wf] assms(3) by (simp add: txns_inv_def)
  then show ?thesis
    using method_start_chain assms(4-8) by blast
qed

text \<open>
  C9: the whole way of a switch with an address \<open>p.d/24\<close>, whose component has neither a
  member \<open>external\<close> nor \<open>default\<close>, so that it gets a namespace of its own: the
  daemon parses its configuration file, transactions add entities with UTF-8 strings, and
  \<open>Start\<close> of the switch, which is not live, is called while no token is held. If every call
  of \<open>Start\<close> into the system, the bus and systemd succeeds and finite floating-point
  numbers of the configuration are read back as they are printed (\<open>floats_read\<close>),
  \<open>Start\<close> is answered with success, and an entity daemon that receives the text which
  \<open>Start\<close> sends runs the commands for a switch below the switches that the configuration
  has above it, these and in this order. If all of them succeed, it goes on serving, and a shutdown
  request undoes them in reverse order; otherwise it ends at the first that fails, without any command
  after it.
\<close>

theorem daemon_builds_committed_switch:
  assumes "daemon_main strerror (json_parse strtod) b a file rounds = Serving srv cfg obs processed"
    and "text_steps strtod (manager cfg) s" "conf w = running_config s"
    and "floats_read to_chars strtod (configuration (conf w))"
    and "uplinks (conf w) n us" "network_of (conf w) n m" "world.held w = []" "\<not> is_live w n"
    and "healthy env" "reply_method_return bus \<ge> 0" "read \<ge> 0"
    and "map_of m ''role'' = Some (JString ''switch'')" "map_of m ''uplink'' = Some (JString u)"
    and "map_of m ''address'' = Some (JString (p @ ''.'' @ d @ ''/24''))" "network_parts p d"
    and "switch_chain (conf w) u hops" "own_namespace (JObject m)"
  shows "\<exists>w' es. method_start bus env read n w =
      Some (Ret \<lparr>sent = [MethodReturn []], ret_error = None, state = w'\<rparr>) \<and> effects w' = effects w @ es \<and>
    lifetime eenv (json_parse strtod) n (received to_chars n es) [interfaces_script n, bridge_script n]
      (move_script n u @ switch_script n u p d hops)"
proof -
  have inv: "txns_inv s" "utf8_config (running_config s)"
    using text_steps_keep[OF assms(2) serving_config[OF assms(1)]] by blast+
  then have valid: "valid_config (configuration (conf w))"
    using assms(3) by (simp add: txns_inv_def)
  have "sendable to_chars strtod (conf w)"
    using inv(2) assms(3,4) by (simp add: sendable_def utf8_config_def)
  moreover have "all_or_abort eenv n (read_back (sent_form (conf w) ''network'' (JObject m)))
      [interfaces_script n, bridge_script n] (move_script n u @ switch_script n u p d hops)"
    by (rule received_switch_is_set_up[OF valid assms(5,6,12-17)])
  ultimately show ?thesis
    using started_network_lives[OF valid assms(5-11)] by blast
qed

text \<open>The daemon that serves a file with a root and a switch below it starts and builds the switch.\<close>

definition sample_boot :: boot where
  "sample_boot = \<lparr>epoll_create = 0, open_system = 0, request_name = 1, subscribe = 0, main_fd = 4, epoll_add = 0,
     vtable = \<lambda>_. 1\<rparr>"

definition sample_text :: string where
  "sample_text = (case dump (\<lambda>_. '''') sample_file of Ret t \<Rightarrow> t | _ \<Rightarrow> '''')"

definition sample_daemon :: daemon where
  "sample_daemon = daemon_main (\<lambda>_. ''e'') (json_parse (\<lambda>_. 0)) sample_boot
     \<lparr>leftover = [], help_given = False, config_file = None\<rparr> (\<lambda>_. Some sample_text) []"

definition uplink_in :: "config \<Rightarrow> string \<Rightarrow> string option res" where
  "uplink_in cfg n = (case try_get cfg n of None \<Rightarrow> Abort | Some ent \<Rightarrow> uplink_of (entity_self ent))"

definition root_net :: object where
  "root_net = [('':role'', json_of_role Root), (''default'', JBool True), (''role'', JString ''root'')]"

definition test_net :: object where
  "test_net = [('':role'', json_of_role Switch), (''address'', JString ''192.168.2.0/24''),
     (''role'', JString ''switch''), (''uplink'', JString ''root'')]"

definition sample_switch :: "config \<Rightarrow> bool" where
  "sample_switch cfg \<longleftrightarrow>
     uplink_in cfg ''test'' = Ret (Some ''root'') \<and> uplink_in cfg ''root'' = Ret None \<and>
     json_at [''test'', ''network''] (configuration cfg) = Some (JObject test_net) \<and>
     json_at [''root'', ''network''] (configuration cfg) = Some (JObject root_net) \<and>
     floats_read (\<lambda>_. '''') (\<lambda>_. 0) (configuration cfg)"

lemma sample_daemon_serves:
  obtains srv cfg where "sample_daemon = Serving srv cfg daemon_objects []" "sample_switch (running_config (manager cfg))"
proof -
  have "case sample_daemon of
      Serving srv cfg obs processed \<Rightarrow> processed = [] \<and> obs = daemon_objects \<and> sample_switch (running_config (manager cfg))
    | _ \<Rightarrow> False"
    by code_simp
  then show thesis
    using that by (auto split: daemon.splits)
qed

lemma sample_switch_uplinks: "sample_switch cfg \<Longrightarrow> uplinks cfg ''test'' [''root'']"
  by (auto simp: sample_switch_def uplink_in_def reserved_keys_def split: option.splits intro!: uplinks.intros)

definition idle_world :: "config \<Rightarrow> world" where
  "idle_world cfg = \<lparr>conf = cfg, live = [], held = [], effects = []\<rparr>"

theorem daemon_starts_committed_entity_witness:
  "\<exists>srv cfg w'. sample_daemon = Serving srv cfg daemon_objects [] \<and>
     method_start good_bus sample_system 1 ''test'' (idle_world (running_config (manager cfg))) =
       Some (Ret \<lparr>sent = [MethodReturn []], ret_error = None, state = w'\<rparr>) \<and>
     is_live w' ''root'' \<and> is_live w' ''test''"
proof -
  obtain srv cfg where run: "sample_daemon = Serving srv cfg daemon_objects []" "sample_switch (running_config (manager cfg))"
    by (rule sample_daemon_serves)
  let ?w = "idle_world (running_config (manager cfg))"
  have "\<exists>w'. method_start good_bus sample_system 1 ''test'' ?w =
      Some (Ret \<lparr>sent = [MethodReturn []], ret_error = None, state = w'\<rparr>) \<and> chain_started [''test'', ''root''] ?w w'"
    by (rule daemon_starts_committed_entity[OF run(1)[unfolded sample_daemon_def] rtranclp.rtrancl_refl])
      (simp_all add: idle_world_def sample_switch_uplinks[OF run(2)] sample_healthy good_bus_def)
  then obtain w' where start: "method_start good_bus sample_system 1 ''test'' ?w =
      Some (Ret \<lparr>sent = [MethodReturn []], ret_error = None, state = w'\<rparr>)" "chain_started [''test'', ''root''] ?w w'"
    by blast
  moreover have "is_live w' ''root''" "is_live w' ''test''"
    using start(2) by (auto simp: chain_started_def pending_def is_live_def idle_world_def)
  ultimately show ?thesis
    using run(1) by blast
qed

theorem daemon_builds_committed_switch_witness:
  "\<exists>srv cfg w' es. sample_daemon = Serving srv cfg daemon_objects [] \<and>
     method_start good_bus sample_system 1 ''test'' (idle_world (running_config (manager cfg))) =
       Some (Ret \<lparr>sent = [MethodReturn []], ret_error = None, state = w'\<rparr>) \<and> effects w' = es \<and>
     lifetime (\<lambda>h a. 0) (json_parse (\<lambda>_. 0)) ''test'' (received (\<lambda>_. '''') ''test'' es)
       [interfaces_script ''test'', bridge_script ''test'']
       (move_script ''test'' ''root'' @ switch_script ''test'' ''root'' ''192.168.2'' ''0'' [])"
proof -
  obtain srv cfg where run: "sample_daemon = Serving srv cfg daemon_objects []" "sample_switch (running_config (manager cfg))"
    by (rule sample_daemon_serves)
  let ?cfg = "running_config (manager cfg)"
  let ?w = "idle_world ?cfg"
  have net: "network_of ?cfg ''test'' test_net" "network_of ?cfg ''root'' root_net"
    using run(2) by (simp_all add: sample_switch_def network_of_def)
  have "switch_chain ?cfg ''root'' []"
    by (rule chain_top[OF net(2), where r = "''root''"]) (simp_all add: root_net_def)
  note net = net(1) this
  have "\<exists>w' es. method_start good_bus sample_system 1 ''test'' ?w =
      Some (Ret \<lparr>sent = [MethodReturn []], ret_error = None, state = w'\<rparr>) \<and> effects w' = effects ?w @ es \<and>
     lifetime (\<lambda>h a. 0) (json_parse (\<lambda>_. 0)) ''test'' (received (\<lambda>_. '''') ''test'' es)
       [interfaces_script ''test'', bridge_script ''test'']
       (move_script ''test'' ''root'' @ switch_script ''test'' ''root'' ''192.168.2'' ''0'' [])"
    by (rule daemon_builds_committed_switch[OF run(1)[unfolded sample_daemon_def] rtranclp.rtrancl_refl,
          where m = test_net and us = "[''root'']"])
      (use run(2) net in \<open>simp_all add: idle_world_def sample_switch_def sample_switch_uplinks[OF run(2)] sample_healthy
        good_bus_def test_net_def network_parts_def own_namespace_def is_live_def\<close>)
  then show ?thesis
    using run(1) by (auto simp: idle_world_def)
qed

end
